(* ===== verification/Prelude.thy ===== *)
theory Prelude
  imports Main "HOL-Library.Word" "HOL-Library.Monad_Syntax"
begin

text \<open>
  Shared vocabulary of the development: machine widths, checked access to allocated
  blocks, and the fact collections the component theories use.

  An allocated block is a list; its length is the number of elements the allocation
  holds. Every access goes through \<open>rd\<close>, \<open>wr\<close>, \<open>rdn\<close> or \<open>wrn\<close>, which give \<open>None\<close>
  when the access leaves the block. A definition that returns \<open>option\<close> therefore
  returns \<open>None\<close> exactly when the source has no defined behaviour: an access outside
  an allocation, a null dereference, a failed \<open>assert\<close> or an \<open>abort\<close>.
\<close>

named_theorems mem_simps \<open>rewriting of checked block accesses\<close>
named_theorems wf_simps \<open>unfolding of the representation invariants\<close>
named_theorems abs_simps \<open>abstraction functions over concrete operations\<close>

type_synonym byte = "8 word"

section \<open>Machine integers kept as numbers\<close>

text \<open>
  The ESP8266 has 16-bit \<open>uint16_t\<close>, 32-bit \<open>int\<close>, \<open>long\<close>, \<open>size_t\<close> and pointers.
  Unsigned values are \<open>nat\<close> with the reduction written out; signed ones are \<open>int\<close> with
  two's complement truncation.
\<close>

definition u8 :: "nat \<Rightarrow> nat" where
  "u8 n = n mod 256"

definition u16 :: "nat \<Rightarrow> nat" where
  "u16 n = n mod 65536"

definition u32 :: "nat \<Rightarrow> nat" where
  "u32 n = n mod 4294967296"

definition to_u32 :: "int \<Rightarrow> nat" where
  "to_u32 i = nat (i mod 4294967296)"

definition s8 :: "int \<Rightarrow> int" where
  "s8 i = (i + 128) mod 256 - 128"

definition s16 :: "int \<Rightarrow> int" where
  "s16 i = (i + 32768) mod 65536 - 32768"

definition s32 :: "int \<Rightarrow> int" where
  "s32 i = (i + 2147483648) mod 4294967296 - 2147483648"

text \<open>C division and remainder truncate towards zero.\<close>

definition c_div :: "int \<Rightarrow> int \<Rightarrow> int" where
  "c_div a b = sgn a * sgn b * (\<bar>a\<bar> div \<bar>b\<bar>)"

definition c_mod :: "int \<Rightarrow> int \<Rightarrow> int" where
  "c_mod a b = a - b * c_div a b"

lemma u16_id [simp]: "n < 65536 \<Longrightarrow> u16 n = n"
  by (simp add: u16_def)

lemma u16_less [simp]: "u16 n < 65536"
  by (simp add: u16_def)

lemma u16_le_self [simp]: "u16 n \<le> n"
  by (simp add: u16_def)

lemma u32_id [simp]: "n < 4294967296 \<Longrightarrow> u32 n = n"
  by (simp add: u32_def)

lemma u32_less [simp]: "u32 n < 4294967296"
  by (simp add: u32_def)

lemma u8_id [simp]: "n < 256 \<Longrightarrow> u8 n = n"
  by (simp add: u8_def)

lemma u8_less [simp]: "u8 n < 256"
  by (simp add: u8_def)

lemma s8_id: "-128 \<le> i \<Longrightarrow> i < 128 \<Longrightarrow> s8 i = i"
  by (simp add: s8_def)

lemma s16_id: "-32768 \<le> i \<Longrightarrow> i < 32768 \<Longrightarrow> s16 i = i"
  by (simp add: s16_def)

lemma s32_id: "-2147483648 \<le> i \<Longrightarrow> i < 2147483648 \<Longrightarrow> s32 i = i"
  by (simp add: s32_def)

lemma to_u32_id: "0 \<le> i \<Longrightarrow> i < 4294967296 \<Longrightarrow> to_u32 i = nat i"
  by (simp add: to_u32_def)

lemma nat_diff_mod: "b \<le> a \<Longrightarrow> a < 65536 \<Longrightarrow> nat ((int a - int b) mod 65536) = a - b"
  by (simp add: flip: of_nat_diff)

lemma to_u32_diff: "b \<le> a \<Longrightarrow> a < 4294967296 \<Longrightarrow> to_u32 (int a - int b) = a - b"
  by (simp add: to_u32_def flip: of_nat_diff)

lemma c_div_nonneg: "0 \<le> a \<Longrightarrow> 0 < b \<Longrightarrow> c_div a b = a div b"
  by (cases "a = 0") (simp_all add: c_div_def)

lemma c_mod_nonneg: "0 \<le> a \<Longrightarrow> 0 < b \<Longrightarrow> c_mod a b = a mod b"
  by (simp add: c_mod_def c_div_nonneg minus_mult_div_eq_mod)

section \<open>Checked access to allocated blocks\<close>

definition rd :: "'a list \<Rightarrow> nat \<Rightarrow> 'a option" where
  "rd b i = (if i < length b then Some (b ! i) else None)"

definition wr :: "'a list \<Rightarrow> nat \<Rightarrow> 'a \<Rightarrow> 'a list option" where
  "wr b i x = (if i < length b then Some (b[i := x]) else None)"

definition rdn :: "'a list \<Rightarrow> nat \<Rightarrow> nat \<Rightarrow> 'a list option" where
  "rdn b i n = (if i + n \<le> length b then Some (take n (drop i b)) else None)"

definition wrn :: "'a list \<Rightarrow> nat \<Rightarrow> 'a list \<Rightarrow> 'a list option" where
  "wrn b i xs = (if i + length xs \<le> length b
     then Some (take i b @ xs @ drop (i + length xs) b) else None)"

lemma rd_Some [mem_simps]: "i < length b \<Longrightarrow> rd b i = Some (b ! i)"
  by (simp add: rd_def)

lemma wr_Some [mem_simps]: "i < length b \<Longrightarrow> wr b i x = Some (b[i := x])"
  by (simp add: wr_def)

lemma rdn_Some [mem_simps]: "i + n \<le> length b \<Longrightarrow> rdn b i n = Some (take n (drop i b))"
  by (simp add: rdn_def)

lemma wrn_Some [mem_simps]: "i + length xs \<le> length b \<Longrightarrow>
    wrn b i xs = Some (take i b @ xs @ drop (i + length xs) b)"
  by (simp add: wrn_def)

lemma wr_SomeD: "wr b i x = Some b' \<Longrightarrow> i < length b \<and> b' = b[i := x]"
  by (simp add: wr_def split: if_splits)

lemma wrn_SomeD: "wrn b i xs = Some b' \<Longrightarrow>
    i + length xs \<le> length b \<and> b' = take i b @ xs @ drop (i + length xs) b"
  by (simp add: wrn_def split: if_splits)

lemma rdn_SomeD: "rdn b i n = Some xs \<Longrightarrow> i + n \<le> length b \<and> xs = take n (drop i b)"
  by (simp add: rdn_def split: if_splits)

lemma length_wrn: "wrn b i xs = Some b' \<Longrightarrow> length b' = length b"
  by (auto dest!: wrn_SomeD)

lemma wrn_nth_before: "i + length xs \<le> length b \<Longrightarrow> k < i \<Longrightarrow>
    (take i b @ xs @ drop (i + length xs) b) ! k = b ! k"
  by (simp add: nth_append)

lemma wrn_nth_after: "i + length xs \<le> length b \<Longrightarrow> i + length xs \<le> k \<Longrightarrow> k < length b \<Longrightarrow>
    (take i b @ xs @ drop (i + length xs) b) ! k = b ! k"
  by (auto simp: nth_append)

lemma take_wrn_upto: "i + length xs \<le> length b \<Longrightarrow>
    take (i + length xs) (take i b @ xs @ drop (i + length xs) b) = take i b @ xs"
  by simp

lemma take_list_update_ge [simp]: "n \<le> i \<Longrightarrow> take n (b[i := x]) = take n b"
  by simp

section \<open>Generic list lemmas\<close>

lemma takeWhile_append_first:
  "\<forall>x\<in>set xs. P x \<Longrightarrow> \<not> P y \<Longrightarrow> takeWhile P (xs @ y # ys) = xs"
  by (induction xs) auto

lemma dropWhile_append_first:
  "\<forall>x\<in>set xs. P x \<Longrightarrow> \<not> P y \<Longrightarrow> dropWhile P (xs @ y # ys) = y # ys"
  by (induction xs) auto

lemma drop_nth_Cons: "i < length b \<Longrightarrow> drop i b = b ! i # drop (Suc i) b"
  by (simp add: Cons_nth_drop_Suc)

text \<open>Stores into a block given as the part before the index and the rest.\<close>

lemma wr_at: "length pre = p \<Longrightarrow> wr (pre @ x # r) p c = Some (pre @ c # r)"
  by (auto simp: wr_def)

lemma wr_append: "length pre = p \<Longrightarrow> r \<noteq> [] \<Longrightarrow> wr (pre @ r) p c = Some (pre @ c # tl r)"
  by (cases r) (auto simp: wr_at)

lemma wrn_at: "length pre = p \<Longrightarrow> length t \<le> length r \<Longrightarrow> wrn (pre @ r) p t = Some (pre @ t @ drop (length t) r)"
  by (auto simp: wrn_def)

lemma wrn_append: "length pre = p \<Longrightarrow> length xs = length ys \<Longrightarrow> wrn (pre @ xs @ r) p ys = Some (pre @ ys @ r)"
  by (auto simp: wrn_def)

lemma take_drop_split: "i \<le> j \<Longrightarrow> take j b = take i b @ take (j - i) (drop i b)"
  by (metis le_add_diff_inverse take_add)

lemma Some_bind_iff: "(x \<bind> f = Some y) = (\<exists>a. x = Some a \<and> f a = Some y)"
  by (cases x) auto

text \<open>The position of the first occurrence of an element.\<close>

fun first_index :: "'a list \<Rightarrow> 'a \<Rightarrow> nat option" where
  "first_index [] x = None"
| "first_index (y # ys) x = (if y = x then Some 0 else map_option Suc (first_index ys x))"

lemma first_index_Some: "first_index xs x = Some k \<Longrightarrow> k < length xs \<and> xs ! k = x \<and> x \<notin> set (take k xs)"
  by (induction xs arbitrary: k) (auto split: if_splits)

lemma first_index_None: "first_index xs x = None \<longleftrightarrow> x \<notin> set xs"
  by (induction xs) auto

section \<open>Closing a gap in an array\<close>

text \<open>The loop \<open>for(; i < n; i++) b[i - 1] = b[i];\<close> of the containers.\<close>

function shift_down :: "'a list \<Rightarrow> nat \<Rightarrow> nat \<Rightarrow> 'a list option" where
  "shift_down b i n =
     (if i < n then do { x \<leftarrow> rd b i; b1 \<leftarrow> wr b (i - 1) x; shift_down b1 (Suc i) n } else Some b)"
  by pat_completeness auto
termination
  by (relation "measure (\<lambda>(b, i, n). n - i)") auto

declare shift_down.simps [simp del]

lemma shift_down_spec:
  "0 < i \<Longrightarrow> i \<le> n \<Longrightarrow> n \<le> length b \<Longrightarrow>
    shift_down b i n = Some (take (i - 1) b @ take (n - i) (drop i b) @ drop (n - 1) b)"
proof (induction "n - i" arbitrary: i b)
  case 0
  then show ?case by (simp add: shift_down.simps [of b i i])
next
  case (Suc m)
  then have i: "i < n" by simp
  let ?b = "b[i - 1 := b ! i]"
  have "shift_down ?b (Suc i) n = Some (take i ?b @ take (n - Suc i) (drop (Suc i) ?b) @ drop (n - 1) ?b)"
    using Suc i by simp
  moreover have "take i ?b = take (i - 1) b @ [b ! i]"
    using i Suc.prems by (cases i) (simp_all add: take_Suc_conv_app_nth)
  moreover have "take (n - i) (drop i b) = b ! i # take (n - Suc i) (drop (Suc i) b)"
    using i Suc.prems by (simp add: drop_nth_Cons [of i b] take_Cons' Suc_diff_Suc)
  ultimately show ?case
    using i Suc.prems by (simp add: shift_down.simps [of b i n] rd_def wr_def)
qed

lemma shift_down_nth:
  assumes "0 < i" and "i \<le> length b" and "shift_down b i (length b) = Some b'"
  shows "length b' = length b"
    and "l < length b - 1 \<Longrightarrow> b' ! l = (if l < i - 1 then b ! l else b ! Suc l)"
  using assms shift_down_spec [of i "length b" b] by (auto simp: nth_append)

end
