(* ===== verification/CLib.thy ===== *)
theory CLib
  imports Prelude
begin

text \<open>
  The part of the C library the sources call, on the block model of \<open>Prelude\<close>:
  \<open>strlen\<close>, \<open>memchr\<close>, \<open>memmem\<close>, \<open>strrchr\<close>, \<open>strcmp\<close>, \<open>strcasecmp\<close>, \<open>strtol\<close>/\<open>atoi\<close>
  in base ten, the \<open>ctype\<close> predicates in the C locale, and the allocator.
\<close>

section \<open>Characters\<close>

abbreviation NUL :: char where
  "NUL \<equiv> CHR 0x00"

definition c_isspace :: "char \<Rightarrow> bool" where
  "c_isspace c \<longleftrightarrow> c = CHR '' '' \<or> (9 \<le> (of_char c :: nat) \<and> (of_char c :: nat) \<le> 13)"

definition c_isdigit :: "char \<Rightarrow> bool" where
  "c_isdigit c \<longleftrightarrow> 48 \<le> (of_char c :: nat) \<and> (of_char c :: nat) \<le> 57"

definition c_tolower :: "char \<Rightarrow> char" where
  "c_tolower c = (let n = (of_char c :: nat) in if 65 \<le> n \<and> n \<le> 90 then char_of (n + 32) else c)"

definition c_toupper :: "char \<Rightarrow> char" where
  "c_toupper c = (let n = (of_char c :: nat) in if 97 \<le> n \<and> n \<le> 122 then char_of (n - 32) else c)"

definition digit_val :: "char \<Rightarrow> int" where
  "digit_val c = int (of_char c) - 48"

lemma of_char_nat_less [simp]: "(of_char c :: nat) < 256"
  using nat_of_char_less_256 by simp

lemma of_char_eq_iff [simp]: "((of_char c :: nat) = of_char d) = (c = d)"
  by (metis char_of_char)

lemma NUL_eq: "c = NUL \<longleftrightarrow> (of_char c :: nat) = 0"
proof
  assume "(of_char c :: nat) = 0"
  then have "(of_char c :: nat) = of_char NUL" by simp
  then show "c = NUL" by (simp only: of_char_eq_iff)
qed simp

lemma c_isspace_NUL [simp]: "\<not> c_isspace NUL"
  by (simp add: c_isspace_def)

lemma c_isdigit_NUL [simp]: "\<not> c_isdigit NUL"
  by (simp add: c_isdigit_def)

lemma c_tolower_NUL [simp]: "c_tolower NUL = NUL"
  by (simp add: c_tolower_def)

lemma c_toupper_NUL [simp]: "c_toupper NUL = NUL"
  by (simp add: c_toupper_def)

lemma of_char_char_of: "n < 256 \<Longrightarrow> (of_char (char_of (n::nat) :: char) :: nat) = n"
  by simp

lemma c_tolower_nonNUL: "c \<noteq> NUL \<Longrightarrow> c_tolower c \<noteq> NUL"
  by (auto simp: c_tolower_def Let_def NUL_eq)

lemma c_toupper_nonNUL: "c \<noteq> NUL \<Longrightarrow> c_toupper c \<noteq> NUL"
  by (auto simp: c_toupper_def Let_def NUL_eq)

section \<open>Strings and blocks\<close>

text \<open>The characters of a C string: everything before the first NUL.\<close>

definition cstr :: "char list \<Rightarrow> char list" where
  "cstr xs = takeWhile (\<lambda>c. c \<noteq> NUL) xs"

text \<open>\<open>strlen(p)\<close> for \<open>p\<close> at offset \<open>off\<close> of block \<open>b\<close>: undefined without a NUL in the block.\<close>

definition c_strlen :: "char list \<Rightarrow> nat \<Rightarrow> nat option" where
  "c_strlen b off = (let n = length (cstr (drop off b)) in
     if off + n < length b then Some n else None)"

lemma cstr_append_NUL: "NUL \<notin> set xs \<Longrightarrow> cstr (xs @ NUL # ys) = xs"
  unfolding cstr_def by (rule takeWhile_append_first) auto

lemma cstr_id [simp]: "NUL \<notin> set xs \<Longrightarrow> cstr xs = xs"
  unfolding cstr_def by (rule takeWhile_eq_all_conv [THEN iffD2]) auto

lemma NUL_notin_cstr [simp]: "NUL \<notin> set (cstr xs)"
  unfolding cstr_def by (auto dest: set_takeWhileD)

lemma length_cstr_le: "length (cstr xs) \<le> length xs"
  by (simp add: cstr_def length_takeWhile_le)

lemma cstr_take_nth_NUL:
  assumes "n < length b" and "b ! n = NUL"
  shows "cstr b = cstr (take n b)"
proof -
  have "b = take n b @ NUL # drop (Suc n) b"
    using assms by (metis id_take_nth_drop)
  then have "cstr b = cstr (take n b @ NUL # drop (Suc n) b)" by simp
  also have "\<dots> = cstr (take n b)"
    by (cases "NUL \<in> set (take n b)")
       (simp_all add: cstr_append_NUL, simp add: cstr_def takeWhile_append1)
  finally show ?thesis .
qed

text \<open>
  \<open>memchr\<close>: offset of the first \<open>c\<close> of a byte sequence. \<open>memmem\<close>: offset of the first
  occurrence of the needle; an empty needle is found at offset 0.
\<close>

fun c_memchr :: "char list \<Rightarrow> char \<Rightarrow> nat option" where
  "c_memchr [] c = None"
| "c_memchr (x # xs) c = (if x = c then Some 0 else map_option Suc (c_memchr xs c))"

fun is_prefix :: "'a list \<Rightarrow> 'a list \<Rightarrow> bool" where
  "is_prefix [] ys = True"
| "is_prefix (x # xs) [] = False"
| "is_prefix (x # xs) (y # ys) = (x = y \<and> is_prefix xs ys)"

fun c_memmem :: "char list \<Rightarrow> char list \<Rightarrow> nat option" where
  "c_memmem [] nd = (if nd = [] then Some 0 else None)"
| "c_memmem (x # xs) nd =
     (if is_prefix nd (x # xs) then Some 0 else map_option Suc (c_memmem xs nd))"

text \<open>\<open>strrchr\<close> for a character other than NUL: offset of the last \<open>c\<close> before the first NUL.\<close>

fun last_index :: "char list \<Rightarrow> char \<Rightarrow> nat option" where
  "last_index [] c = None"
| "last_index (x # xs) c =
     (case last_index xs c of Some i \<Rightarrow> Some (Suc i) | None \<Rightarrow> if x = c then Some 0 else None)"

definition c_strrchr :: "char list \<Rightarrow> char \<Rightarrow> nat option" where
  "c_strrchr b c = (if c = NUL then Some (length (cstr b)) else last_index (cstr b) c)"

text \<open>\<open>strcmp\<close> and \<open>strcasecmp\<close>: the difference of the first bytes that differ.\<close>

fun c_strcmp :: "char list \<Rightarrow> char list \<Rightarrow> int" where
  "c_strcmp [] [] = 0"
| "c_strcmp [] (y # ys) = - int (of_char y)"
| "c_strcmp (x # xs) [] = int (of_char x)"
| "c_strcmp (x # xs) (y # ys) =
     (if x = y then c_strcmp xs ys else int (of_char x) - int (of_char y))"

definition c_strcasecmp :: "char list \<Rightarrow> char list \<Rightarrow> int" where
  "c_strcasecmp a b = c_strcmp (map c_tolower a) (map c_tolower b)"

lemma is_prefix_iff: "is_prefix p xs \<longleftrightarrow> take (length p) xs = p"
  by (induction p xs rule: is_prefix.induct) auto

lemma is_prefix_length: "is_prefix p xs \<Longrightarrow> length p \<le> length xs"
  by (induction p xs rule: is_prefix.induct) auto

lemma c_memchr_Some:
  "c_memchr xs c = Some i \<Longrightarrow> i < length xs \<and> xs ! i = c \<and> c \<notin> set (take i xs)"
  by (induction xs c arbitrary: i rule: c_memchr.induct) (auto split: if_splits)

lemma c_memchr_None: "c_memchr xs c = None \<longleftrightarrow> c \<notin> set xs"
  by (induction xs c rule: c_memchr.induct) auto

lemma c_memmem_Some:
  "c_memmem xs nd = Some i \<Longrightarrow> i + length nd \<le> length xs \<and> take (length nd) (drop i xs) = nd
     \<and> (\<forall>j<i. take (length nd) (drop j xs) \<noteq> nd)"
proof (induction xs nd arbitrary: i rule: c_memmem.induct)
  case (1 nd)
  then show ?case by (auto split: if_splits)
next
  case (2 x xs nd)
  show ?case
  proof (cases "is_prefix nd (x # xs)")
    case True
    with 2(2) show ?thesis
      using is_prefix_length [OF True] by (auto simp: is_prefix_iff)
  next
    case False
    with 2(2) obtain k where k: "c_memmem xs nd = Some k" "i = Suc k" by auto
    have "\<forall>j<Suc k. take (length nd) (drop j (x # xs)) \<noteq> nd"
    proof (intro allI impI)
      fix j assume "j < Suc k"
      then show "take (length nd) (drop j (x # xs)) \<noteq> nd"
        using 2(1) [OF False k(1)] False by (cases j) (auto simp: is_prefix_iff)
    qed
    with 2(1) [OF False k(1)] k(2) show ?thesis by auto
  qed
qed

lemma c_memmem_None:
  "c_memmem xs nd = None \<longleftrightarrow> (\<forall>j\<le>length xs. take (length nd) (drop j xs) \<noteq> nd)"
proof (induction xs nd rule: c_memmem.induct)
  case (1 nd)
  then show ?case by auto
next
  case (2 x xs nd)
  show ?case
  proof (cases "is_prefix nd (x # xs)")
    case True
    then have "take (length nd) (drop 0 (x # xs)) = nd" by (simp add: is_prefix_iff)
    with True show ?thesis by (auto intro: exI [of _ 0])
  next
    case False
    then have "c_memmem (x # xs) nd = None \<longleftrightarrow> (\<forall>j\<le>length xs. take (length nd) (drop j xs) \<noteq> nd)"
      using 2 by simp
    also have "\<dots> \<longleftrightarrow> (\<forall>j\<le>length (x # xs). take (length nd) (drop j (x # xs)) \<noteq> nd)"
    proof (intro iffI allI impI)
      fix j assume "\<forall>j\<le>length xs. take (length nd) (drop j xs) \<noteq> nd" "j \<le> length (x # xs)"
      then show "take (length nd) (drop j (x # xs)) \<noteq> nd"
        using False by (cases j) (auto simp: is_prefix_iff)
    next
      fix j assume "\<forall>j\<le>length (x # xs). take (length nd) (drop j (x # xs)) \<noteq> nd" "j \<le> length xs"
      then show "take (length nd) (drop j xs) \<noteq> nd"
        by (auto dest: spec [of _ "Suc j"])
    qed
    finally show ?thesis .
  qed
qed

lemma c_strcmp_eq_0: "c_strcmp a b = 0 \<longleftrightarrow> a = b"
  if "NUL \<notin> set a" "NUL \<notin> set b"
  using that by (induction a b rule: c_strcmp.induct) (auto simp: NUL_eq [symmetric])

lemma c_strcmp_antisym: "c_strcmp a b = - c_strcmp b a"
  by (induction a b rule: c_strcmp.induct) auto

section \<open>Decimal conversion\<close>

text \<open>
  \<open>strtol(s, &end, 10)\<close>: skip white space, an optional sign, then digits; the result
  saturates at the 32-bit \<open>long\<close> limits. The second component is the number of
  characters consumed, 0 if there is no digit.
\<close>

definition digits_val :: "char list \<Rightarrow> int" where
  "digits_val ds = foldl (\<lambda>v c. v * 10 + digit_val c) 0 ds"

definition clamp_long :: "int \<Rightarrow> int" where
  "clamp_long v = max (-2147483648) (min 2147483647 v)"

definition c_strtol10 :: "char list \<Rightarrow> int \<times> nat" where
  "c_strtol10 s = (let ws = takeWhile c_isspace s; r = dropWhile c_isspace s;
      neg = (r \<noteq> [] \<and> hd r = CHR ''-'');
      sg = (if r \<noteq> [] \<and> (hd r = CHR ''-'' \<or> hd r = CHR ''+'') then 1 else 0);
      ds = takeWhile c_isdigit (drop sg r) in
    if ds = [] then (0, 0)
    else (clamp_long (if neg then - digits_val ds else digits_val ds), length ws + sg + length ds))"

definition c_atoi :: "char list \<Rightarrow> int" where
  "c_atoi s = fst (c_strtol10 s)"

section \<open>The allocator\<close>

text \<open>
  Whether an allocation of \<open>n\<close> bytes succeeds and what a fresh byte holds are not
  determined by the program: both are parameters of every operation that allocates.
  \<open>realloc\<close> keeps the common prefix of the old and the new block.
\<close>

record alloc_env =
  alloc_ok :: "nat \<Rightarrow> bool"
  fresh :: "nat \<Rightarrow> char"

definition block_of :: "'a list option \<Rightarrow> 'a list" where
  "block_of p = (case p of None \<Rightarrow> [] | Some b \<Rightarrow> b)"

definition c_realloc :: "alloc_env \<Rightarrow> char list option \<Rightarrow> nat \<Rightarrow> char list option" where
  "c_realloc e p n = (if alloc_ok e n
     then Some (take n (block_of p) @ map (fresh e) [length (take n (block_of p))..<n]) else None)"

lemma block_of_simps [simp]: "block_of None = []" "block_of (Some b) = b"
  by (simp_all add: block_of_def)

lemma length_c_realloc: "c_realloc e p n = Some b \<Longrightarrow> length b = n"
  by (auto simp: c_realloc_def split: if_splits)

lemma take_c_realloc: "c_realloc e p n = Some b \<Longrightarrow> k \<le> n \<Longrightarrow> k \<le> length (block_of p) \<Longrightarrow>
    take k b = take k (block_of p)"
  by (auto simp: c_realloc_def split: if_splits)

lemma nth_c_realloc: "c_realloc e p n = Some b \<Longrightarrow> k < n \<Longrightarrow> k < length (block_of p) \<Longrightarrow>
    b ! k = block_of p ! k"
  by (auto simp: c_realloc_def nth_append split: if_splits)

end
