(* ===== verification/StringConversion.thy ===== *)
theory StringConversion
  imports CLib
begin

text \<open>
  Number to text conversion: \<open>system/stringconversion.cpp\<close> (\<open>ltoa\<close>, \<open>ultoa\<close> and their
  padded forms) and the hexadecimal digit helpers of \<open>system/include/stringutil.h\<close>, with
  the search \<open>strstri\<close> of \<open>system/stringutil.cpp\<close>.

  The conversions fill a local 40-byte array from index 38 downwards and then copy the
  string that starts at the last written index. The model keeps the index and the
  characters written so far; the result is the string the function leaves in the
  caller's buffer, without its terminator.
\<close>

section \<open>Hexadecimal digits\<close>

definition hexchar :: "nat \<Rightarrow> char" where
  "hexchar c = (if c < 10 then char_of (48 + c) else if c \<le> 15 then char_of (97 + c - 10) else NUL)"

definition unhex :: "char \<Rightarrow> int" where
  "unhex c = (let n = (of_char c :: nat) in
     if 48 \<le> n \<and> n \<le> 57 then int n - 48
     else if 97 \<le> n \<and> n \<le> 102 then 10 + int n - 97
     else if 65 \<le> n \<and> n \<le> 70 then 10 + int n - 65
     else -1)"

section \<open>Integer to text\<close>

fun ltoa_loop :: "nat \<Rightarrow> int \<Rightarrow> int \<Rightarrow> char list \<Rightarrow> nat \<times> char list" where
  "ltoa_loop 0 val base acc = (0, acc)"
| "ltoa_loop (Suc i) val base acc =
     (if val = 0 then (Suc i, acc)
      else ltoa_loop i (c_div val base) base (hexchar (nat (c_mod val base mod 256)) # acc))"

definition pad_to :: "int \<Rightarrow> char \<Rightarrow> char list \<Rightarrow> char list" where
  "pad_to width pad s =
     (if width \<noteq> 0 then replicate (nat (width - int (length s))) pad @ s else s)"

definition ltoa_wp :: "int \<Rightarrow> int \<Rightarrow> int \<Rightarrow> char \<Rightarrow> char list" where
  "ltoa_wp val base width pad =
     (let ngt = val < 0;
          v = (if ngt then s32 (- val) else val);
          ds = snd (ltoa_loop 38 v base []);
          ds1 = (if ds = [] then ''0'' else ds);
          ds2 = (if ngt then CHR ''-'' # ds1 else ds1)
      in pad_to width pad (cstr ds2))"

definition ltoa_w :: "int \<Rightarrow> int \<Rightarrow> int \<Rightarrow> char list" where
  "ltoa_w val base width = ltoa_wp val base width CHR '' ''"

definition ltoa :: "int \<Rightarrow> int \<Rightarrow> char list" where
  "ltoa val base = ltoa_w val base 0"

fun ultoa_loop :: "nat \<Rightarrow> nat \<Rightarrow> nat \<Rightarrow> char list \<Rightarrow> nat \<times> char list" where
  "ultoa_loop 0 val base acc = (0, acc)"
| "ultoa_loop (Suc i) val base acc =
     (if val = 0 then (Suc i, acc)
      else ultoa_loop i (val div base) base (hexchar (u8 (val mod base)) # acc))"

definition ultoa_wp :: "nat \<Rightarrow> nat \<Rightarrow> int \<Rightarrow> char \<Rightarrow> char list" where
  "ultoa_wp val base width pad =
     (let ds = snd (ultoa_loop 38 val base []);
          ds1 = (if ds = [] then ''0'' else ds)
      in pad_to width pad (cstr ds1))"

text \<open>The source passes the constant 0 on, not its own \<open>width\<close>.\<close>

definition ultoa_w :: "nat \<Rightarrow> nat \<Rightarrow> int \<Rightarrow> char list" where
  "ultoa_w val base width = ultoa_wp val base 0 CHR '' ''"

definition ultoa :: "nat \<Rightarrow> nat \<Rightarrow> char list" where
  "ultoa val base = ultoa_w val base 0"

section \<open>Case-insensitive search\<close>

text \<open>
  \<open>strstri(pString, pToken)\<close> on the two strings' characters: the arguments are the
  remaining text, the index in the text of its first character, the whole token and
  the number of token characters matched. A mismatch inside a match resets
  \<open>matchIndex\<close> without moving in the text.
\<close>

function strstri_loop :: "char list \<Rightarrow> nat \<Rightarrow> char list \<Rightarrow> nat \<Rightarrow> nat option" where
  "strstri_loop [] pos tok m = None"
| "strstri_loop (c # cs) pos tok m =
     (if m < length tok \<and> c_tolower c = c_tolower (tok ! m)
      then (if m + 1 = length tok then Some (pos - m) else strstri_loop cs (pos + 1) tok (m + 1))
      else if m \<noteq> 0 then strstri_loop (c # cs) pos tok 0
      else strstri_loop cs (pos + 1) tok 0)"
  by pat_completeness auto
termination
  by (relation "measures [\<lambda>(cs, p, t, m). length cs, \<lambda>(cs, p, t, m). m]") simp_all

definition strstri :: "char list \<Rightarrow> char list \<Rightarrow> nat option" where
  "strstri str tok = (if tok = [] then None else strstri_loop str 0 tok 0)"

section \<open>Lemmas\<close>

lemma of_char_hexchar: "c < 16 \<Longrightarrow>
    (of_char (hexchar c) :: nat) = (if c < 10 then 48 + c else 87 + c)"
  by (simp add: hexchar_def of_char_char_of)

lemma unhex_hexchar [simp]: "c < 16 \<Longrightarrow> unhex (hexchar c) = int c"
  by (simp add: unhex_def of_char_hexchar Let_def)

lemma hexchar_nonNUL [simp]: "c < 16 \<Longrightarrow> hexchar c \<noteq> NUL"
  by (simp add: NUL_eq of_char_hexchar)

lemma hexchar_isdigit: "c < 10 \<Longrightarrow> c_isdigit (hexchar c)"
  by (simp add: c_isdigit_def of_char_hexchar)

lemma hexchar_eq_0: "c < 16 \<Longrightarrow> hexchar c = CHR ''0'' \<longleftrightarrow> c = 0"
proof -
  assume "c < 16"
  have "hexchar c = CHR ''0'' \<longleftrightarrow> (of_char (hexchar c) :: nat) = of_char (CHR ''0'')"
    by (simp only: of_char_eq_iff)
  with \<open>c < 16\<close> show ?thesis by (simp add: of_char_hexchar)
qed

text \<open>The positional value of a digit string.\<close>

definition eval_digits :: "int \<Rightarrow> char list \<Rightarrow> int" where
  "eval_digits base ds = foldl (\<lambda>v c. v * base + unhex c) 0 ds"

lemma foldl_eval_shift:
  "foldl (\<lambda>v c. v * base + unhex c) a ds = a * base ^ length ds + eval_digits base ds"
  unfolding eval_digits_def
proof (induction ds arbitrary: a)
  case Nil
  then show ?case by simp
next
  case (Cons d ds)
  show ?case
    by (simp add: Cons [of "a * base + unhex d"] Cons [of "unhex d"])
      (simp add: algebra_simps)
qed

lemma eval_digits_Nil [simp]: "eval_digits base [] = 0"
  by (simp add: eval_digits_def)

lemma eval_digits_Cons [simp]:
  "eval_digits base (d # ds) = unhex d * base ^ length ds + eval_digits base ds"
proof -
  have "eval_digits base (d # ds) = foldl (\<lambda>v c. v * base + unhex c) (unhex d) ds"
    by (simp add: eval_digits_def)
  then show ?thesis by (simp only: foldl_eval_shift)
qed

lemma ultoa_loop_spec:
  assumes "2 \<le> base" and "base \<le> 16" and "val < base ^ i"
  shows "\<exists>ds. snd (ultoa_loop i val base acc) = ds @ acc \<and> eval_digits (int base) ds = int val
    \<and> (\<forall>d\<in>set ds. \<exists>k<base. d = hexchar k) \<and> (ds = [] \<longleftrightarrow> val = 0)
    \<and> (ds \<noteq> [] \<longrightarrow> hd ds \<noteq> CHR ''0'') \<and> length ds \<le> i"
  using assms(3)
proof (induction i arbitrary: val acc)
  case 0
  then show ?case by simp
next
  case (Suc i)
  show ?case
  proof (cases "val = 0")
    case True
    then show ?thesis by (intro exI [of _ "[]"]) simp
  next
    case False
    have m: "val mod base < base" using assms(1) by simp
    then have m16: "val mod base < 16" using assms(2) by linarith
    have "val div base < base ^ i"
      using Suc.prems assms(1) by (simp add: less_mult_imp_div_less mult.commute)
    from Suc.IH [OF this, of "hexchar (val mod base) # acc"] obtain ds where
      ds: "snd (ultoa_loop i (val div base) base (hexchar (val mod base) # acc))
             = ds @ hexchar (val mod base) # acc"
        "eval_digits (int base) ds = int (val div base)"
        "\<forall>d\<in>set ds. \<exists>k<base. d = hexchar k" "(ds = []) = (val div base = 0)"
        "ds \<noteq> [] \<longrightarrow> hd ds \<noteq> CHR ''0''" "length ds \<le> i"
      by (elim exE conjE) (rule that)
    let ?ds = "ds @ [hexchar (val mod base)]"
    have ev: "eval_digits (int base) ?ds = int val"
      using m16 ds(2) by (simp add: eval_digits_def)
        (metis div_mult_mod_eq of_nat_add of_nat_mult)
    have hd: "hd ?ds \<noteq> CHR ''0''"
    proof (cases "ds = []")
      case True
      with ds(4) have "val < base" using assms(1) by (simp add: div_eq_0_iff)
      with False m16 show ?thesis using True by (simp add: hexchar_eq_0)
    next
      case False
      with ds(5) show ?thesis by simp
    qed
    have "snd (ultoa_loop (Suc i) val base acc) = ?ds @ acc"
      using False ds(1) m16 by simp
    moreover have "\<forall>d\<in>set ?ds. \<exists>k<base. d = hexchar k" using ds(3) m by auto
    ultimately show ?thesis using ev hd False ds(6) by (intro exI [of _ ?ds]) auto
  qed
qed

lemma ltoa_loop_nat:
  "0 < base \<Longrightarrow> base \<le> 256 \<Longrightarrow> ltoa_loop i (int val) (int base) acc = ultoa_loop i val base acc"
proof (induction i arbitrary: val acc)
  case 0
  then show ?case by simp
next
  case (Suc i)
  have "val mod base < 256" using Suc.prems by (metis mod_less_divisor order_less_le_trans)
  then have "nat (c_mod (int val) (int base) mod 256) = u8 (val mod base)"
    using Suc.prems by (simp add: c_mod_nonneg u8_def zmod_int [symmetric] flip: of_nat_mod)
  moreover have "c_div (int val) (int base) = int (val div base)"
    using Suc.prems by (simp add: c_div_nonneg zdiv_int)
  ultimately show ?case using Suc by simp
qed

text \<open>The digit string of a number: canonical, digits only, with the right value.\<close>

lemma ultoa_digits:
  assumes "2 \<le> base" and "base \<le> 16" and "val < 4294967296"
  shows "\<exists>ds. ultoa val base = ds \<and> eval_digits (int base) ds = int val
    \<and> (\<forall>d\<in>set ds. \<exists>k<base. d = hexchar k) \<and> ds \<noteq> []
    \<and> (ds = ''0'' \<or> hd ds \<noteq> CHR ''0'') \<and> length ds \<le> 38 \<and> snd (ultoa_loop 38 val base []) = (if val = 0 then [] else ds)"
proof -
  have "(2::nat) ^ 38 \<le> base ^ 38" using assms(1) by (rule power_mono) simp
  then have lt: "val < base ^ 38" using assms(3) by simp
  from ultoa_loop_spec [OF assms(1,2) lt, of "[]"] obtain ds where
    ds: "snd (ultoa_loop 38 val base []) = ds" "eval_digits (int base) ds = int val"
      "\<forall>d\<in>set ds. \<exists>k<base. d = hexchar k" "(ds = []) = (val = 0)"
      "ds \<noteq> [] \<longrightarrow> hd ds \<noteq> CHR ''0''" "length ds \<le> 38"
    by auto
  have nn: "NUL \<notin> set ds"
    using ds(3) assms(2) by (metis hexchar_nonNUL order_less_le_trans)
  show ?thesis
  proof (cases "val = 0")
    case True
    have "ultoa val base = ''0''" and z: "hexchar 0 = CHR ''0''"
      using ds(1,4) True
      by (simp_all add: ultoa_def ultoa_w_def ultoa_wp_def pad_to_def hexchar_eq_0)
    moreover have "unhex CHR ''0'' = 0" by (simp add: unhex_def)
    moreover have "\<exists>k<base. CHR ''0'' = hexchar k"
      using assms(1) by (intro exI [of _ 0]) (simp only: z, simp)
    ultimately show ?thesis using True ds(1,4) by simp
  next
    case False
    with ds nn have "ultoa val base = ds"
      by (simp add: ultoa_def ultoa_w_def ultoa_wp_def pad_to_def)
    with ds False show ?thesis by auto
  qed
qed

lemma ltoa_nonneg:
  assumes "0 \<le> val" and "0 < base" and "base \<le> 256"
  shows "ltoa val (int base) = ultoa (nat val) base"
proof -
  have "ltoa_loop 38 (int (nat val)) (int base) [] = ultoa_loop 38 (nat val) base []"
    using assms(2,3) by (rule ltoa_loop_nat)
  then have "ltoa_loop 38 val (int base) [] = ultoa_loop 38 (nat val) base []"
    using assms(1) by simp
  with assms(1) show ?thesis
    by (simp add: ltoa_def ltoa_w_def ltoa_wp_def ultoa_def ultoa_w_def ultoa_wp_def)
qed

lemma ltoa_neg:
  assumes "val < 0" and "- 2147483648 < val" and "2 \<le> base" and "base \<le> 16"
  shows "ltoa val (int base) = CHR ''-'' # ultoa (nat (- val)) base"
proof -
  let ?n = "nat (- val)"
  have n: "?n < 4294967296" "s32 (- val) = int ?n" "?n \<noteq> 0" using assms(1,2) by (auto simp: s32_id)
  have "ltoa_loop 38 (int ?n) (int base) [] = ultoa_loop 38 ?n base []"
    using assms(3,4) by (intro ltoa_loop_nat) auto
  moreover obtain ds where ds: "ultoa ?n base = ds" "\<forall>d\<in>set ds. \<exists>k<base. d = hexchar k"
      "ds \<noteq> []" "snd (ultoa_loop 38 ?n base []) = ds"
    using ultoa_digits [OF assms(3,4) n(1)] n(3) by auto
  moreover have "NUL \<notin> set ds"
    using ds(2) assms(4) by (metis hexchar_nonNUL order_less_le_trans)
  ultimately show ?thesis
    using assms(1) n by (simp add: ltoa_def ltoa_w_def ltoa_wp_def pad_to_def)
qed

lemma digit_val_hexchar: "k < 10 \<Longrightarrow> digit_val (hexchar k) = int k"
  by (simp add: digit_val_def of_char_hexchar)

lemma digits_val_eval:
  "\<forall>d\<in>set ds. \<exists>k<10. d = hexchar k \<Longrightarrow> digits_val ds = eval_digits 10 ds"
  unfolding digits_val_def eval_digits_def
proof (induction ds rule: rev_induct)
  case Nil
  then show ?case by simp
next
  case (snoc d ds)
  then obtain k where "k < (10::nat)" "d = hexchar k" by auto
  with snoc show ?case by (simp add: digit_val_hexchar)
qed

lemma c_strtol10_digits:
  assumes "\<forall>d\<in>set ds. \<exists>k<10. d = hexchar k" and "ds \<noteq> []" and "rest = [] \<or> \<not> c_isdigit (hd rest)"
  shows "c_strtol10 (ds @ rest) = (clamp_long (eval_digits 10 ds), length ds)"
proof -
  obtain k where k: "k < 10" "hd ds = hexchar k" using assms(1,2) by (metis list.set_sel(1))
  have dig: "\<forall>d\<in>set ds. c_isdigit d"
    using assms(1) by (auto dest!: bspec simp: hexchar_isdigit)
  have oc: "(of_char (hexchar k) :: nat) = 48 + k" using k(1) by (simp add: of_char_hexchar)
  have h: "\<not> c_isspace (hd ds)" "hd ds \<noteq> CHR ''-''" "hd ds \<noteq> CHR ''+''"
    unfolding k(2) using oc by (auto simp: c_isspace_def)
  have tw: "takeWhile c_isdigit (ds @ rest) = ds"
    using dig assms(3) by (cases rest) (auto simp: takeWhile_append2 takeWhile_eq_all_conv)
  have "takeWhile c_isspace (ds @ rest) = []" "dropWhile c_isspace (ds @ rest) = ds @ rest"
    using h(1) assms(2) by (cases ds; simp)+
  then show ?thesis
    using h(2,3) assms(2) tw digits_val_eval [OF assms(1)]
    by (simp add: c_strtol10_def Let_def)
qed

lemma c_strtol10_neg_digits:
  assumes "\<forall>d\<in>set ds. \<exists>k<10. d = hexchar k" and "ds \<noteq> []" and "rest = [] \<or> \<not> c_isdigit (hd rest)"
  shows "c_strtol10 (CHR ''-'' # ds @ rest) = (clamp_long (- eval_digits 10 ds), Suc (length ds))"
proof -
  have dig: "\<forall>d\<in>set ds. c_isdigit d"
    using assms(1) by (auto dest!: bspec simp: hexchar_isdigit)
  have tw: "takeWhile c_isdigit (ds @ rest) = ds"
    using dig assms(3) by (cases rest) (auto simp: takeWhile_append2 takeWhile_eq_all_conv)
  have "\<not> c_isspace CHR ''-''" by (simp add: c_isspace_def)
  then show ?thesis
    using assms(2) tw digits_val_eval [OF assms(1)] by (simp add: c_strtol10_def Let_def)
qed

end
