(* ===== verification/WString.thy ===== *)
theory WString
  imports StringConversion
begin

text \<open>
  The \<open>String\<close> class of \<open>Wiring/WString.cpp\<close> and \<open>Wiring/WString.h\<close>.

  An object is the block \<open>buffer\<close> points to (\<open>None\<close> for a null pointer) and the two
  16-bit fields \<open>capacity\<close> and \<open>len\<close>. An operation takes the object and returns the new
  one; its result is \<open>None\<close> when the source would access memory outside the block.
  A \<open>const char*\<close> argument is \<open>None\<close> for a null pointer and otherwise the characters
  before the terminator it points at; a counted argument is the block it points at.
  Arguments do not alias the object, and \<open>memcpy\<close> on overlapping regions behaves as
  \<open>memmove\<close> does.
\<close>

section \<open>Representation\<close>

record wstring =
  str_buffer :: "char list option"
  str_capacity :: nat
  str_len :: nat

definition String_null :: wstring where
  "String_null = \<lparr>str_buffer = None, str_capacity = 0, str_len = 0\<rparr>"

section \<open>Memory management\<close>

definition String_invalidate :: "wstring \<Rightarrow> wstring" where
  "String_invalidate s = s\<lparr>str_buffer := None, str_capacity := 0, str_len := 0\<rparr>"

definition String_changeBuffer :: "alloc_env \<Rightarrow> wstring \<Rightarrow> nat \<Rightarrow> wstring \<times> bool" where
  "String_changeBuffer e s maxStrLen =
     (case c_realloc e (str_buffer s) (u32 (maxStrLen + 1)) of
        None \<Rightarrow> (s, False)
      | Some nb \<Rightarrow> (s\<lparr>str_buffer := Some nb, str_capacity := u16 maxStrLen\<rparr>, True))"

definition String_reserve :: "alloc_env \<Rightarrow> wstring \<Rightarrow> nat \<Rightarrow> (wstring \<times> bool) option" where
  "String_reserve e s sz =
     (if str_buffer s \<noteq> None \<and> sz \<le> str_capacity s then Some (s, True)
      else (case String_changeBuffer e s sz of
              (s1, True) \<Rightarrow>
                (if str_len s1 = 0
                 then do { b \<leftarrow> wr (block_of (str_buffer s1)) 0 NUL;
                           Some (s1\<lparr>str_buffer := Some b\<rparr>, True) }
                 else Some (s1, True))
            | (s1, False) \<Rightarrow> Some (s1, False)))"

definition String_setLength :: "alloc_env \<Rightarrow> wstring \<Rightarrow> nat \<Rightarrow> (wstring \<times> bool) option" where
  "String_setLength e s sz = do {
     (s1, ok) \<leftarrow> String_reserve e s sz;
     if \<not> ok then Some (s1, False)
     else (let s2 = s1\<lparr>str_len := u16 sz\<rparr> in
       case str_buffer s2 of
         None \<Rightarrow> Some (s2, True)
       | Some b \<Rightarrow> do { b1 \<leftarrow> wr b (str_len s2) NUL; Some (s2\<lparr>str_buffer := Some b1\<rparr>, True) }) }"

section \<open>Copy and move\<close>

definition String_copy :: "alloc_env \<Rightarrow> wstring \<Rightarrow> char list \<Rightarrow> nat \<Rightarrow> wstring option" where
  "String_copy e s src n = do {
     (s1, ok) \<leftarrow> String_reserve e s n;
     if \<not> ok then Some (String_invalidate s1)
     else do {
       xs \<leftarrow> rdn src 0 n;
       b \<leftarrow> wrn (block_of (str_buffer s1)) 0 xs;
       b1 \<leftarrow> wr b n NUL;
       Some (s1\<lparr>str_buffer := Some b1, str_len := u16 n\<rparr>) } }"

text \<open>\<open>ALIGNUP\<close> of \<open>FakePgmSpace.h\<close>: the next multiple of four, in 32 bits.\<close>

definition ALIGNUP :: "nat \<Rightarrow> nat" where
  "ALIGNUP n = u32 (n + 3) div 4 * 4"

definition String_copy_P :: "alloc_env \<Rightarrow> wstring \<Rightarrow> char list \<Rightarrow> nat \<Rightarrow> wstring option" where
  "String_copy_P e s pstr n = do {
     (s1, ok) \<leftarrow> String_reserve e s (ALIGNUP n);
     if \<not> ok then Some (String_invalidate s1)
     else do {
       xs \<leftarrow> rdn pstr 0 (ALIGNUP n);
       b \<leftarrow> wrn (block_of (str_buffer s1)) 0 xs;
       b1 \<leftarrow> wr b n NUL;
       Some (s1\<lparr>str_buffer := Some b1, str_len := u16 n\<rparr>) } }"

definition String_move :: "wstring \<Rightarrow> wstring \<Rightarrow> wstring \<times> wstring" where
  "String_move s rhs = (rhs, String_null)"

definition String_assign :: "alloc_env \<Rightarrow> wstring \<Rightarrow> wstring \<Rightarrow> wstring option" where
  "String_assign e s rhs = (case str_buffer rhs of
     Some rb \<Rightarrow> String_copy e s rb (str_len rhs)
   | None \<Rightarrow> Some (String_invalidate s))"

definition String_assign_cstr :: "alloc_env \<Rightarrow> wstring \<Rightarrow> char list option \<Rightarrow> wstring option" where
  "String_assign_cstr e s p = (case p of
     Some cs \<Rightarrow> String_copy e s (cs @ [NUL]) (length (cstr cs))
   | None \<Rightarrow> Some (String_invalidate s))"

definition String_setString :: "alloc_env \<Rightarrow> wstring \<Rightarrow> char list option \<Rightarrow> int \<Rightarrow> wstring option" where
  "String_setString e s p length1 = (case p of
     None \<Rightarrow> Some s
   | Some cs \<Rightarrow> String_copy e s (cs @ [NUL])
       (if length1 < 0 then length (cstr cs) else nat length1))"

section \<open>Constructors\<close>

definition String_of_cstr :: "alloc_env \<Rightarrow> char list option \<Rightarrow> wstring option" where
  "String_of_cstr e p = (case p of
     None \<Rightarrow> Some String_null
   | Some cs \<Rightarrow> String_copy e String_null (cs @ [NUL]) (length (cstr cs)))"

definition String_of_mem :: "alloc_env \<Rightarrow> char list option \<Rightarrow> nat \<Rightarrow> wstring option" where
  "String_of_mem e p n = (case p of
     None \<Rightarrow> Some String_null
   | Some src \<Rightarrow> String_copy e String_null src n)"

definition String_of_String :: "alloc_env \<Rightarrow> wstring \<Rightarrow> wstring option" where
  "String_of_String e value = String_assign e String_null value"

definition String_of_char :: "alloc_env \<Rightarrow> char \<Rightarrow> wstring option" where
  "String_of_char e c = do {
     (s, ok) \<leftarrow> String_setLength e String_null 1;
     if ok then do { b \<leftarrow> wr (block_of (str_buffer s)) 0 c; Some (s\<lparr>str_buffer := Some b\<rparr>) }
     else Some s }"

definition String_of_int :: "alloc_env \<Rightarrow> int \<Rightarrow> nat \<Rightarrow> wstring option" where
  "String_of_int e value base = String_assign_cstr e String_null (Some (ltoa value (int base)))"

definition String_of_uint :: "alloc_env \<Rightarrow> nat \<Rightarrow> nat \<Rightarrow> wstring option" where
  "String_of_uint e value base = String_assign_cstr e String_null (Some (ultoa value base))"

section \<open>Concatenation\<close>

definition String_concat_mem ::
  "alloc_env \<Rightarrow> wstring \<Rightarrow> char list option \<Rightarrow> nat \<Rightarrow> (wstring \<times> bool) option" where
  "String_concat_mem e s p n =
     (let newlen = u32 (str_len s + n) in
      if n = 0 then Some (s, True)
      else case p of
        None \<Rightarrow> Some (s, False)
      | Some src \<Rightarrow> do {
          (s1, ok) \<leftarrow> String_reserve e s newlen;
          if \<not> ok then Some (s1, False)
          else do {
            xs \<leftarrow> rdn src 0 n;
            b \<leftarrow> wrn (block_of (str_buffer s1)) (str_len s1) xs;
            b1 \<leftarrow> wr b newlen NUL;
            Some (s1\<lparr>str_buffer := Some b1, str_len := u16 newlen\<rparr>, True) } })"

definition String_concat :: "alloc_env \<Rightarrow> wstring \<Rightarrow> wstring \<Rightarrow> (wstring \<times> bool) option" where
  "String_concat e s t = String_concat_mem e s (str_buffer t) (str_len t)"

definition String_concat_cstr ::
  "alloc_env \<Rightarrow> wstring \<Rightarrow> char list option \<Rightarrow> (wstring \<times> bool) option" where
  "String_concat_cstr e s p = (case p of
     None \<Rightarrow> Some (s, True)
   | Some cs \<Rightarrow> String_concat_mem e s (Some (cs @ [NUL])) (length (cstr cs)))"

definition String_concat_char :: "alloc_env \<Rightarrow> wstring \<Rightarrow> char \<Rightarrow> (wstring \<times> bool) option" where
  "String_concat_char e s c = String_concat_mem e s (Some [c, NUL]) 1"

definition String_concat_int :: "alloc_env \<Rightarrow> wstring \<Rightarrow> int \<Rightarrow> (wstring \<times> bool) option" where
  "String_concat_int e s num =
     (let buf = ltoa num 10 in String_concat_mem e s (Some (buf @ [NUL])) (length buf))"

definition String_concat_uint :: "alloc_env \<Rightarrow> wstring \<Rightarrow> nat \<Rightarrow> (wstring \<times> bool) option" where
  "String_concat_uint e s num =
     (let buf = ultoa num 10 in String_concat_mem e s (Some (buf @ [NUL])) (length buf))"

text \<open>\<open>operator +\<close>: a failed concatenation invalidates the sum.\<close>

definition String_plus :: "alloc_env \<Rightarrow> wstring \<Rightarrow> wstring \<Rightarrow> wstring option" where
  "String_plus e lhs rhs = do {
     (a, ok) \<leftarrow> String_concat_mem e lhs (str_buffer rhs) (str_len rhs);
     Some (if ok then a else String_invalidate a) }"

definition String_plus_cstr :: "alloc_env \<Rightarrow> wstring \<Rightarrow> char list option \<Rightarrow> wstring option" where
  "String_plus_cstr e lhs p = (case p of
     None \<Rightarrow> Some (String_invalidate lhs)
   | Some cs \<Rightarrow> do {
       (a, ok) \<leftarrow> String_concat_mem e lhs (Some (cs @ [NUL])) (length (cstr cs));
       Some (if ok then a else String_invalidate a) })"

definition String_plus_char :: "alloc_env \<Rightarrow> wstring \<Rightarrow> char \<Rightarrow> wstring option" where
  "String_plus_char e lhs c = do {
     (a, ok) \<leftarrow> String_concat_char e lhs c;
     Some (if ok then a else String_invalidate a) }"

definition String_plus_int :: "alloc_env \<Rightarrow> wstring \<Rightarrow> int \<Rightarrow> wstring option" where
  "String_plus_int e lhs num = do {
     (a, ok) \<leftarrow> String_concat_int e lhs num;
     Some (if ok then a else String_invalidate a) }"

section \<open>Comparison\<close>

text \<open>The C string a non-null object's buffer points at.\<close>

definition c_string :: "char list \<Rightarrow> char list option" where
  "c_string b = map_option (\<lambda>n. take n b) (c_strlen b 0)"

definition String_compareTo :: "wstring \<Rightarrow> wstring \<Rightarrow> int option" where
  "String_compareTo s t = (case (str_buffer s, str_buffer t) of
     (Some b, Some c) \<Rightarrow> do { x \<leftarrow> c_string b; y \<leftarrow> c_string c; Some (c_strcmp x y) }
   | (sb, tb) \<Rightarrow>
      (if tb \<noteq> None \<and> 0 < str_len t
       then map_option (\<lambda>c. - int (of_char c)) (rd (block_of tb) 0)
       else if sb \<noteq> None \<and> 0 < str_len s
       then map_option (\<lambda>c. int (of_char c)) (rd (block_of sb) 0)
       else Some 0))"

definition String_equals :: "wstring \<Rightarrow> wstring \<Rightarrow> bool option" where
  "String_equals s t = (if str_len s \<noteq> str_len t then Some False
     else do { x \<leftarrow> rdn (block_of (str_buffer s)) 0 (str_len s);
               y \<leftarrow> rdn (block_of (str_buffer t)) 0 (str_len s);
               Some (x = y) })"

definition String_equals_cstr :: "wstring \<Rightarrow> char list option \<Rightarrow> bool option" where
  "String_equals_cstr s p =
     (if str_len s = 0 then Some (p = None \<or> cstr (the p) = [])
      else case p of
        None \<Rightarrow> map_option (\<lambda>c. c = NUL) (rd (block_of (str_buffer s)) 0)
      | Some cs \<Rightarrow>
         (if str_len s \<noteq> length (cstr cs) then Some False
          else do { x \<leftarrow> rdn (block_of (str_buffer s)) 0 (str_len s); Some (x = cstr cs) }))"

definition String_lt :: "wstring \<Rightarrow> wstring \<Rightarrow> bool option" where
  "String_lt s t = map_option (\<lambda>r. r < 0) (String_compareTo s t)"

definition String_gt :: "wstring \<Rightarrow> wstring \<Rightarrow> bool option" where
  "String_gt s t = map_option (\<lambda>r. r > 0) (String_compareTo s t)"

definition String_le :: "wstring \<Rightarrow> wstring \<Rightarrow> bool option" where
  "String_le s t = map_option (\<lambda>r. r \<le> 0) (String_compareTo s t)"

definition String_ge :: "wstring \<Rightarrow> wstring \<Rightarrow> bool option" where
  "String_ge s t = map_option (\<lambda>r. r \<ge> 0) (String_compareTo s t)"

text \<open>Two distinct objects have distinct buffers unless both are null.\<close>

definition String_equalsIgnoreCase_cstr :: "wstring \<Rightarrow> char list option \<Rightarrow> bool option" where
  "String_equalsIgnoreCase_cstr s p = (case (str_buffer s, p) of
     (None, None) \<Rightarrow> Some True
   | (Some b, Some cs) \<Rightarrow> do { x \<leftarrow> c_string b; Some (c_strcasecmp (cstr cs) x = 0) }
   | _ \<Rightarrow> None)"

definition String_equalsIgnoreCase :: "wstring \<Rightarrow> wstring \<Rightarrow> bool option" where
  "String_equalsIgnoreCase s t =
     (if str_len s \<noteq> str_len t then Some False
      else if str_len s = 0 then Some True
      else String_equalsIgnoreCase_cstr s (str_buffer t))"

definition String_startsWith_at :: "wstring \<Rightarrow> wstring \<Rightarrow> nat \<Rightarrow> bool option" where
  "String_startsWith_at s prefix offset =
     (if str_len s < u32 (offset + str_len prefix) \<or> str_buffer s = None \<or> str_buffer prefix = None
      then Some False
      else do { x \<leftarrow> rdn (block_of (str_buffer s)) offset (str_len prefix);
                y \<leftarrow> rdn (block_of (str_buffer prefix)) 0 (str_len prefix);
                Some (x = y) })"

definition String_startsWith :: "wstring \<Rightarrow> wstring \<Rightarrow> bool option" where
  "String_startsWith s prefix =
     (if str_len s < str_len prefix then Some False else String_startsWith_at s prefix 0)"

definition String_endsWith :: "wstring \<Rightarrow> wstring \<Rightarrow> bool option" where
  "String_endsWith s suffix =
     (if str_len s < str_len suffix \<or> str_buffer s = None \<or> str_buffer suffix = None then Some False
      else do { x \<leftarrow> rdn (block_of (str_buffer s)) (str_len s - str_len suffix) (str_len suffix);
                y \<leftarrow> rdn (block_of (str_buffer suffix)) 0 (str_len suffix);
                Some (x = y) })"

section \<open>Character access\<close>

definition String_charAt :: "wstring \<Rightarrow> nat \<Rightarrow> char option" where
  "String_charAt s index =
     (if str_len s \<le> index \<or> str_buffer s = None then Some NUL
      else rd (block_of (str_buffer s)) index)"

definition String_setCharAt :: "wstring \<Rightarrow> nat \<Rightarrow> char \<Rightarrow> wstring option" where
  "String_setCharAt s index c =
     (if index < str_len s
      then do { b \<leftarrow> wr (block_of (str_buffer s)) index c; Some (s\<lparr>str_buffer := Some b\<rparr>) }
      else Some s)"

definition String_getBytes ::
  "wstring \<Rightarrow> char list option \<Rightarrow> nat \<Rightarrow> nat \<Rightarrow> (char list option \<times> nat) option" where
  "String_getBytes s buf bufsize index =
     (if bufsize = 0 \<or> buf = None then Some (buf, 0)
      else if str_len s \<le> index
      then do { b \<leftarrow> wr (the buf) 0 NUL; Some (Some b, 0) }
      else (let n = min (bufsize - 1) (str_len s - index) in do {
        xs \<leftarrow> rdn (block_of (str_buffer s)) index n;
        b \<leftarrow> wrn (the buf) 0 xs;
        b1 \<leftarrow> wr b n NUL;
        Some (Some b1, n) }))"

section \<open>Search\<close>

definition String_indexOf_char :: "wstring \<Rightarrow> char \<Rightarrow> nat \<Rightarrow> int option" where
  "String_indexOf_char s ch fromIndex =
     (if str_len s \<le> fromIndex then Some (-1)
      else do { xs \<leftarrow> rdn (block_of (str_buffer s)) fromIndex (str_len s - fromIndex);
                Some (case c_memchr xs ch of None \<Rightarrow> -1 | Some k \<Rightarrow> int (fromIndex + k)) })"

definition String_indexOf :: "wstring \<Rightarrow> wstring \<Rightarrow> nat \<Rightarrow> int option" where
  "String_indexOf s s2 fromIndex =
     (if str_len s \<le> fromIndex then Some (-1)
      else do { xs \<leftarrow> rdn (block_of (str_buffer s)) fromIndex (str_len s - fromIndex);
                nd \<leftarrow> rdn (block_of (str_buffer s2)) 0 (str_len s2);
                Some (case c_memmem xs nd of None \<Rightarrow> -1 | Some k \<Rightarrow> int (fromIndex + k)) })"

text \<open>
  The character after \<open>fromIndex\<close> is replaced by NUL for the search and put back: the
  object is unchanged, so only the result is returned.
\<close>

definition String_lastIndexOf_char_at :: "wstring \<Rightarrow> char \<Rightarrow> nat \<Rightarrow> int option" where
  "String_lastIndexOf_char_at s ch fromIndex =
     (if str_len s \<le> fromIndex then Some (-1)
      else do { b \<leftarrow> wr (block_of (str_buffer s)) (fromIndex + 1) NUL;
                Some (case c_strrchr b ch of None \<Rightarrow> -1 | Some k \<Rightarrow> int k) })"

definition String_lastIndexOf_char :: "wstring \<Rightarrow> char \<Rightarrow> int option" where
  "String_lastIndexOf_char s ch = String_lastIndexOf_char_at s ch (to_u32 (int (str_len s) - 1))"

function lastIndexOf_loop :: "char list \<Rightarrow> char list \<Rightarrow> nat \<Rightarrow> nat \<Rightarrow> int \<Rightarrow> int" where
  "lastIndexOf_loop hay nd fromIndex p found =
     (if p \<le> fromIndex
      then (case c_memmem (drop p hay) nd of
              None \<Rightarrow> found
            | Some k \<Rightarrow> lastIndexOf_loop hay nd fromIndex (Suc (p + k))
                          (if p + k \<le> fromIndex then int (p + k) else found))
      else found)"
  by pat_completeness auto
termination
  by (relation "measure (\<lambda>(hay, nd, f, p, r). Suc f - p)") auto

declare lastIndexOf_loop.simps [simp del]

definition String_lastIndexOf_at :: "wstring \<Rightarrow> wstring \<Rightarrow> nat \<Rightarrow> int option" where
  "String_lastIndexOf_at s s2 fromIndex =
     (if str_len s2 = 0 \<or> str_len s = 0 \<or> str_len s < str_len s2 then Some (-1)
      else do {
        hay \<leftarrow> rdn (block_of (str_buffer s)) 0 (str_len s);
        nd \<leftarrow> rdn (block_of (str_buffer s2)) 0 (str_len s2);
        Some (lastIndexOf_loop hay nd
          (if str_len s \<le> fromIndex then str_len s - 1 else fromIndex) 0 (-1)) })"

definition String_lastIndexOf :: "wstring \<Rightarrow> wstring \<Rightarrow> int option" where
  "String_lastIndexOf s s2 = String_lastIndexOf_at s s2 (to_u32 (int (str_len s) - int (str_len s2)))"

text \<open>
  \<open>substring\<close> writes a NUL at \<open>right\<close>, assigns the C string at \<open>left\<close> to the result and
  restores the character.
\<close>

definition String_substring :: "alloc_env \<Rightarrow> wstring \<Rightarrow> nat \<Rightarrow> nat \<Rightarrow> wstring option" where
  "String_substring e s left0 right0 = (case str_buffer s of
     None \<Rightarrow> Some String_null
   | Some b \<Rightarrow>
      (let left = min left0 right0; right = max left0 right0 in
       if str_len s < left then Some String_null
       else (let right1 = (if str_len s < right then str_len s else right) in do {
         b1 \<leftarrow> wr b right1 NUL;
         n \<leftarrow> c_strlen b1 left;
         String_copy e String_null (drop left b1) n })))"

definition String_substring_from :: "alloc_env \<Rightarrow> wstring \<Rightarrow> nat \<Rightarrow> wstring option" where
  "String_substring_from e s beginIndex = String_substring e s beginIndex (str_len s)"

section \<open>Modification\<close>

text \<open>A loop \<open>for (p = buffer; *p; p++)\<close> that rewrites every character before the first NUL.\<close>

fun map_to_NUL :: "(char \<Rightarrow> char) \<Rightarrow> char list \<Rightarrow> char list option" where
  "map_to_NUL f [] = None"
| "map_to_NUL f (c # cs) =
     (if c = NUL then Some (c # cs) else map_option (\<lambda>r. f c # r) (map_to_NUL f cs))"

definition String_map_buffer :: "(char \<Rightarrow> char) \<Rightarrow> wstring \<Rightarrow> wstring option" where
  "String_map_buffer f s = (case str_buffer s of
     None \<Rightarrow> Some s
   | Some b \<Rightarrow> map_option (\<lambda>r. s\<lparr>str_buffer := Some r\<rparr>) (map_to_NUL f b))"

definition String_replace_char :: "wstring \<Rightarrow> char \<Rightarrow> char \<Rightarrow> wstring option" where
  "String_replace_char s fnd repl = String_map_buffer (\<lambda>c. if c = fnd then repl else c) s"

definition String_toLowerCase :: "wstring \<Rightarrow> wstring option" where
  "String_toLowerCase s = String_map_buffer c_tolower s"

definition String_toUpperCase :: "wstring \<Rightarrow> wstring option" where
  "String_toUpperCase s = String_map_buffer c_toupper s"

text \<open>
  \<open>replace(find, replace)\<close>: three loops over the buffer, one per sign of the length
  difference. \<open>e\<close> is the offset of the end of the original text. A loop that leaves the
  block, or never ends, has the value \<open>None\<close>.
\<close>

partial_function (option) replace_same ::
  "char list \<Rightarrow> nat \<Rightarrow> nat \<Rightarrow> char list \<Rightarrow> char list \<Rightarrow> char list option" where
  "replace_same b readFrom e fnd repl =
     (case c_memmem (take (e - readFrom) (drop readFrom b)) fnd of
        None \<Rightarrow> Some b
      | Some k \<Rightarrow> do {
          b1 \<leftarrow> wrn b (readFrom + k) repl;
          replace_same b1 (readFrom + k + length repl) e fnd repl })"

partial_function (option) replace_shrink ::
  "char list \<Rightarrow> nat \<Rightarrow> nat \<Rightarrow> nat \<Rightarrow> nat \<Rightarrow> char list \<Rightarrow> char list \<Rightarrow> (char list \<times> nat) option" where
  "replace_shrink b readFrom writeTo e l fnd repl =
     (case c_memmem (take (e - readFrom) (drop readFrom b)) fnd of
        None \<Rightarrow> do {
          xs \<leftarrow> rdn b readFrom (e - readFrom);
          b1 \<leftarrow> wrn b writeTo xs;
          b2 \<leftarrow> wr b1 l NUL;
          Some (b2, l) }
      | Some n \<Rightarrow> do {
          xs \<leftarrow> rdn b readFrom n;
          b1 \<leftarrow> wrn b writeTo xs;
          b2 \<leftarrow> wrn b1 (writeTo + n) repl;
          replace_shrink b2 (readFrom + n + length fnd) (writeTo + n + length repl) e
            (u16 (l + 65536 - (length fnd - length repl))) fnd repl })"

partial_function (option) replace_size ::
  "char list \<Rightarrow> nat \<Rightarrow> nat \<Rightarrow> nat \<Rightarrow> char list \<Rightarrow> nat \<Rightarrow> nat option" where
  "replace_size b readFrom e sz fnd diff =
     (case c_memmem (take (e - readFrom) (drop readFrom b)) fnd of
        None \<Rightarrow> Some sz
      | Some k \<Rightarrow> replace_size b (readFrom + k + length fnd) e (u32 (sz + diff)) fnd diff)"

partial_function (option) replace_grow ::
  "wstring \<Rightarrow> int \<Rightarrow> wstring \<Rightarrow> wstring \<Rightarrow> wstring option" where
  "replace_grow s index fnd repl = do {
     i \<leftarrow> String_lastIndexOf_at s fnd (to_u32 index);
     if i < 0 then Some s
     else do {
       let readFrom = nat i + str_len fnd;
       let diff = str_len repl - str_len fnd;
       xs \<leftarrow> rdn (block_of (str_buffer s)) readFrom (str_len s - readFrom);
       b1 \<leftarrow> wrn (block_of (str_buffer s)) (readFrom + diff) xs;
       ys \<leftarrow> rdn (block_of (str_buffer repl)) 0 (str_len repl);
       b2 \<leftarrow> wrn b1 (nat i) ys;
       replace_grow (s\<lparr>str_buffer := Some b2, str_len := u16 (str_len s + diff)\<rparr>) (i - 1) fnd repl } }"

definition String_replace :: "alloc_env \<Rightarrow> wstring \<Rightarrow> wstring \<Rightarrow> wstring \<Rightarrow> wstring option" where
  "String_replace e s fnd repl =
     (if str_len s = 0 \<or> str_len fnd = 0 then Some s
      else do {
        let b = block_of (str_buffer s);
        nd \<leftarrow> rdn (block_of (str_buffer fnd)) 0 (str_len fnd);
        rp \<leftarrow> rdn (block_of (str_buffer repl)) 0 (str_len repl);
        if str_len repl = str_len fnd
        then do { b1 \<leftarrow> replace_same b 0 (str_len s) nd rp; Some (s\<lparr>str_buffer := Some b1\<rparr>) }
        else if str_len repl < str_len fnd
        then do { (b1, l) \<leftarrow> replace_shrink b 0 0 (str_len s) (str_len s) nd rp;
                  Some (s\<lparr>str_buffer := Some b1, str_len := l\<rparr>) }
        else do {
          sz \<leftarrow> replace_size b 0 (str_len s) (str_len s) nd (str_len repl - str_len fnd);
          if sz = str_len s then Some s
          else (case (if str_capacity s < sz then String_changeBuffer e s sz else (s, True)) of
                  (s1, False) \<Rightarrow> Some s1
                | (s1, True) \<Rightarrow> do {
                    s2 \<leftarrow> replace_grow s1 (int (str_len s1) - 1) fnd repl;
                    b2 \<leftarrow> wr (block_of (str_buffer s2)) (str_len s2) NUL;
                    Some (s2\<lparr>str_buffer := Some b2\<rparr>) }) } })"

definition String_remove :: "wstring \<Rightarrow> nat \<Rightarrow> nat \<Rightarrow> wstring option" where
  "String_remove s index count0 =
     (if str_len s \<le> index then Some s
      else if count0 = 0 then Some s
      else (let count = (if str_len s < u32 (index + count0) then str_len s - index else count0);
                l = nat ((int (str_len s) - int count) mod 65536) in do {
        xs \<leftarrow> rdn (block_of (str_buffer s)) (index + count) (to_u32 (int l - int index));
        b \<leftarrow> wrn (block_of (str_buffer s)) index xs;
        b1 \<leftarrow> wr b l NUL;
        Some (s\<lparr>str_buffer := Some b1, str_len := l\<rparr>) }))"

definition String_remove_from :: "wstring \<Rightarrow> nat \<Rightarrow> wstring option" where
  "String_remove_from s index =
     (if index < str_len s then String_remove s index (str_len s - index) else Some s)"

text \<open>The two scans of \<open>trim\<close>; offsets stand for the pointers \<open>begin\<close> and \<open>end\<close>.\<close>

function trim_begin :: "char list \<Rightarrow> nat \<Rightarrow> nat option" where
  "trim_begin b i = do { c \<leftarrow> rd b i; if c_isspace c then trim_begin b (Suc i) else Some i }"
  by pat_completeness auto
termination
  by (relation "measure (\<lambda>(b, i). length b - i)") (auto simp: rd_def split: if_splits)

declare trim_begin.simps [simp del]

fun trim_end :: "char list \<Rightarrow> nat \<Rightarrow> nat \<Rightarrow> nat option" where
  \<comment> \<open>the second argument is \<open>end - buffer + 1\<close>, so 0 stands for a pointer before the block\<close>
  "trim_end b 0 begin = None"
| "trim_end b (Suc i) begin = do {
     c \<leftarrow> rd b i;
     if c_isspace c \<and> begin \<le> i then trim_end b i begin else Some (Suc i) }"

definition String_trim :: "wstring \<Rightarrow> wstring option" where
  "String_trim s = (case str_buffer s of
     None \<Rightarrow> Some s
   | Some b \<Rightarrow>
      (if str_len s = 0 then Some s
       else do {
         begin \<leftarrow> trim_begin b 0;
         end1 \<leftarrow> trim_end b (str_len s) begin;
         let l = u16 (to_u32 (int end1 - int begin));
         b1 \<leftarrow> (if 0 < begin then do { xs \<leftarrow> rdn b begin l; wrn b 0 xs } else Some b);
         b2 \<leftarrow> wr b1 l NUL;
         Some (s\<lparr>str_buffer := Some b2, str_len := l\<rparr>) }))"

section \<open>Conversion\<close>

definition String_toInt :: "wstring \<Rightarrow> int option" where
  "String_toInt s = (case str_buffer s of
     None \<Rightarrow> Some 0
   | Some b \<Rightarrow> map_option c_atoi (c_string b))"

end
