(* ===== verification/WStringProps.thy ===== *)
theory WStringProps
  imports WString
begin

text \<open>
  Properties of the \<open>String\<close> class: its representation invariant \<open>String_wf\<close>, its value
  \<open>String_val\<close>, and what each operation does to the value.
\<close>

section \<open>Invariant and value\<close>

definition String_wf :: "wstring \<Rightarrow> bool" where
  "String_wf s = (case str_buffer s of
     None \<Rightarrow> str_len s = 0 \<and> str_capacity s = 0
   | Some b \<Rightarrow> str_len s \<le> str_capacity s \<and> str_capacity s < length b
       \<and> str_capacity s < 65536 \<and> b ! str_len s = NUL)"

definition String_val :: "wstring \<Rightarrow> char list" where
  "String_val s = take (str_len s) (block_of (str_buffer s))"

lemma String_wf_Some [wf_simps]: "str_buffer s = Some b \<Longrightarrow> String_wf s \<longleftrightarrow>
    str_len s \<le> str_capacity s \<and> str_capacity s < length b \<and> str_capacity s < 65536
    \<and> b ! str_len s = NUL"
  by (simp add: String_wf_def)

lemma String_wf_None [wf_simps]: "str_buffer s = None \<Longrightarrow> String_wf s \<longleftrightarrow>
    str_len s = 0 \<and> str_capacity s = 0"
  by (simp add: String_wf_def)

lemma String_wf_null [simp, intro]: "String_wf String_null"
  by (simp add: String_null_def String_wf_def)

lemma String_wf_invalidate [simp, intro]: "String_wf (String_invalidate s)"
  by (simp add: String_invalidate_def String_wf_def)

lemma String_val_null [simp]: "String_val String_null = []"
  by (simp add: String_null_def String_val_def)

lemma String_val_invalidate [simp]: "String_val (String_invalidate s) = []"
  by (simp add: String_invalidate_def String_val_def)

lemma String_wf_len_le: "String_wf s \<Longrightarrow> str_len s \<le> length (block_of (str_buffer s))"
  by (cases "str_buffer s") (auto simp: wf_simps)

lemma String_wf_len_less: "String_wf s \<Longrightarrow> str_len s < 65536"
  by (cases "str_buffer s") (auto simp: wf_simps)

lemma length_String_val [simp]: "String_wf s \<Longrightarrow> length (String_val s) = str_len s"
  using String_wf_len_le by (simp add: String_val_def)

lemma String_wf_NUL: "String_wf s \<Longrightarrow> str_buffer s = Some b \<Longrightarrow>
    str_len s < length b \<and> b ! str_len s = NUL"
  by (auto simp: wf_simps)

lemma String_rdn_all: "String_wf s \<Longrightarrow>
    rdn (block_of (str_buffer s)) 0 (str_len s) = Some (String_val s)"
  using String_wf_len_le by (simp add: rdn_def String_val_def)

section \<open>Memory management\<close>

lemma String_changeBuffer_cases [consumes 3, case_names fail ok]:
  assumes "String_wf s" and "str_len s \<le> sz" and "sz < 65536"
  obtains (fail) "String_changeBuffer e s sz = (s, False)"
  | (ok) nb where
      "String_changeBuffer e s sz = (s\<lparr>str_buffer := Some nb, str_capacity := sz\<rparr>, True)"
      "length nb = Suc sz" "take (str_len s) nb = String_val s"
      "str_buffer s \<noteq> None \<Longrightarrow> nb ! str_len s = NUL"
proof (cases "c_realloc e (str_buffer s) (Suc sz)")
  case None
  then show ?thesis using assms(3) by (intro fail) (simp add: String_changeBuffer_def)
next
  case (Some nb)
  have "length nb = Suc sz" using length_c_realloc [OF Some] .
  moreover have "take (str_len s) nb = String_val s"
    using take_c_realloc [OF Some] assms(2) String_wf_len_le [OF assms(1)]
    by (simp add: String_val_def)
  moreover have "str_buffer s \<noteq> None \<Longrightarrow> nb ! str_len s = NUL"
    using nth_c_realloc [OF Some] assms(2) String_wf_NUL [OF assms(1)] by fastforce
  ultimately show ?thesis using Some assms(3) by (intro ok) (simp_all add: String_changeBuffer_def)
qed

lemma String_reserve_cases [consumes 2, case_names fail ok]:
  assumes "String_wf s" and "sz < 65536"
  obtains (fail) "String_reserve e s sz = Some (s, False)"
  | (ok) s1 where "String_reserve e s sz = Some (s1, True)" "String_wf s1"
      "str_buffer s1 \<noteq> None" "sz \<le> str_capacity s1" "String_val s1 = String_val s"
      "str_len s1 = str_len s"
proof (cases "str_buffer s \<noteq> None \<and> sz \<le> str_capacity s")
  case True
  then show ?thesis using assms(1) by (intro ok [of s]) (auto simp: String_reserve_def)
next
  case False
  then have le: "str_len s \<le> sz"
    using assms(1) by (cases "str_buffer s") (auto simp: wf_simps)
  from assms(1) le assms(2) show ?thesis
  proof (cases rule: String_changeBuffer_cases [where e = e])
    case fail
    then show ?thesis using False by (intro that(1)) (auto simp: String_reserve_def)
  next
    case (ok nb)
    let ?b = "if str_len s = 0 then nb[0 := NUL] else nb"
    let ?s = "s\<lparr>str_buffer := Some ?b, str_capacity := sz\<rparr>"
    have "String_reserve e s sz = Some (?s, True)"
      using False ok(1,2) by (auto simp: String_reserve_def mem_simps)
    moreover have "String_wf ?s"
      using le ok(2,4) assms by (cases "str_buffer s") (auto simp: wf_simps)
    moreover have "String_val ?s = String_val s"
      using ok(3) by (auto simp: String_val_def)
    ultimately show ?thesis by (intro that(2) [of ?s]) auto
  qed
qed

text \<open>Allocation succeeds in environment \<open>e\<close>.\<close>

definition alloc_all :: "alloc_env \<Rightarrow> bool" where
  "alloc_all e = (\<forall>n. alloc_ok e n)"

lemma String_reserve_ok: "alloc_all e \<Longrightarrow> String_reserve e s sz \<noteq> Some (s1, False)"
  by (auto simp: String_reserve_def String_changeBuffer_def c_realloc_def alloc_all_def
      bind_eq_Some_conv split: if_splits option.splits bool.splits)

lemma String_setLength_spec:
  assumes "String_wf s" and "sz < 65536"
  shows "String_setLength e s sz = Some (s, False) \<or>
    (\<exists>s1. String_setLength e s sz = Some (s1, True) \<and> String_wf s1 \<and> str_len s1 = sz
      \<and> str_buffer s1 \<noteq> None \<and> take (min sz (str_len s)) (String_val s1) = take sz (String_val s))"
  using assms
proof (cases rule: String_reserve_cases [where e = e])
  case fail
  then show ?thesis by (simp add: String_setLength_def)
next
  case (ok s1)
  then obtain b where b: "str_buffer s1 = Some b" by auto
  with ok(2,4) have bd: "sz < length b" by (auto simp: wf_simps)
  let ?s = "s1\<lparr>str_len := sz, str_buffer := Some (b[sz := NUL])\<rparr>"
  have "String_setLength e s sz = Some (?s, True)"
    using ok(1) b bd assms(2) by (simp add: String_setLength_def mem_simps)
  moreover have "String_wf ?s" using ok(2,4) b bd by (auto simp: wf_simps)
  moreover have "take (min sz (str_len s)) (String_val ?s) = take sz (String_val s)"
    using arg_cong [OF ok(5), of "take sz"] ok(6) b by (simp add: String_val_def)
  ultimately show ?thesis by auto
qed

section \<open>Copying and concatenation\<close>

lemma String_copy_spec:
  assumes "String_wf s" and "n < 65536" and "n \<le> length src"
  shows "String_copy e s src n = Some (String_invalidate s) \<or>
    (\<exists>s1. String_copy e s src n = Some s1 \<and> String_wf s1 \<and> str_buffer s1 \<noteq> None
       \<and> String_val s1 = take n src)"
  using assms(1,2)
proof (cases rule: String_reserve_cases [where e = e])
  case fail
  then show ?thesis by (simp add: String_copy_def)
next
  case (ok s1)
  then obtain b where b: "str_buffer s1 = Some b" by auto
  with ok(2,4) have bd: "n < length b" by (auto simp: wf_simps)
  let ?b = "(take n src @ drop n b)[n := NUL]"
  let ?s = "s1\<lparr>str_buffer := Some ?b, str_len := n\<rparr>"
  have len: "length (take n src) = n" using assms(3) by simp
  have "String_copy e s src n = Some ?s"
    using ok(1) b bd assms(2,3) len by (simp add: String_copy_def mem_simps)
  moreover have "String_wf ?s"
    using ok(2,4) b bd assms(3) by (auto simp: wf_simps nth_list_update)
  moreover have "String_val ?s = take n src"
    using assms(3) by (simp add: String_val_def)
  ultimately show ?thesis by auto
qed

lemma String_copy_alloc:
  assumes "alloc_all e" and "String_wf s" and "n < 65536" and "n \<le> length src"
  shows "\<exists>s1. String_copy e s src n = Some s1 \<and> String_wf s1 \<and> str_buffer s1 \<noteq> None
    \<and> String_val s1 = take n src"
  using assms(2,3)
proof (cases rule: String_reserve_cases [where e = e])
  case fail
  with assms(1) show ?thesis by (simp add: String_reserve_ok)
next
  case (ok s1)
  then have "String_copy e s src n \<noteq> Some (String_invalidate s)"
    using assms(3) by (auto simp: String_copy_def String_invalidate_def bind_eq_Some_conv
        dest!: arg_cong [where f = str_buffer])
  with String_copy_spec [OF assms(2-4), of e] show ?thesis by blast
qed

lemma String_concat_mem_spec:
  assumes "String_wf s" and "str_len s + n < 65536" and "n \<le> length src"
  shows "String_concat_mem e s (Some src) n = Some (s, False) \<or>
    (\<exists>s1. String_concat_mem e s (Some src) n = Some (s1, True) \<and> String_wf s1
       \<and> String_val s1 = String_val s @ take n src \<and> (str_buffer s = None \<longrightarrow> n = 0 \<or> str_buffer s1 \<noteq> None))"
proof (cases "n = 0")
  case True
  then show ?thesis using assms(1) by (simp add: String_concat_mem_def)
next
  case False
  from assms(1,2) show ?thesis
  proof (cases rule: String_reserve_cases [where e = e])
    case fail
    then show ?thesis using False assms(2) by (simp add: String_concat_mem_def)
  next
    case (ok s1)
    then obtain b where b: "str_buffer s1 = Some b" by auto
    with ok(2,4) have bd: "str_len s + n < length b" by (auto simp: wf_simps)
    let ?l = "str_len s"
    let ?b = "(take ?l b @ take n src @ drop (?l + n) b)[?l + n := NUL]"
    let ?s = "s1\<lparr>str_buffer := Some ?b, str_len := ?l + n\<rparr>"
    have len: "length (take n src) = n" using assms(3) by simp
    have "String_concat_mem e s (Some src) n = Some (?s, True)"
      using ok(1,6) b bd assms(2,3) len False by (simp add: String_concat_mem_def mem_simps Let_def)
    moreover have "String_wf ?s"
      using ok(2,4) b bd assms(3) by (auto simp: wf_simps)
    moreover have "String_val ?s = String_val s @ take n src"
      using ok(5,6) b bd assms(3) String_wf_len_le [OF assms(1)]
      by (simp add: String_val_def flip: ok(5))
    ultimately show ?thesis by auto
  qed
qed

section \<open>Comparison and search\<close>

lemma c_string_wf:
  assumes "String_wf s" and "str_buffer s = Some b"
  shows "c_string b = Some (cstr (String_val s))"
proof -
  from String_wf_NUL [OF assms] have n: "str_len s < length b" "b ! str_len s = NUL" by auto
  then have "cstr b = cstr (String_val s)"
    using cstr_take_nth_NUL assms(2) by (simp add: String_val_def)
  moreover have "length (cstr (String_val s)) < length b"
    using length_cstr_le [of "String_val s"] n assms by simp
  moreover have "take (length (cstr b)) b = cstr b"
    unfolding cstr_def by (rule takeWhile_eq_take [symmetric])
  ultimately show ?thesis by (simp add: c_string_def c_strlen_def Let_def)
qed

lemma String_equals_val:
  "String_wf s \<Longrightarrow> String_wf t \<Longrightarrow> String_equals s t = Some (String_val s = String_val t)"
  using String_rdn_all [of s] String_rdn_all [of t] length_String_val [of s] length_String_val [of t]
  by (cases "str_len s = str_len t") (auto simp: String_equals_def simp del: length_String_val)

lemma String_val_buffer_None: "String_wf s \<Longrightarrow> str_buffer s = None \<Longrightarrow> String_val s = []"
  by (simp add: String_val_def)

lemma String_rd_0: "String_wf s \<Longrightarrow> 0 < str_len s \<Longrightarrow>
    rd (block_of (str_buffer s)) 0 = Some (hd (String_val s))"
  using String_wf_len_le [of s] by (cases "block_of (str_buffer s)") (auto simp: rd_def String_val_def take_Cons')

lemma String_compareTo_val:
  assumes "String_wf s" and "String_wf t" and "NUL \<notin> set (String_val s)" and "NUL \<notin> set (String_val t)"
  shows "String_compareTo s t = Some (c_strcmp (String_val s) (String_val t))"
proof (cases "str_buffer s = None \<or> str_buffer t = None")
  case False
  then obtain b c where bc: "str_buffer s = Some b" "str_buffer t = Some c" by auto
  then show ?thesis
    using c_string_wf [OF assms(1) bc(1)] c_string_wf [OF assms(2) bc(2)] assms(3,4)
    by (simp add: String_compareTo_def)
next
  case True
  have eq: "String_compareTo s t =
      (if str_buffer t \<noteq> None \<and> 0 < str_len t
       then map_option (\<lambda>c. - int (of_char c)) (rd (block_of (str_buffer t)) 0)
       else if str_buffer s \<noteq> None \<and> 0 < str_len s
       then map_option (\<lambda>c. int (of_char c)) (rd (block_of (str_buffer s)) 0)
       else Some 0)"
    using True by (auto simp: String_compareTo_def split: option.splits)
  have len: "length (String_val s) = str_len s" "length (String_val t) = str_len t"
    using assms(1,2) by simp_all
  show ?thesis
  proof (cases "str_len t = 0")
    case False
    then have "str_buffer t \<noteq> None" using assms(2) String_wf_None by force
    with True have "String_val s = []" by (simp add: String_val_def)
    with False \<open>str_buffer t \<noteq> None\<close> show ?thesis
      using eq String_rd_0 [OF assms(2)] len(2) by (cases "String_val t") auto
  next
    case t0: True
    show ?thesis
    proof (cases "str_len s = 0")
      case True
      with t0 eq len show ?thesis by auto
    next
      case False
      then have "str_buffer s \<noteq> None" using assms(1) String_wf_None by force
      with t0 False show ?thesis
        using eq String_rd_0 [OF assms(1)] len by (cases "String_val s") auto
    qed
  qed
qed

lemma String_rdn_from: "String_wf s \<Longrightarrow> i \<le> str_len s \<Longrightarrow>
    rdn (block_of (str_buffer s)) i (str_len s - i) = Some (drop i (String_val s))"
  using String_wf_len_le [of s] by (simp add: rdn_def String_val_def drop_take)

lemma String_indexOf_char_spec:
  assumes "String_wf s"
  shows "(\<exists>k. String_indexOf_char s ch from = Some (int k) \<and> from \<le> k \<and> k < str_len s
      \<and> String_val s ! k = ch \<and> (\<forall>j. from \<le> j \<and> j < k \<longrightarrow> String_val s ! j \<noteq> ch))
    \<or> (String_indexOf_char s ch from = Some (-1) \<and> ch \<notin> set (drop from (String_val s)))"
proof (cases "str_len s \<le> from")
  case True
  then show ?thesis using assms by (simp add: String_indexOf_char_def)
next
  case False
  let ?v = "String_val s"
  let ?xs = "drop from ?v"
  have eq: "String_indexOf_char s ch from =
      Some (case c_memchr ?xs ch of None \<Rightarrow> -1 | Some k \<Rightarrow> int (from + k))"
    using False String_rdn_from [OF assms, of "from"] by (simp add: String_indexOf_char_def)
  show ?thesis
  proof (cases "c_memchr ?xs ch")
    case None
    with eq show ?thesis by (simp add: c_memchr_None [THEN iffD1])
  next
    case (Some k)
    from c_memchr_Some [OF Some] have k: "k < length ?xs" "?xs ! k = ch" "ch \<notin> set (take k ?xs)"
      by auto
    have "\<forall>j. from \<le> j \<and> j < from + k \<longrightarrow> ?v ! j \<noteq> ch"
    proof (intro allI impI notI)
      fix j assume j: "from \<le> j \<and> j < from + k" "?v ! j = ch"
      then have "take k ?xs ! (j - from) = ?v ! (from + (j - from))"
        using k(1) by (subst nth_take) auto
      then have "take k ?xs ! (j - from) = ch" using j by simp
      moreover have "j - from < length (take k ?xs)" using j k(1) by auto
      ultimately show False using k(3) by (metis nth_mem)
    qed
    then show ?thesis using eq Some k(1,2) assms False
      by (intro disjI1 exI [of _ "from + k"]) simp
  qed
qed

text \<open>\<open>occurs_at nd v i\<close>: the text \<open>v\<close> has \<open>nd\<close> at offset \<open>i\<close>.\<close>

definition occurs_at :: "char list \<Rightarrow> char list \<Rightarrow> nat \<Rightarrow> bool" where
  "occurs_at nd v i = (i + length nd \<le> length v \<and> take (length nd) (drop i v) = nd)"

lemma occurs_at_drop: "p \<le> length v \<Longrightarrow> occurs_at nd (drop p v) i \<longleftrightarrow> occurs_at nd v (p + i)"
  by (auto simp: occurs_at_def add.commute)

lemma c_memmem_Some_occurs:
  "c_memmem v nd = Some i \<Longrightarrow> occurs_at nd v i \<and> (\<forall>j<i. \<not> occurs_at nd v j)"
  using c_memmem_Some [of v nd i] by (auto simp: occurs_at_def)

lemma c_memmem_None_occurs: "c_memmem v nd = None \<Longrightarrow> \<not> occurs_at nd v i"
  using c_memmem_None [of v nd] by (auto simp: occurs_at_def)

lemma String_indexOf_spec:
  assumes "String_wf s" and "String_wf t"
  shows "(\<exists>k. String_indexOf s t from = Some (int k) \<and> from \<le> k \<and> from < str_len s
      \<and> occurs_at (String_val t) (String_val s) k
      \<and> (\<forall>j. from \<le> j \<and> j < k \<longrightarrow> \<not> occurs_at (String_val t) (String_val s) j))
    \<or> (String_indexOf s t from = Some (-1)
      \<and> (str_len s \<le> from \<or> (\<forall>j\<ge>from. \<not> occurs_at (String_val t) (String_val s) j)))"
proof (cases "str_len s \<le> from")
  case True
  then show ?thesis by (simp add: String_indexOf_def)
next
  case False
  let ?v = "String_val s" and ?n = "String_val t"
  have eq: "String_indexOf s t from =
      Some (case c_memmem (drop from ?v) ?n of None \<Rightarrow> -1 | Some k \<Rightarrow> int (from + k))"
    using False String_rdn_from [OF assms(1), of "from"] String_rdn_all [OF assms(2)]
    by (simp add: String_indexOf_def)
  have oc: "occurs_at ?n (drop from ?v) i \<longleftrightarrow> occurs_at ?n ?v (from + i)" for i
    using False assms(1) by (simp add: occurs_at_drop)
  show ?thesis
  proof (cases "c_memmem (drop from ?v) ?n")
    case None
    then have "\<not> occurs_at ?n ?v i" if "from \<le> i" for i
      using c_memmem_None_occurs [OF None, of "i - from"] oc [of "i - from"] that by simp
    with eq None show ?thesis by auto
  next
    case (Some k)
    from c_memmem_Some_occurs [OF Some] have k: "occurs_at ?n ?v (from + k)"
        "\<forall>j<k. \<not> occurs_at ?n ?v (from + j)"
      by (auto simp: oc)
    have "\<forall>j. from \<le> j \<and> j < from + k \<longrightarrow> \<not> occurs_at ?n ?v j"
    proof (intro allI impI)
      fix j assume "from \<le> j \<and> j < from + k"
      then have "j - from < k" and "from + (j - from) = j" by auto
      then show "\<not> occurs_at ?n ?v j" using k(2) [rule_format, of "j - from"] by simp
    qed
    with eq Some k(1) False show ?thesis by (intro disjI1 exI [of _ "from + k"]) simp
  qed
qed

lemma lastIndexOf_loop_spec:
  assumes "nd \<noteq> []" and "found < int p"
    and "\<forall>i<p. occurs_at nd hay i \<longrightarrow> i \<le> f \<longrightarrow> int i \<le> found"
    and "found = -1 \<or> (0 \<le> found \<and> nat found \<le> f \<and> occurs_at nd hay (nat found))"
  shows "let r = lastIndexOf_loop hay nd f p found in
    (\<forall>i\<le>f. occurs_at nd hay i \<longrightarrow> int i \<le> r)
    \<and> (r = -1 \<or> (0 \<le> r \<and> nat r \<le> f \<and> occurs_at nd hay (nat r)))"
  using assms
proof (induction hay nd f p found rule: lastIndexOf_loop.induct)
  case (1 hay nd f p found)
  show ?case
  proof (cases "p \<le> f")
    case False
    then show ?thesis using 1(4,5)
      by (auto simp: lastIndexOf_loop.simps [of hay nd f p found] Let_def)
  next
    case True
    show ?thesis
    proof (cases "c_memmem (drop p hay) nd")
      case None
      have "\<not> occurs_at nd hay i" if "p \<le> i" for i
      proof
        assume oc: "occurs_at nd hay i"
        then have "p \<le> length hay" using that 1(2) by (auto simp: occurs_at_def)
        with oc that have "occurs_at nd (drop p hay) (i - p)" by (simp add: occurs_at_drop)
        with c_memmem_None_occurs [OF None] show False by blast
      qed
      then have "\<forall>i\<le>f. occurs_at nd hay i \<longrightarrow> int i \<le> found"
        using 1(4) by (metis linorder_not_less)
      then show ?thesis using 1(5) None True
        by (simp add: lastIndexOf_loop.simps [of hay nd f p found] Let_def)
    next
      case (Some k)
      have k': "occurs_at nd (drop p hay) k" "\<forall>j<k. \<not> occurs_at nd (drop p hay) j"
        using c_memmem_Some_occurs [OF Some] by auto
      then have "p \<le> length hay" using 1(2) by (cases nd) (auto simp: occurs_at_def)
      with k' have k: "occurs_at nd hay (p + k)" "\<forall>j<k. \<not> occurs_at nd (drop p hay) j"
        by (simp_all add: occurs_at_drop)
      have none: "\<not> occurs_at nd hay i" if "p \<le> i" "i < p + k" for i
      proof
        assume oc: "occurs_at nd hay i"
        then have "p \<le> length hay" using that 1(2) by (auto simp: occurs_at_def)
        with oc that have "occurs_at nd (drop p hay) (i - p)" by (simp add: occurs_at_drop)
        with k(2) that show False by auto
      qed
      let ?f' = "if p + k \<le> f then int (p + k) else found"
      have a: "?f' < int (Suc (p + k))" using 1(3) by auto
      have b: "\<forall>i<Suc (p + k). occurs_at nd hay i \<longrightarrow> i \<le> f \<longrightarrow> int i \<le> ?f'"
      proof (intro allI impI)
        fix i assume i: "i < Suc (p + k)" "occurs_at nd hay i" "i \<le> f"
        then have "i < p \<or> i = p + k" using none [of i] by linarith
        then show "int i \<le> ?f'" using 1(3,4) i by auto
      qed
      have c: "?f' = -1 \<or> (0 \<le> ?f' \<and> nat ?f' \<le> f \<and> occurs_at nd hay (nat ?f'))"
        using 1(5) k(1) by (auto simp: nat_add_distrib)
      have "lastIndexOf_loop hay nd f p found = lastIndexOf_loop hay nd f (Suc (p + k)) ?f'"
        using True Some by (simp add: lastIndexOf_loop.simps [of hay nd f p found])
      with 1(1) [OF True Some 1(2) a b c] show ?thesis by simp
    qed
  qed
qed

section \<open>Substrings\<close>

lemma cstr_take_idem: "cstr (take (length (cstr xs)) xs) = cstr xs"
  unfolding cstr_def by (metis takeWhile_eq_take takeWhile_idem)

lemma c_strlen_NUL_at:
  assumes "i \<le> r" and "r < length b" and "b ! r = NUL"
  shows "c_strlen b i = Some (length (cstr (take (r - i) (drop i b))))"
    and "take (length (cstr (take (r - i) (drop i b)))) (drop i b) = cstr (take (r - i) (drop i b))"
proof -
  have eq: "cstr (drop i b) = cstr (take (r - i) (drop i b))"
    by (rule cstr_take_nth_NUL) (use assms in auto)
  moreover have "length (cstr (take (r - i) (drop i b))) \<le> r - i"
    using length_cstr_le [of "take (r - i) (drop i b)"] assms by simp
  ultimately show "c_strlen b i = Some (length (cstr (take (r - i) (drop i b))))"
    using assms by (simp add: c_strlen_def Let_def)
  have "take (length (cstr (drop i b))) (drop i b) = cstr (drop i b)"
    unfolding cstr_def by (rule takeWhile_eq_take [symmetric])
  then show "take (length (cstr (take (r - i) (drop i b)))) (drop i b) = cstr (take (r - i) (drop i b))"
    by (simp only: eq)
qed

lemma String_substring_spec:
  assumes "String_wf s"
  shows "String_substring e s i j = Some String_null \<or>
    (\<exists>t. String_substring e s i j = Some t \<and> String_wf t \<and> str_buffer t \<noteq> None \<and>
      String_val t = cstr (take (max i j - min i j) (drop (min i j) (String_val s))))"
proof (cases "str_buffer s")
  case None
  then show ?thesis by (simp add: String_substring_def)
next
  case (Some b)
  define l where "l = min i j"
  define m where "m = max i j"
  define r where "r = (if str_len s < m then str_len s else m)"
  show ?thesis
  proof (cases "str_len s < l")
    case True
    with Some show ?thesis by (simp add: String_substring_def Let_def l_def)
  next
    case False
    from String_wf_NUL [OF assms Some] have n: "str_len s < length b" by simp
    have rb: "r \<le> str_len s" by (simp add: r_def)
    have lm: "l \<le> m" by (simp add: l_def m_def)
    have lr: "l \<le> r" using False lm by (simp add: r_def)
    have lr': "r < length (b[r := NUL])" "b[r := NUL] ! r = NUL" using rb n by auto
    note len = c_strlen_NUL_at [OF lr lr']
    let ?w = "cstr (take (r - l) (drop l (b[r := NUL])))"
    have vw: "take (r - l) (drop l (b[r := NUL])) = take (m - l) (drop l (String_val s))"
    proof -
      have "take (r - l) (drop l (b[r := NUL])) = drop l (take r (b[r := NUL]))"
        by (simp only: drop_take)
      also have "take r (b[r := NUL]) = take m (String_val s)"
        using Some by (simp add: String_val_def r_def min_def)
      finally show ?thesis by (simp only: drop_take)
    qed
    have "String_substring e s i j = String_copy e String_null (drop l (b[r := NUL])) (length ?w)"
      using Some False rb n len(1)
      by (simp add: String_substring_def Let_def mem_simps flip: l_def m_def r_def)
    moreover have "length ?w \<le> r - l"
      using length_cstr_le [of "take (r - l) (drop l (b[r := NUL]))"] by simp
    then have "length ?w < 65536" "length ?w \<le> length (drop l (b[r := NUL]))"
      using String_wf_len_less [OF assms] rb n by auto
    from String_copy_spec [OF String_wf_null this, of e]
    have "String_copy e String_null (drop l (b[r := NUL])) (length ?w) = Some String_null \<or>
        (\<exists>t. String_copy e String_null (drop l (b[r := NUL])) (length ?w) = Some t \<and> String_wf t
          \<and> str_buffer t \<noteq> None \<and> String_val t = ?w)"
      unfolding len(2) by (simp add: String_invalidate_def String_null_def)
    ultimately show ?thesis unfolding vw l_def [symmetric] m_def [symmetric] by simp
  qed
qed

section \<open>Modification in place\<close>

lemma map_to_NUL_spec: "NUL \<in> set b \<Longrightarrow>
    map_to_NUL f b = Some (map f (cstr b) @ drop (length (cstr b)) b)"
  by (induction f b rule: map_to_NUL.induct) (auto simp: cstr_def)

lemma String_map_buffer_spec:
  assumes "String_wf s"
  shows "\<exists>t. String_map_buffer f s = Some t \<and> String_wf t \<and> str_len t = str_len s \<and>
    (str_buffer t = None \<longleftrightarrow> str_buffer s = None) \<and>
    String_val t = map f (cstr (String_val s)) @ drop (length (cstr (String_val s))) (String_val s)"
proof (cases "str_buffer s")
  case None
  then show ?thesis using assms by (simp add: String_map_buffer_def String_val_def cstr_def)
next
  case (Some b)
  from String_wf_NUL [OF assms Some] have n: "str_len s < length b" "b ! str_len s = NUL" by auto
  have cs: "cstr b = cstr (String_val s)"
    using cstr_take_nth_NUL [OF n] Some by (simp add: String_val_def)
  let ?c = "cstr (String_val s)"
  have lc: "length ?c \<le> str_len s"
    using length_cstr_le [of "String_val s"] assms by simp
  let ?b = "map f ?c @ drop (length ?c) b"
  let ?t = "s\<lparr>str_buffer := Some ?b\<rparr>"
  have "NUL \<in> set b" using n by (metis nth_mem)
  then have "String_map_buffer f s = Some ?t"
    using Some map_to_NUL_spec [of b f] cs by (simp add: String_map_buffer_def)
  moreover have "String_wf ?t"
    using assms Some n lc by (auto simp: wf_simps nth_append)
  moreover have "String_val ?t = map f ?c @ drop (length ?c) (String_val s)"
    using lc Some by (simp add: String_val_def drop_take)
  ultimately show ?thesis using Some by (intro exI [of _ ?t]) simp
qed

lemma String_setCharAt_spec:
  assumes "String_wf s"
  shows "\<exists>t. String_setCharAt s i c = Some t \<and> String_wf t \<and> String_val t = (String_val s)[i := c]"
proof (cases "i < str_len s")
  case False
  then show ?thesis using assms by (simp add: String_setCharAt_def list_update_beyond)
next
  case True
  then obtain b where b: "str_buffer s = Some b"
    using assms String_wf_None by fastforce
  with assms True show ?thesis
    by (auto simp: String_setCharAt_def mem_simps wf_simps String_val_def take_update_swap)
qed

lemma String_remove_clamped:
  assumes "String_wf s" and "i + c \<le> str_len s" and "0 < c"
    and cnt: "(if str_len s < u32 (i + n) then str_len s - i else n) = c" and "n \<noteq> 0"
  shows "\<exists>t. String_remove s i n = Some t \<and> String_wf t \<and>
    String_val t = take i (String_val s) @ drop (i + c) (String_val s)"
proof -
  obtain b where b: "str_buffer s = Some b"
    using assms(1-3) String_wf_None by fastforce
  define k where "k = str_len s - c"
  have k: "str_len s = k + c" "i \<le> k" using assms(2) by (simp_all add: k_def)
  from String_wf_NUL [OF assms(1) b] have n: "k + c < length b" by (simp add: k)
  have L: "k + c < 65536" using String_wf_len_less [OF assms(1)] by (simp add: k)
  have l: "nat ((int (str_len s) - int c) mod 65536) = k"
    using L by (simp add: k)
  have d: "to_u32 (int k - int i) = k - i"
    using L k(2) by (intro to_u32_diff) auto
  let ?xs = "take (k - i) (drop (i + c) b)"
  have lx: "length ?xs = k - i" using n k(2) by simp
  let ?b = "(take i b @ ?xs @ drop k b)[k := NUL]"
  let ?t = "s\<lparr>str_buffer := Some ?b, str_len := k\<rparr>"
  have "wrn b i ?xs = Some (take i b @ ?xs @ drop k b)"
    using lx n k(2) wrn_Some [of i ?xs b] by simp
  moreover have "rdn b (i + c) (k - i) = Some ?xs"
    using n k(2) by (simp add: rdn_def)
  moreover have "wr (take i b @ ?xs @ drop k b) k NUL = Some ?b"
    using n k(2) by (simp add: wr_def)
  ultimately have "String_remove s i n = Some ?t"
    using k assms(3,5) b unfolding String_remove_def Let_def cnt l d by simp
  moreover have "String_wf ?t"
    using assms(1) b n k by (auto simp: wf_simps nth_list_update)
  moreover have "String_val ?t = take i (String_val s) @ drop (i + c) (String_val s)"
    using n k b by (simp add: String_val_def drop_take)
  ultimately show ?thesis by blast
qed

lemma String_remove_spec:
  assumes "String_wf s" and "i + n < 4294967296"
  shows "\<exists>t. String_remove s i n = Some t \<and> String_wf t \<and>
    String_val t = take i (String_val s) @ drop (i + n) (String_val s)"
proof (cases "str_len s \<le> i \<or> n = 0")
  case True
  then show ?thesis using assms(1) by (auto simp: String_remove_def)
next
  case False
  show ?thesis
  proof (cases "str_len s < i + n")
    case True
    with False assms String_remove_clamped [of s i "str_len s - i" n] show ?thesis by simp
  next
    case nl: False
    with False assms String_remove_clamped [of s i n n] show ?thesis by simp
  qed
qed

end
