(* ===== verification/WStringText.thy ===== *)
theory WStringText
  imports WStringProps
begin

text \<open>
  The text-processing methods of \<open>String\<close>: \<open>trim\<close>, the searches from the end and
  \<open>replace\<close>, related to reference functions on character lists. \<open>replace\<close> agrees with
  left-to-right replacement when the text does not grow; when it grows it works from the
  end, which is right for a single character that the replacement does not contain and
  leaves the buffer for \<open>"a".replace("a", "aa")\<close>.
\<close>

section \<open>trim\<close>

definition trim_spec :: "char list \<Rightarrow> char list" where
  "trim_spec v = rev (dropWhile c_isspace (rev (dropWhile c_isspace v)))"

lemma trim_begin_spec:
  "i \<le> n \<Longrightarrow> n < length b \<Longrightarrow> b ! n = NUL \<Longrightarrow>
    trim_begin b i = Some (n - length (dropWhile c_isspace (take (n - i) (drop i b))))"
proof (induction b i rule: trim_begin.induct)
  case (1 b i)
  show ?case
  proof (cases "i = n")
    case True
    with 1(3,4) show ?thesis by (simp add: trim_begin.simps [of b n] rd_def c_isspace_def)
  next
    case False
    with 1(2,3) have i: "i < n" "rd b i = Some (b ! i)" by (auto simp: rd_def)
    then have d: "take (n - i) (drop i b) = b ! i # take (n - Suc i) (drop (Suc i) b)"
      using 1(3) by (simp add: drop_nth_Cons [of i b] take_Cons')
    show ?thesis
    proof (cases "c_isspace (b ! i)")
      case True
      with 1(1) [OF i(2) True] i 1(3,4) show ?thesis
        unfolding d by (simp add: trim_begin.simps [of b i])
    next
      case False
      with i 1(3) show ?thesis unfolding d by (simp add: trim_begin.simps [of b i])
    qed
  qed
qed

lemma trim_end_spec:
  "p \<le> m \<Longrightarrow> m \<le> length b \<Longrightarrow> 0 < m \<Longrightarrow> (p < m \<longrightarrow> \<not> c_isspace (b ! p)) \<Longrightarrow>
    trim_end b m p =
      Some (p + length (dropWhile c_isspace (rev (take (m - p) (drop p b)))))"
proof (induction b m p rule: trim_end.induct)
  case (2 b i p)
  show ?case
  proof (cases "p \<le> i")
    case False
    with 2 show ?thesis by (simp add: rd_def)
  next
    case True
    then have sd: "take (Suc i - p) (drop p b) = take (i - p) (drop p b) @ [b ! i]"
      using 2(3) by (simp add: Suc_diff_le take_Suc_conv_app_nth)
    show ?thesis
    proof (cases "c_isspace (b ! i)")
      case False
      with True 2(3) show ?thesis unfolding sd by (simp add: rd_def)
    next
      case sp: True
      with 2(5) True have "p < i" by (cases "p = i") auto
      with sp True 2 show ?thesis unfolding sd by (simp add: rd_def)
    qed
  qed
qed simp

lemma length_dropWhile_rev_le: "length (dropWhile P (rev xs)) \<le> length xs"
  using length_dropWhile_le [of P "rev xs"] by simp

lemma rev_dropWhile_take: "rev (dropWhile P (rev xs)) = take (length (dropWhile P (rev xs))) xs"
proof -
  let ?n = "length (takeWhile P (rev xs))"
  have "dropWhile P (rev xs) = drop ?n (rev xs)" by (rule dropWhile_eq_drop)
  then have "rev (dropWhile P (rev xs)) = take (length xs - ?n) xs" by (simp add: drop_rev)
  moreover have "length (dropWhile P (rev xs)) = length xs - ?n"
    by (simp add: dropWhile_eq_drop)
  ultimately show ?thesis by simp
qed

lemma String_trim_spec:
  assumes "String_wf s"
  shows "\<exists>t. String_trim s = Some t \<and> String_wf t \<and> String_val t = trim_spec (String_val s)"
proof (cases "str_buffer s = None \<or> str_len s = 0")
  case True
  then show ?thesis using assms
    by (auto simp: String_trim_def String_val_def trim_spec_def split: option.splits)
next
  case False
  then obtain b where b: "str_buffer s = Some b" "0 < str_len s" by auto
  define n where "n = str_len s"
  have wf: "n < length b" "b ! n = NUL" "n < 65536" "n \<le> str_capacity s" "str_capacity s < length b"
      "str_capacity s < 65536"
    using assms b by (auto simp: wf_simps n_def)
  have v: "String_val s = take n b" using b by (simp add: String_val_def n_def)
  let ?d = "dropWhile c_isspace (take n b)"
  define p where "p = n - length ?d"
  have dl: "length ?d \<le> n" using length_dropWhile_le [of c_isspace "take n b"] by simp
  then have p: "p \<le> n" "n - p = length ?d" by (simp_all add: p_def)
  have bg: "trim_begin b 0 = Some p" using trim_begin_spec [of 0 n b] wf by (simp add: p_def)
  have "?d = drop (length (takeWhile c_isspace (take n b))) (take n b)"
    by (rule dropWhile_eq_drop)
  moreover have "length (takeWhile c_isspace (take n b)) + length ?d = length (take n b)"
    by (simp only: length_append [symmetric] takeWhile_dropWhile_id)
  then have "length (takeWhile c_isspace (take n b)) = p" using wf(1) by (simp add: p_def)
  ultimately have dd: "?d = take (n - p) (drop p b)" by (simp add: drop_take)
  have nsp: "p < n \<longrightarrow> \<not> c_isspace (b ! p)"
  proof
    assume "p < n"
    then have "0 < length ?d" using p by linarith
    then have "?d \<noteq> []" by (rule length_greater_0_conv [THEN iffD1])
    then show "\<not> c_isspace (b ! p)"
      using hd_dropWhile [of c_isspace "take n b"] \<open>p < n\<close> wf(1)
      by (simp add: dd hd_take hd_drop_conv_nth)
  qed
  define l where "l = length (dropWhile c_isspace (rev ?d))"
  have en: "trim_end b n p = Some (p + l)"
    unfolding l_def dd
    by (rule trim_end_spec) (use p(1) nsp wf(1) b(2) in \<open>auto simp: n_def\<close>)
  have l: "l \<le> n - p" using length_dropWhile_rev_le [of c_isspace ?d] p by (simp add: l_def)
  have res: "trim_spec (String_val s) = take l (drop p b)"
    unfolding trim_spec_def v rev_dropWhile_take [of c_isspace ?d] l_def [symmetric]
    unfolding dd using l by (simp add: min_def)
  let ?b = "take l (drop p b) @ drop l b"
  have mv: "rdn b p l = Some (take l (drop p b))" "wrn b 0 (take l (drop p b)) = Some ?b"
    using l wf p by (auto simp: rdn_def wrn_def)
  have u: "u16 (to_u32 (int (p + l) - int p)) = l"
    using l wf by (simp add: to_u32_id)
  let ?t = "s\<lparr>str_buffer := Some (?b[l := NUL]), str_len := l\<rparr>"
  have "wr ?b l NUL = Some (?b[l := NUL])" using l wf p by (simp add: wr_def)
  then have "String_trim s = Some ?t"
    using b bg en mv unfolding String_trim_def Let_def u by (cases "0 < p") (simp_all add: n_def u [simplified])
  moreover have "String_wf ?t" using l wf p by (auto simp: wf_simps)
  moreover have "String_val ?t = trim_spec (String_val s)"
    unfolding res using l wf p by (simp add: String_val_def)
  ultimately show ?thesis by blast
qed

section \<open>Search from the end\<close>

lemma String_val_nonempty: "String_wf t \<Longrightarrow> 0 < str_len t \<Longrightarrow> String_val t \<noteq> []"
  using length_String_val [of t] by (auto simp del: length_String_val)

lemma String_lastIndexOf_at_spec:
  assumes "String_wf s" and "String_wf t" and "0 < str_len t" and "0 < str_len s"
  shows "\<exists>r. String_lastIndexOf_at s t from = Some r \<and>
    (\<forall>i\<le>from. occurs_at (String_val t) (String_val s) i \<longrightarrow> int i \<le> r) \<and>
    (r = -1 \<or> (0 \<le> r \<and> nat r \<le> from \<and> occurs_at (String_val t) (String_val s) (nat r)))"
proof (cases "str_len s < str_len t")
  case True
  then show ?thesis using assms by (simp add: String_lastIndexOf_at_def occurs_at_def)
next
  case False
  let ?f = "if str_len s \<le> from then str_len s - 1 else from"
  let ?v = "String_val s" and ?n = "String_val t"
  have nd: "?n \<noteq> []" using assms(2,3) by (rule String_val_nonempty)
  have "String_lastIndexOf_at s t from = Some (lastIndexOf_loop ?v ?n ?f 0 (-1))"
    using assms False by (simp add: String_lastIndexOf_at_def String_rdn_all)
  moreover have "let r = lastIndexOf_loop ?v ?n ?f 0 (-1) in
      (\<forall>i\<le>?f. occurs_at ?n ?v i \<longrightarrow> int i \<le> r) \<and>
      (r = -1 \<or> (0 \<le> r \<and> nat r \<le> ?f \<and> occurs_at ?n ?v (nat r)))"
    by (rule lastIndexOf_loop_spec) (use nd in auto)
  moreover have "i \<le> ?f" if "occurs_at ?n ?v i" "i \<le> from" for i
    using that nd assms(1) length_String_val [OF assms(2)] assms(3) by (auto simp: occurs_at_def)
  ultimately show ?thesis by (auto simp: Let_def)
qed

section \<open>replace\<close>

text \<open>The reference: replace the occurrences from left to right, without overlap.\<close>

function replace_all :: "char list \<Rightarrow> char list \<Rightarrow> char list \<Rightarrow> char list" where
  "replace_all fnd repl xs =
     (if fnd = [] then xs
      else case c_memmem xs fnd of
             None \<Rightarrow> xs
           | Some k \<Rightarrow> take k xs @ repl @ replace_all fnd repl (drop (k + length fnd) xs))"
  by pat_completeness auto
termination
  by (relation "measure (\<lambda>(f, r, xs). length xs)")
     (auto dest!: c_memmem_Some_occurs simp: occurs_at_def neq_Nil_conv)

declare replace_all.simps [simp del]

lemma replace_all_None: "c_memmem xs fnd = None \<Longrightarrow> replace_all fnd repl xs = xs"
  by (simp add: replace_all.simps [of fnd repl xs])

lemma replace_all_Some: "c_memmem xs fnd = Some k \<Longrightarrow> fnd \<noteq> [] \<Longrightarrow>
    replace_all fnd repl xs = take k xs @ repl @ replace_all fnd repl (drop (k + length fnd) xs)"
  by (simp add: replace_all.simps [of fnd repl xs])

lemma c_memmem_bound: "c_memmem xs fnd = Some k \<Longrightarrow> k + length fnd \<le> length xs"
  by (auto dest!: c_memmem_Some_occurs simp: occurs_at_def)

lemma length_replace_all_le: "fnd \<noteq> [] \<Longrightarrow> length repl \<le> length fnd \<Longrightarrow>
    length (replace_all fnd repl xs) \<le> length xs"
proof (induction fnd repl xs rule: replace_all.induct)
  case (1 fnd repl xs)
  show ?case
  proof (cases "c_memmem xs fnd")
    case None
    then show ?thesis by (simp add: replace_all_None)
  next
    case (Some k)
    with 1 c_memmem_bound [OF Some] show ?thesis by (fastforce simp: replace_all_Some)
  qed
qed

lemma length_replace_all_same: "fnd \<noteq> [] \<Longrightarrow> length repl = length fnd \<Longrightarrow>
    length (replace_all fnd repl xs) = length xs"
proof (induction fnd repl xs rule: replace_all.induct)
  case (1 fnd repl xs)
  show ?case
  proof (cases "c_memmem xs fnd")
    case None
    then show ?thesis by (simp add: replace_all_None)
  next
    case (Some k)
    with 1 c_memmem_bound [OF Some] show ?thesis by (simp add: replace_all_Some)
  qed
qed

lemma replace_same_spec:
  assumes "fnd \<noteq> []" and "length repl = length fnd" and "r \<le> e" and "e \<le> length b"
  shows "replace_same b r e fnd repl =
    Some (take r b @ replace_all fnd repl (take (e - r) (drop r b)) @ drop e b)"
  using assms(3,4)
proof (induction "e - r" arbitrary: b r rule: less_induct)
  case less
  let ?T = "take (e - r) (drop r b)"
  show ?case
  proof (cases "c_memmem ?T fnd")
    case None
    have "b = take r b @ ?T @ drop e b"
      using less.prems append_take_drop_id [of "e - r" "drop r b"] by simp
    with None show ?thesis
      by (simp add: replace_same.simps [of b r e] replace_all_None)
  next
    case (Some k)
    let ?m = "length fnd"
    have k: "k + ?m \<le> e - r" using c_memmem_bound [OF Some] less.prems by simp
    let ?r = "r + k + ?m" and ?b = "take (r + k) b @ repl @ drop (r + k + ?m) b"
    have w: "wrn b (r + k) repl = Some ?b" using k less.prems assms(2) by (simp add: wrn_def)
    have "e - ?r < e - r" using k assms(1) by (cases fnd) auto
    from less.hyps [OF this] k less.prems assms(2)
    have "replace_same ?b ?r e fnd repl =
        Some (take ?r ?b @ replace_all fnd repl (take (e - ?r) (drop ?r ?b)) @ drop e ?b)"
      by simp
    moreover have "take (r + k) b = take r b @ take k ?T" using k by (simp add: take_add)
    then have "take ?r ?b = take r b @ take k ?T @ repl"
      using k less.prems assms(2) by simp
    moreover have "drop e ?b = drop e b"
      using k less.prems assms(2) by simp
    moreover have "take (e - ?r) (drop ?r ?b) = drop (k + ?m) ?T"
      using k less.prems assms(2) by (simp add: drop_take add.commute add.left_commute)
    ultimately show ?thesis
      using Some w assms by (simp add: replace_same.simps [of b r e] replace_all_Some)
  qed
qed

lemma u16_minus: "d \<le> l \<Longrightarrow> l < 65536 \<Longrightarrow> u16 (l + 65536 - d) = l - d"
proof -
  assume "d \<le> l" "l < 65536"
  then have eq: "l + 65536 - d = (l - d) + 65536" and lt: "l - d < 65536" by arith+
  show ?thesis unfolding u16_def eq mod_add_self2 using lt by (rule mod_less)
qed

lemma replace_shrink_spec:
  assumes "fnd \<noteq> []" and "length repl < length fnd" and "e < 65536"
    and "w \<le> r" and "r \<le> e" and "e < length b" and "l = w + (e - r)"
  shows "\<exists>b'. replace_shrink b r w e l fnd repl =
      Some (b', w + length (replace_all fnd repl (take (e - r) (drop r b))))
    \<and> length b' = length b
    \<and> take (w + length (replace_all fnd repl (take (e - r) (drop r b)))) b' =
        take w b @ replace_all fnd repl (take (e - r) (drop r b))
    \<and> b' ! (w + length (replace_all fnd repl (take (e - r) (drop r b)))) = NUL"
  using assms(4-)
proof (induction "e - r" arbitrary: b r w l rule: less_induct)
  case less
  let ?T = "take (e - r) (drop r b)"
  have lT: "length ?T = e - r" using less.prems by simp
  show ?case
  proof (cases "c_memmem ?T fnd")
    case None
    let ?b = "(take w b @ ?T @ drop (w + (e - r)) b)[l := NUL]"
    have "rdn b r (e - r) = Some ?T" using less.prems by (simp add: rdn_def)
    moreover have "wrn b w ?T = Some (take w b @ ?T @ drop (w + (e - r)) b)"
      using less.prems wrn_Some [of w ?T b] unfolding lT by simp
    moreover have "wr (take w b @ ?T @ drop (w + (e - r)) b) l NUL = Some ?b"
      using less.prems by (simp add: wr_def)
    ultimately have "replace_shrink b r w e l fnd repl = Some (?b, l)"
      using None by (simp add: replace_shrink.simps [of b r w e l])
    with less.prems None lT show ?thesis
      by (intro exI [of _ ?b]) (simp add: replace_all_None)
  next
    case (Some k)
    let ?m = "length fnd" and ?q = "length repl" and ?X = "take k (drop r b)"
    have k: "k + ?m \<le> e - r" using c_memmem_bound [OF Some] less.prems by simp
    let ?r = "r + k + ?m" and ?w = "w + k + ?q"
    let ?b = "take w b @ ?X @ repl @ drop ?w b"
    have rd: "rdn b r k = Some ?X" using k less.prems by (simp add: rdn_def)
    have lX: "length ?X = k" using k less.prems by simp
    have w1: "wrn b w ?X = Some (take w b @ ?X @ drop (w + k) b)"
      using k less.prems wrn_Some [of w ?X b] unfolding lX by simp
    have w2: "wrn (take w b @ ?X @ drop (w + k) b) (w + k) repl = Some ?b"
      using k less.prems assms(2) wrn_Some [of "w + k" repl "take w b @ ?X @ drop (w + k) b"] lX
      by (simp add: add.commute add.left_commute)
    let ?l = "u16 (l + 65536 - (?m - ?q))"
    have l: "?l = ?w + (e - ?r)"
      using k less.prems assms(2,3) by (subst u16_minus) auto
    have "e - ?r < e - r" using k assms(1) by (cases fnd) auto
    moreover have lb: "length ?b = length b" using k less.prems assms(2) lX by simp
    moreover have "?w \<le> ?r" "?r \<le> e" "e < length ?b"
      using k less.prems assms(2) lb by auto
    ultimately obtain b' where b': "replace_shrink ?b ?r ?w e ?l fnd repl =
        Some (b', ?w + length (replace_all fnd repl (take (e - ?r) (drop ?r ?b))))"
      "length b' = length ?b"
      "take (?w + length (replace_all fnd repl (take (e - ?r) (drop ?r ?b)))) b' =
        take ?w ?b @ replace_all fnd repl (take (e - ?r) (drop ?r ?b))"
      "b' ! (?w + length (replace_all fnd repl (take (e - ?r) (drop ?r ?b)))) = NUL"
      using less.hyps [of ?r ?w ?b ?l] l by blast
    have t1: "take (e - ?r) (drop ?r ?b) = drop (k + ?m) ?T"
      using k less.prems assms(2) lX by (simp add: drop_take add.commute add.left_commute)
    have t2: "take ?w ?b = take w b @ take k ?T @ repl"
      using k less.prems lX by simp
    have R: "replace_all fnd repl ?T = take k ?T @ repl @ replace_all fnd repl (drop (k + ?m) ?T)"
      using Some assms(1) by (rule replace_all_Some)
    have lR: "w + length (replace_all fnd repl ?T) = ?w + length (replace_all fnd repl (drop (k + ?m) ?T))"
      unfolding R using k lT by simp
    have "replace_shrink b r w e l fnd repl = replace_shrink ?b ?r ?w e ?l fnd repl"
      using Some rd w1 w2 by (simp add: replace_shrink.simps [of b r w e l])
    with b' lb show ?thesis
      unfolding lR unfolding R t1 t2 by (intro exI [of _ b']) simp
  qed
qed

lemma length_replace_all_ge: "fnd \<noteq> [] \<Longrightarrow> length fnd \<le> length repl \<Longrightarrow>
    length xs \<le> length (replace_all fnd repl xs)"
proof (induction fnd repl xs rule: replace_all.induct)
  case (1 fnd repl xs)
  show ?case
  proof (cases "c_memmem xs fnd")
    case None
    then show ?thesis by (simp add: replace_all_None)
  next
    case (Some k)
    with 1 c_memmem_bound [OF Some] show ?thesis by (fastforce simp: replace_all_Some)
  qed
qed

lemma replace_size_spec:
  assumes "fnd \<noteq> []" and "length fnd \<le> length repl" and "r \<le> e" and "e \<le> length b"
    and "sz + length (replace_all fnd repl (take (e - r) (drop r b))) < 4294967296"
  shows "replace_size b r e sz fnd (length repl - length fnd) =
    Some (sz + (length (replace_all fnd repl (take (e - r) (drop r b))) - (e - r)))"
  using assms(3-)
proof (induction "e - r" arbitrary: r sz rule: less_induct)
  case less
  let ?T = "take (e - r) (drop r b)" and ?d = "length repl - length fnd"
  show ?case
  proof (cases "c_memmem ?T fnd")
    case None
    with less.prems show ?thesis by (simp add: replace_size.simps [of b r e] replace_all_None)
  next
    case (Some k)
    let ?m = "length fnd"
    let ?r = "r + k + ?m"
    have k: "k + ?m \<le> e - r" using c_memmem_bound [OF Some] less.prems by simp
    have t1: "take (e - ?r) (drop ?r b) = drop (k + ?m) ?T"
      using k less.prems by (simp add: drop_take add.commute add.left_commute)
    let ?R = "length (replace_all fnd repl (drop (k + ?m) ?T))"
    have R: "length (replace_all fnd repl ?T) = k + length repl + ?R"
      using replace_all_Some [OF Some assms(1)] k less.prems by simp
    have ge: "e - ?r \<le> ?R"
      using length_replace_all_ge [OF assms(1,2), of "drop (k + ?m) ?T"] less.prems by simp
    have lt: "e - ?r < e - r" using k assms(1) by (cases fnd) auto
    have u: "u32 (sz + ?d) = sz + ?d" using less.prems(3) R by (intro u32_id) linarith
    have "?r \<le> e" using k less.prems(1) by linarith
    moreover have "sz + ?d + ?R < 4294967296" using less.prems(3) R by linarith
    ultimately have "replace_size b ?r e (sz + ?d) fnd ?d = Some (sz + ?d + (?R - (e - ?r)))"
      using less.hyps [OF lt, of "sz + ?d"] less.prems(2) unfolding t1 by simp
    moreover have "sz + ?d + (?R - (e - ?r)) = sz + (k + length repl + ?R - (e - r))"
      using ge k assms(2) by linarith
    ultimately show ?thesis
      using Some u R by (simp add: replace_size.simps [of b r e])
  qed
qed

text \<open>The growing case, for a single character that the replacement does not contain.\<close>

definition expand :: "char \<Rightarrow> char list \<Rightarrow> char list \<Rightarrow> char list" where
  "expand c repl v = concat (map (\<lambda>x. if x = c then repl else [x]) v)"

lemma expand_append [simp]: "expand c repl (xs @ ys) = expand c repl xs @ expand c repl ys"
  by (simp add: expand_def)

lemma expand_Cons: "expand c repl (x # xs) = (if x = c then repl else [x]) @ expand c repl xs"
  by (simp add: expand_def)

lemma expand_id: "c \<notin> set v \<Longrightarrow> expand c repl v = v"
  by (induction v) (auto simp: expand_def)

lemma length_expand_ge: "repl \<noteq> [] \<Longrightarrow> length v \<le> length (expand c repl v)"
  by (induction v) (auto simp: expand_def neq_Nil_conv)

lemma occurs_at_single: "occurs_at [c] v i \<longleftrightarrow> i < length v \<and> v ! i = c"
  by (auto simp: occurs_at_def drop_nth_Cons take_Cons')

lemma replace_all_single: "replace_all [c] repl v = expand c repl v"
proof (induction "[c]" repl v rule: replace_all.induct)
  case (1 repl v)
  show ?case
  proof (cases "c_memmem v [c]")
    case None
    then have "c \<notin> set v"
      using c_memmem_None_occurs [OF None] by (auto simp: occurs_at_single in_set_conv_nth)
    then show ?thesis using None by (simp add: replace_all_None expand_id)
  next
    case (Some k)
    then have k: "k < length v" "v ! k = c" "\<forall>j<k. v ! j \<noteq> c"
      using c_memmem_Some_occurs [OF Some] by (auto simp: occurs_at_single)
    then have "c \<notin> set (take k v)" by (auto simp: in_set_conv_nth)
    moreover have "v = take k v @ c # drop (Suc k) v"
      using k(2) id_take_nth_drop [OF k(1)] by simp
    then have "expand c repl v = expand c repl (take k v) @ repl @ expand c repl (drop (Suc k) v)"
      by (metis expand_append expand_Cons)
    ultimately show ?thesis using 1 Some by (simp add: replace_all_Some expand_id)
  qed
qed

lemma lastIndexOf_raw:
  assumes "str_buffer s = Some b" and "str_len s = length v" and "take (length v) b = v"
    and "v \<noteq> []" and "String_wf t" and "String_val t = [c]"
  shows "String_lastIndexOf_at s t f = Some (lastIndexOf_loop v [c] (min f (length v - 1)) 0 (-1))"
proof -
  have "str_len t = 1" using length_String_val [OF assms(5)] assms(6) by simp
  moreover have "length v \<le> length b" using arg_cong [OF assms(3), of length] by simp
  moreover from this have "rdn b 0 (length v) = Some v" using assms(3) by (simp add: rdn_def)
  moreover have "(if length v \<le> f then length v - 1 else f) = min f (length v - 1)"
    using assms(4) by (cases v) auto
  ultimately show ?thesis
    using assms(1,2,4,6) String_rdn_all [OF assms(5)]
    by (simp add: String_lastIndexOf_at_def Suc_le_eq not_less)
qed

lemma lastIndexOf_raw_result:
  assumes "str_buffer s = Some b" and "str_len s = length v" and "take (length v) b = v"
    and "v \<noteq> []" and "String_wf t" and "String_val t = [c]"
    and idx: "\<forall>i<length v. v ! i = c \<longrightarrow> int i \<le> idx" "- 1 \<le> idx" "idx < int (length v)"
      "length v < 65536"
  shows "(String_lastIndexOf_at s t (to_u32 idx) = Some (-1) \<and> c \<notin> set v) \<or>
    (\<exists>p. String_lastIndexOf_at s t (to_u32 idx) = Some (int p) \<and> p < length v \<and> v ! p = c
      \<and> c \<notin> set (drop (Suc p) v))"
proof -
  let ?f = "min (to_u32 idx) (length v - 1)"
  define r where "r = lastIndexOf_loop v [c] ?f 0 (-1)"
  have eq: "String_lastIndexOf_at s t (to_u32 idx) = Some r"
    using lastIndexOf_raw [OF assms(1-6)] by (simp add: r_def)
  have sp: "(\<forall>i\<le>?f. occurs_at [c] v i \<longrightarrow> int i \<le> r) \<and>
      (r = -1 \<or> (0 \<le> r \<and> nat r \<le> ?f \<and> occurs_at [c] v (nat r)))"
    using lastIndexOf_loop_spec [of "[c]" "-1" 0 v ?f] by (simp add: Let_def r_def)
  have le: "i \<le> ?f" if "i < length v" "v ! i = c" for i
  proof (cases "idx = -1")
    case True
    with idx(1) that show ?thesis by auto
  next
    case False
    with idx(2,3,4) have "to_u32 idx = nat idx" by (intro to_u32_id) auto
    with idx(1) that False idx(2) show ?thesis by auto
  qed
  show ?thesis
  proof (cases "r = -1")
    case True
    have "v ! i \<noteq> c" if "i < length v" for i
    proof
      assume "v ! i = c"
      then have "int i \<le> r" using sp le [OF that] that by (simp only: occurs_at_single)
      with True show False by simp
    qed
    then have "c \<notin> set v" by (auto simp: in_set_conv_nth)
    with True eq show ?thesis by simp
  next
    case False
    define p where "p = nat r"
    have p: "r = int p" "p < length v" "v ! p = c"
      using conjunct2 [OF sp] False by (simp_all add: p_def occurs_at_single)
    moreover have "c \<notin> set (drop (Suc p) v)"
    proof
      assume "c \<in> set (drop (Suc p) v)"
      then obtain j where "j < length v - Suc p" "v ! (Suc p + j) = c"
        by (auto simp: in_set_conv_nth)
      then have "occurs_at [c] v (Suc p + j)" "Suc p + j \<le> ?f"
        using le [of "Suc p + j"] by (simp_all add: occurs_at_single)
      then have "int (Suc p + j) \<le> r" using sp by blast
      with p show False by simp
    qed
    ultimately show ?thesis using eq by auto
  qed
qed

end
