(* ===== verification/WStringOps.thy ===== *)
theory WStringOps
  imports WStringText
begin

text \<open>
  \<open>String::replace\<close> as a whole, and programs over one \<open>String\<close> object: every sequence of
  its modifying methods stays inside the allocated block and keeps the representation
  invariant, whatever the allocator answers.
\<close>

section \<open>replace\<close>

lemma replace_grow_step:
  assumes "str_buffer s = Some b" and "str_len s = length v" and "take (length v) b = v"
    and "String_wf fnd" and "String_val fnd = [c]" and "String_wf repl" and "2 \<le> str_len repl"
    and "p < length v" and "v ! p = c"
    and "String_lastIndexOf_at s fnd (to_u32 idx) = Some (int p)"
    and "v' = take p v @ String_val repl @ drop (Suc p) v"
    and "length v' < length b" and "length v' < 65536"
  shows "\<exists>b'. replace_grow s idx fnd repl =
      replace_grow (s\<lparr>str_buffer := Some b', str_len := length v'\<rparr>) (int p - 1) fnd repl
    \<and> length b' = length b \<and> take (length v') b' = v'"
proof -
  let ?R = "String_val repl" and ?Q = "drop (Suc p) v"
  have lf: "str_len fnd = 1" using length_String_val [OF assms(4)] assms(5) by simp
  have lr: "length ?R = str_len repl" using assms(6) by simp
  have lv: "length v \<le> length b" using arg_cong [OF assms(3), of length] by simp
  have l': "length v' = length v + (str_len repl - 1)"
    using assms(7,8) lr by (simp add: assms(11))
  have r1: "rdn b (Suc p) (length v - Suc p) = Some ?Q"
    using lv assms(8) arg_cong [OF assms(3), of "drop (Suc p)"] by (simp add: rdn_def drop_take)
  let ?o = "p + str_len repl"
  let ?b1 = "take ?o b @ ?Q @ drop (?o + length ?Q) b"
  have o: "?o + length ?Q = length v'" using assms(7,8) l' by simp
  have w1: "wrn b ?o ?Q = Some ?b1" unfolding wrn_def using o assms(12) by simp
  have o': "Suc p + (str_len repl - str_len fnd) = ?o" using assms(7) lf by simp
  let ?b2 = "take p ?b1 @ ?R @ drop ?o ?b1"
  have lb1: "length ?b1 = length b" using o assms(12) by simp
  have w2: "wrn ?b1 p ?R = Some ?b2"
    using lr lb1 o assms(12) wrn_Some [of p ?R ?b1] by simp
  have d: "drop ?o ?b1 = ?Q @ drop (length v') b" using o assms(12) by simp
  have t: "take p ?b1 = take p v"
    using o assms(12,8) arg_cong [OF assms(3), of "take p"] by (simp add: min_absorb1)
  have b2: "?b2 = v' @ drop (length v') b" unfolding d t assms(11) by simp
  have "u16 (length v + (str_len repl - str_len fnd)) = length v'"
    using l' lf assms(13) by simp
  moreover have "rdn (block_of (str_buffer repl)) 0 (str_len repl) = Some ?R"
    using assms(6) by (rule String_rdn_all)
  ultimately have "replace_grow s idx fnd repl =
      replace_grow (s\<lparr>str_buffer := Some ?b2, str_len := length v'\<rparr>) (int p - 1) fnd repl"
    using assms(1,2,10) r1 w1 w2 o' lf
    by (simp add: replace_grow.simps [of s idx] Let_def)
  then show ?thesis unfolding b2 using assms(12) by (intro exI [of _ "v' @ drop (length v') b"]) simp
qed

lemma replace_grow_spec:
  assumes "String_wf fnd" and "String_val fnd = [c]" and "String_wf repl" and "2 \<le> str_len repl"
    and "c \<notin> set (String_val repl)"
    and "str_buffer s = Some b" and "str_len s = length v" and "take (length v) b = v" and "v \<noteq> []"
    and "length (expand c (String_val repl) v) < length b"
    and "length (expand c (String_val repl) v) < 65536"
    and "\<forall>i<length v. v ! i = c \<longrightarrow> int i \<le> idx" and "- 1 \<le> idx" and "idx < int (length v)"
  shows "\<exists>b'. replace_grow s idx fnd repl =
      Some (s\<lparr>str_buffer := Some b', str_len := length (expand c (String_val repl) v)\<rparr>)
    \<and> length b' = length b
    \<and> take (length (expand c (String_val repl) v)) b' = expand c (String_val repl) v"
  using assms(6-)
proof (induction "count_list v c" arbitrary: s b v idx rule: less_induct)
  case less
  let ?R = "String_val repl"
  have Rne: "?R \<noteq> []" using assms(3,4) by (intro String_val_nonempty) auto
  have lv: "length v < 65536"
    using length_expand_ge [OF Rne, of v c] less.prems(6) by linarith
  from lastIndexOf_raw_result [OF less.prems(1-4) assms(1,2) less.prems(7-9) lv]
  show ?case
  proof (elim disjE conjE exE)
    assume r: "String_lastIndexOf_at s fnd (to_u32 idx) = Some (- 1)" "c \<notin> set v"
    then have "replace_grow s idx fnd repl = Some s" by (simp add: replace_grow.simps [of s idx])
    moreover have "s = s\<lparr>str_buffer := Some b, str_len := length v\<rparr>"
      using less.prems(1,2) by simp
    ultimately show ?thesis using less.prems(3) by (auto simp: expand_id [OF r(2)])
  next
    fix p
    assume p: "String_lastIndexOf_at s fnd (to_u32 idx) = Some (int p)" "p < length v" "v ! p = c"
      "c \<notin> set (drop (Suc p) v)"
    define v' where "v' = take p v @ ?R @ drop (Suc p) v"
    have v: "v = take p v @ c # drop (Suc p) v" using p(2,3) id_take_nth_drop by metis
    have "expand c ?R v = expand c ?R (take p v) @ ?R @ expand c ?R (drop (Suc p) v)"
      by (subst v) (simp add: expand_Cons)
    then have ex: "expand c ?R v = expand c ?R v'"
      using assms(5) p(4) by (simp add: v'_def expand_id)
    have cnt: "count_list v' c < count_list v c"
      using assms(5) p(4) arg_cong [OF v, of "\<lambda>x. count_list x c"]
      by (simp add: v'_def count_notin)
    have lv': "length v' \<le> length (expand c ?R v)" unfolding ex by (rule length_expand_ge [OF Rne])
    then have "length v' < length b" "length v' < 65536" using less.prems(5,6) by auto
    from replace_grow_step [OF less.prems(1-3) assms(1-4) p(2,3,1) v'_def this]
    obtain b' where b': "replace_grow s idx fnd repl =
        replace_grow (s\<lparr>str_buffer := Some b', str_len := length v'\<rparr>) (int p - 1) fnd repl"
      "length b' = length b" "take (length v') b' = v'" by blast
    have "\<forall>i<length v'. v' ! i = c \<longrightarrow> int i \<le> int p - 1"
    proof (intro allI impI)
      fix i assume i: "i < length v'" "v' ! i = c"
      have "c \<notin> set (?R @ drop (Suc p) v)" using assms(5) p(4) by simp
      moreover have "v' ! i = (?R @ drop (Suc p) v) ! (i - p) \<and> i - p < length (?R @ drop (Suc p) v)"
        if "p \<le> i" using i(1) that p(2) by (simp add: v'_def nth_append)
      ultimately have "\<not> p \<le> i" using i(2) by (metis nth_mem)
      then show "int i \<le> int p - 1" by simp
    qed
    moreover have "v' \<noteq> []" using Rne by (simp add: v'_def)
    moreover have "int p - 1 < int (length v')" using p(2) Rne by (simp add: v'_def)
    ultimately show ?thesis
      using less.hyps [OF cnt, of "s\<lparr>str_buffer := Some b', str_len := length v'\<rparr>" b' "int p - 1"]
        b' less.prems(5,6) unfolding ex by auto
  qed
qed

lemma replace_all_Nil [simp]: "replace_all fnd repl [] = []"
proof (cases "c_memmem [] fnd")
  case None
  then show ?thesis by (rule replace_all_None)
next
  case (Some k)
  with c_memmem_bound [OF Some] show ?thesis by (simp add: replace_all.simps [of "[]"])
qed

lemma String_replace_shrink:
  assumes "String_wf s" and "String_wf fnd" and "String_wf repl" and "str_len repl \<le> str_len fnd"
  shows "\<exists>t. String_replace e s fnd repl = Some t \<and> String_wf t \<and>
    String_val t = replace_all (String_val fnd) (String_val repl) (String_val s)"
proof (cases "str_len s = 0 \<or> str_len fnd = 0")
  case True
  then have "String_val s = [] \<or> String_val fnd = []" by (auto simp: String_val_def)
  then have "replace_all (String_val fnd) (String_val repl) (String_val s) = String_val s"
    by (auto simp: replace_all.simps [of "[]"])
  with True assms(1) show ?thesis by (auto simp: String_replace_def)
next
  case False
  let ?f = "String_val fnd" and ?r = "String_val repl" and ?v = "String_val s" and ?n = "str_len s"
  have rd: "rdn (block_of (str_buffer fnd)) 0 (str_len fnd) = Some ?f"
      "rdn (block_of (str_buffer repl)) 0 (str_len repl) = Some ?r"
    using assms by (auto intro: String_rdn_all)
  have len: "length ?f = str_len fnd" "length ?r = str_len repl" "length ?v = ?n" using assms by auto
  have fne: "?f \<noteq> []" using assms(2) False by (intro String_val_nonempty) auto
  from False assms(1) obtain b where b: "str_buffer s = Some b"
    by (cases "str_buffer s") (auto simp: wf_simps)
  have wf: "?n < length b" "b ! ?n = NUL" using String_wf_NUL [OF assms(1) b] by auto
  have v: "?v = take ?n b" using b by (simp add: String_val_def)
  show ?thesis
  proof (cases "str_len repl = str_len fnd")
    case True
    let ?b = "replace_all ?f ?r ?v @ drop ?n b"
    have lr: "length (replace_all ?f ?r ?v) = ?n"
      using length_replace_all_same [OF fne, of ?r ?v] True len by simp
    have "replace_same b 0 ?n ?f ?r = Some ?b"
      using replace_same_spec [OF fne, of ?r 0 ?n b] True len wf by (simp add: v)
    with True False b rd have "String_replace e s fnd repl = Some (s\<lparr>str_buffer := Some ?b\<rparr>)"
      by (simp add: String_replace_def)
    moreover have "String_wf (s\<lparr>str_buffer := Some ?b\<rparr>)"
      using assms(1) b lr wf by (auto simp: wf_simps nth_append)
    ultimately show ?thesis using lr by (simp add: String_val_def)
  next
    case lt: False
    then have lt': "length ?r < length ?f" using assms(4) len by simp
    let ?L = "length (replace_all ?f ?r ?v)"
    have le: "?L \<le> ?n" using length_replace_all_le [OF fne, of ?r ?v] lt' len by simp
    obtain b' where b': "replace_shrink b 0 0 ?n ?n ?f ?r = Some (b', ?L)" "length b' = length b"
        "take ?L b' = replace_all ?f ?r ?v" "b' ! ?L = NUL"
      using replace_shrink_spec [OF fne lt', of ?n 0 0 b ?n] wf String_wf_len_less [OF assms(1)]
      by (auto simp: v)
    from lt assms(4) have "str_len repl < str_len fnd" by simp
    with b' lt False b rd
    have "String_replace e s fnd repl = Some (s\<lparr>str_buffer := Some b', str_len := ?L\<rparr>)"
      by (simp add: String_replace_def)
    moreover have "String_wf (s\<lparr>str_buffer := Some b', str_len := ?L\<rparr>)"
      using assms(1) b b' le by (auto simp: wf_simps)
    ultimately show ?thesis using b' by (simp add: String_val_def)
  qed
qed

lemma String_changeBuffer_alloc: "alloc_all e \<Longrightarrow> String_changeBuffer e s sz \<noteq> (s1, False)"
  by (auto simp: String_changeBuffer_def c_realloc_def alloc_all_def split: option.splits)

lemma String_replace_char_grow:
  assumes "String_wf s" and "String_wf fnd" and "String_val fnd = [c]" and "String_wf repl"
    and "2 \<le> str_len repl" and "c \<notin> set (String_val repl)"
    and "length (expand c (String_val repl) (String_val s)) < 65536"
  shows "\<exists>t. String_replace e s fnd repl = Some t \<and> String_wf t \<and>
    (String_val t = expand c (String_val repl) (String_val s) \<or> (t = s \<and> \<not> alloc_all e))"
proof (cases "str_len s = 0")
  case True
  then show ?thesis using assms(1) by (auto simp: String_replace_def String_val_def expand_def)
next
  case False
  let ?r = "String_val repl" and ?v = "String_val s" and ?n = "str_len s"
  let ?E = "expand c ?r ?v"
  have lf: "str_len fnd = 1" using length_String_val [OF assms(2)] assms(3) by simp
  have rd: "rdn (block_of (str_buffer fnd)) 0 (str_len fnd) = Some [c]"
      "rdn (block_of (str_buffer repl)) 0 (str_len repl) = Some ?r"
    using assms String_rdn_all [OF assms(2)] by (auto intro: String_rdn_all)
  have len: "length ?r = str_len repl" "length ?v = ?n" using assms by auto
  from False assms(1) obtain b where b: "str_buffer s = Some b"
    by (cases "str_buffer s") (auto simp: wf_simps)
  have wf: "?n < length b" "b ! ?n = NUL" using String_wf_NUL [OF assms(1) b] by auto
  have v: "take ?n b = ?v" using b by (simp add: String_val_def)
  have ge: "?n \<le> length ?E"
    using length_expand_ge [of ?r ?v c] String_val_nonempty [OF assms(4)] assms(5) len by auto
  have sz: "replace_size b 0 ?n ?n [c] (str_len repl - str_len fnd) = Some (length ?E)"
    using replace_size_spec [of "[c]" ?r 0 ?n b ?n] assms(5,7) wf lf len ge String_wf_len_less [OF assms(1)]
    by (simp add: v replace_all_single)
  have grow: "\<exists>t. (do { s2 \<leftarrow> replace_grow s1 (int (str_len s1) - 1) fnd repl;
        b2 \<leftarrow> wr (block_of (str_buffer s2)) (str_len s2) NUL;
        Some (s2\<lparr>str_buffer := Some b2\<rparr>) }) = Some t \<and> String_wf t \<and> String_val t = ?E"
    if s1: "str_buffer s1 = Some b1" "str_len s1 = ?n" "take ?n b1 = ?v"
      "length ?E \<le> str_capacity s1" "str_capacity s1 < length b1" "str_capacity s1 < 65536" for s1 b1
  proof -
    have vne: "?v \<noteq> []" using False assms(1) by (intro String_val_nonempty) auto
    obtain b' where b': "replace_grow s1 (int ?n - 1) fnd repl =
          Some (s1\<lparr>str_buffer := Some b', str_len := length ?E\<rparr>)"
        "length b' = length b1" "take (length ?E) b' = ?E"
      using replace_grow_spec [OF assms(2-6), of s1 b1 ?v "int ?n - 1"] s1 len vne assms(7) by auto
    with s1 show ?thesis by (auto simp: mem_simps wf_simps String_val_def)
  qed
  have eq: "String_replace e s fnd repl = (if length ?E = ?n then Some s
      else (case (if str_capacity s < length ?E then String_changeBuffer e s (length ?E) else (s, True)) of
                  (s1, False) \<Rightarrow> Some s1
                | (s1, True) \<Rightarrow> do {
                    s2 \<leftarrow> replace_grow s1 (int (str_len s1) - 1) fnd repl;
                    b2 \<leftarrow> wr (block_of (str_buffer s2)) (str_len s2) NUL;
                    Some (s2\<lparr>str_buffer := Some b2\<rparr>) }))"
    using False lf rd b sz assms(5) by (simp add: String_replace_def)
  consider "length ?E = ?n" | "length ?E \<noteq> ?n" "length ?E \<le> str_capacity s"
    | "length ?E \<noteq> ?n" "str_capacity s < length ?E" by linarith
  then show ?thesis
  proof cases
    case 1
    have "expand c ?r w = w \<or> length w < length (expand c ?r w)" for w
      using assms(5) len length_expand_ge [of ?r _ c]
      by (induction w) (auto simp: expand_def)
    with 1 len have "?E = ?v" by fastforce
    with 1 eq assms(1) show ?thesis by auto
  next
    case 2
    then show ?thesis
      using eq grow [OF b refl v 2(2)] assms(1) b by (auto simp: wf_simps)
  next
    case 3
    show ?thesis using assms(1) ge assms(7)
    proof (cases rule: String_changeBuffer_cases [where e = e])
      case fail
      with String_changeBuffer_alloc have "\<not> alloc_all e" by blast
      with fail 3 eq assms(1) show ?thesis by auto
    next
      case (ok nb)
      with 3 eq grow [of "s\<lparr>str_buffer := Some nb, str_capacity := length ?E\<rparr>" nb] assms(7)
      show ?thesis by auto
    qed
  qed
qed

text \<open>
  A replacement that contains the searched character: after the match at offset 0 the
  index -1 is converted to \<open>unsigned\<close> and the search starts again at the end of the
  text, so the loop writes past the block sized for one replacement.
\<close>

definition String_lit :: "char list \<Rightarrow> wstring" where
  "String_lit cs = \<lparr>str_buffer = Some (cs @ [NUL]), str_capacity = length cs, str_len = length cs\<rparr>"

lemma String_wf_lit [simp, intro]: "length cs < 65536 \<Longrightarrow> String_wf (String_lit cs)"
  by (simp add: String_lit_def String_wf_def nth_append)

lemma String_val_lit [simp]: "String_val (String_lit cs) = cs"
  by (simp add: String_lit_def String_val_def)

lemma String_len_lit [simp]: "str_len (String_lit cs) = length cs"
  by (simp add: String_lit_def)

lemma to_u32_minus_1 [simp]: "to_u32 (- 1) = 4294967295"
  by (simp add: to_u32_def)

lemma to_u32_0 [simp]: "to_u32 0 = 0"
  by (simp add: to_u32_def)

lemma lastIndexOf_loop_cc:
  "lastIndexOf_loop [c] [c] 0 0 (- 1) = 0"
  "lastIndexOf_loop [c, c] [c] (Suc 0) 0 (- 1) = 1"
  "lastIndexOf_loop [c, c, c] [c] 0 0 (- 1) = 0"
  by (simp_all add: lastIndexOf_loop.simps [of _ _ _ 0] lastIndexOf_loop.simps [of _ _ _ "Suc 0"]
      lastIndexOf_loop.simps [of _ _ _ "Suc (Suc 0)"])

lemma replace_grow_cc:
  fixes c x
  defines "f \<equiv> String_lit [c]" and "r \<equiv> String_lit [c, c]"
  shows "replace_grow \<lparr>str_buffer = Some [c, NUL, x], str_capacity = 2, str_len = 1\<rparr> 0 f r =
      replace_grow \<lparr>str_buffer = Some [c, c, x], str_capacity = 2, str_len = 2\<rparr> (- 1) f r"
    and "replace_grow \<lparr>str_buffer = Some [c, c, x], str_capacity = 2, str_len = 2\<rparr> (- 1) f r =
      replace_grow \<lparr>str_buffer = Some [c, c, c], str_capacity = 2, str_len = 3\<rparr> 0 f r"
    and "replace_grow \<lparr>str_buffer = Some [c, c, c], str_capacity = 2, str_len = 3\<rparr> 0 f r = None"
  unfolding f_def r_def
  by (subst replace_grow.simps,
      simp add: String_lastIndexOf_at_def String_lit_def rdn_def wrn_def lastIndexOf_loop_cc Let_def
        numeral_2_eq_2 numeral_3_eq_3)+

lemma String_replace_contained_leaves_block:
  "alloc_ok e 3 \<Longrightarrow> String_replace e (String_lit [c]) (String_lit [c]) (String_lit [c, c]) = None"
  using replace_grow_cc(1,2) [of c "fresh e (Suc (Suc 0))"] replace_grow_cc(3) [of c]
  by (simp add: String_replace_def String_lit_def rdn_def replace_size.simps
      String_changeBuffer_def c_realloc_def Let_def numeral_2_eq_2 numeral_3_eq_3)

section \<open>Programs over one object\<close>

datatype string_op =
  OpAssign "char list" | OpConcat "char list" | OpConcatChar char | OpSetCharAt nat char
| OpRemove nat nat | OpReplaceChar char char | OpReplace wstring wstring | OpToLowerCase
| OpToUpperCase | OpTrim | OpReserve nat | OpSetLength nat

fun String_exec :: "alloc_env \<Rightarrow> wstring \<Rightarrow> string_op \<Rightarrow> wstring option" where
  "String_exec e s (OpAssign cs) = String_assign_cstr e s (Some cs)"
| "String_exec e s (OpConcat cs) = map_option fst (String_concat_cstr e s (Some cs))"
| "String_exec e s (OpConcatChar c) = map_option fst (String_concat_char e s c)"
| "String_exec e s (OpSetCharAt i c) = String_setCharAt s i c"
| "String_exec e s (OpRemove i n) = String_remove s i n"
| "String_exec e s (OpReplaceChar a c) = String_replace_char s a c"
| "String_exec e s (OpReplace f r) = String_replace e s f r"
| "String_exec e s OpToLowerCase = String_toLowerCase s"
| "String_exec e s OpToUpperCase = String_toUpperCase s"
| "String_exec e s OpTrim = String_trim s"
| "String_exec e s (OpReserve n) = map_option fst (String_reserve e s n)"
| "String_exec e s (OpSetLength n) = map_option fst (String_setLength e s n)"

text \<open>The sizes a caller has to respect: the 16-bit length field must not overflow.\<close>

fun String_fits :: "wstring \<Rightarrow> string_op \<Rightarrow> bool" where
  "String_fits s (OpAssign cs) = (length cs < 65536)"
| "String_fits s (OpConcat cs) = (str_len s + length cs < 65536)"
| "String_fits s (OpConcatChar c) = (str_len s + 1 < 65536)"
| "String_fits s (OpRemove i n) = (i + n < 4294967296)"
| "String_fits s (OpReplace f r) = (String_wf f \<and> String_wf r \<and> str_len r \<le> str_len f)"
| "String_fits s (OpReserve n) = (n < 65536)"
| "String_fits s (OpSetLength n) = (n < 65536)"
| "String_fits s _ = True"

text \<open>The same operations on the text alone.\<close>

definition map_cstr :: "(char \<Rightarrow> char) \<Rightarrow> char list \<Rightarrow> char list" where
  "map_cstr f v = map f (cstr v) @ drop (length (cstr v)) v"

fun text_op :: "char list \<Rightarrow> string_op \<Rightarrow> char list" where
  "text_op v (OpAssign cs) = cstr cs"
| "text_op v (OpConcat cs) = v @ cstr cs"
| "text_op v (OpConcatChar c) = v @ [c]"
| "text_op v (OpSetCharAt i c) = v[i := c]"
| "text_op v (OpRemove i n) = take i v @ drop (i + n) v"
| "text_op v (OpReplaceChar a c) = map_cstr (\<lambda>x. if x = a then c else x) v"
| "text_op v (OpReplace f r) = replace_all (String_val f) (String_val r) v"
| "text_op v OpToLowerCase = map_cstr c_tolower v"
| "text_op v OpToUpperCase = map_cstr c_toupper v"
| "text_op v OpTrim = trim_spec v"
| "text_op v (OpReserve n) = v"
| "text_op v (OpSetLength n) = take n v"

text \<open>Growing with \<open>setLength\<close> exposes characters the allocator left in the block.\<close>

fun text_determined :: "wstring \<Rightarrow> string_op \<Rightarrow> bool" where
  "text_determined s (OpSetLength n) = (n \<le> str_len s)"
| "text_determined s _ = True"

lemma String_concat_mem_alloc: "alloc_all e \<Longrightarrow> String_concat_mem e s (Some src) n \<noteq> Some (s1, False)"
  by (auto simp: String_concat_mem_def Let_def Some_bind_iff dest: String_reserve_ok split: if_splits)

lemma String_setLength_alloc: "alloc_all e \<Longrightarrow> String_setLength e s n \<noteq> Some (s1, False)"
  by (auto simp: String_setLength_def Let_def Some_bind_iff dest: String_reserve_ok
      split: if_splits option.splits)

lemma String_exec_concat:
  assumes "String_wf s" and "str_len s + n < 65536" and "n \<le> length src"
  shows "\<exists>t. map_option fst (String_concat_mem e s (Some src) n) = Some t \<and> String_wf t \<and>
    (alloc_all e \<longrightarrow> String_val t = String_val s @ take n src)"
  using String_concat_mem_spec [OF assms, of e] String_concat_mem_alloc [of e s src n s] assms(1)
  by auto

lemma String_exec_assign:
  assumes "String_wf s" and "n < 65536" and "n \<le> length src"
  shows "\<exists>t. String_copy e s src n = Some t \<and> String_wf t \<and> (alloc_all e \<longrightarrow> String_val t = take n src)"
  using String_copy_spec [OF assms, of e] String_copy_alloc [of e s n src] assms by auto

lemma String_exec_reserve:
  assumes "String_wf s" and "n < 65536"
  shows "\<exists>t. map_option fst (String_reserve e s n) = Some t \<and> String_wf t \<and> String_val t = String_val s"
  using assms
proof (cases rule: String_reserve_cases [where e = e])
  case fail
  with assms show ?thesis by simp
next
  case (ok s1)
  then show ?thesis by simp
qed

lemma String_exec_setLength:
  assumes "String_wf s" and "n < 65536"
  shows "\<exists>t. map_option fst (String_setLength e s n) = Some t \<and> String_wf t \<and>
    (alloc_all e \<longrightarrow> n \<le> str_len s \<longrightarrow> String_val t = take n (String_val s))"
  using String_setLength_spec [OF assms, of e] String_setLength_alloc [of e s n s] assms
  by (auto simp: min_def)

lemma take_cstr_len: "take (length (cstr cs)) cs = cstr cs"
  unfolding cstr_def by (rule takeWhile_eq_take [symmetric])

lemma String_exec_step:
  assumes "String_wf s" and "String_fits s op"
  shows "\<exists>t. String_exec e s op = Some t \<and> String_wf t \<and>
    (alloc_all e \<longrightarrow> text_determined s op \<longrightarrow> String_val t = text_op (String_val s) op)"
proof (cases op)
  case (OpAssign cs)
  with assms String_exec_assign [of s "length (cstr cs)" "cs @ [NUL]" e] length_cstr_le [of cs]
  show ?thesis by (auto simp: String_assign_cstr_def take_cstr_len)
next
  case (OpConcat cs)
  with assms String_exec_concat [of s "length (cstr cs)" "cs @ [NUL]" e] length_cstr_le [of cs]
  show ?thesis by (auto simp: String_concat_cstr_def take_cstr_len)
next
  case (OpConcatChar c)
  with assms String_exec_concat [of s 1 "[c, NUL]" e] show ?thesis
    by (auto simp: String_concat_char_def)
next
  case (OpSetCharAt i c)
  with assms String_setCharAt_spec [of s i c] show ?thesis by auto
next
  case (OpRemove i n)
  with assms String_remove_spec [of s i n] show ?thesis by auto
next
  case (OpReplaceChar a c)
  with assms String_map_buffer_spec [of s "\<lambda>x. if x = a then c else x"] show ?thesis
    by (auto simp: String_replace_char_def map_cstr_def)
next
  case (OpReplace f r)
  with assms String_replace_shrink [of s f r e] show ?thesis by auto
next
  case OpToLowerCase
  with assms String_map_buffer_spec [of s c_tolower] show ?thesis
    by (auto simp: String_toLowerCase_def map_cstr_def)
next
  case OpToUpperCase
  with assms String_map_buffer_spec [of s c_toupper] show ?thesis
    by (auto simp: String_toUpperCase_def map_cstr_def)
next
  case OpTrim
  with assms String_trim_spec [of s] show ?thesis by auto
next
  case (OpReserve n)
  with assms String_exec_reserve [of s n e] show ?thesis by auto
next
  case (OpSetLength n)
  with assms String_exec_setLength [of s n e] show ?thesis by auto
qed

text \<open>A caller that checks the sizes first and stops where they do not fit.\<close>

fun String_run :: "alloc_env \<Rightarrow> string_op list \<Rightarrow> wstring \<Rightarrow> wstring option" where
  "String_run e [] s = Some s"
| "String_run e (op # ops) s =
     (if String_fits s op \<and> text_determined s op then String_exec e s op \<bind> String_run e ops
      else Some s)"

fun text_run :: "string_op list \<Rightarrow> char list \<Rightarrow> char list" where
  "text_run [] v = v"
| "text_run (op # ops) v =
     (if String_fits (String_lit v) op \<and> text_determined (String_lit v) op
      then text_run ops (text_op v op) else v)"

lemma String_fits_val: "String_wf s \<Longrightarrow> String_fits s op \<longleftrightarrow> String_fits (String_lit (String_val s)) op"
  by (cases op) simp_all

lemma text_determined_val:
  "String_wf s \<Longrightarrow> text_determined s op \<longleftrightarrow> text_determined (String_lit (String_val s)) op"
  by (cases op) simp_all

lemma String_run_spec:
  "String_wf s \<Longrightarrow> \<exists>t. String_run e ops s = Some t \<and> String_wf t \<and>
    (alloc_all e \<longrightarrow> String_val t = text_run ops (String_val s))"
proof (induction ops arbitrary: s)
  case Nil
  then show ?case by simp
next
  case (Cons op ops)
  show ?case
  proof (cases "String_fits s op \<and> text_determined s op")
    case False
    with Cons.prems show ?thesis using String_fits_val [OF Cons.prems, of op]
        text_determined_val [OF Cons.prems, of op] by auto
  next
    case True
    with String_exec_step [OF Cons.prems, of op e] obtain t where
      t: "String_exec e s op = Some t" "String_wf t"
        "alloc_all e \<longrightarrow> String_val t = text_op (String_val s) op" by auto
    with Cons.IH [OF t(2)] True Cons.prems show ?thesis
      using String_fits_val [OF Cons.prems, of op] text_determined_val [OF Cons.prems, of op] by auto
  qed
qed

section \<open>Numbers as text and back\<close>

definition alloc_always :: alloc_env where
  "alloc_always = \<lparr>alloc_ok = (\<lambda>_. True), fresh = (\<lambda>_. NUL)\<rparr>"

lemma alloc_all_always [simp]: "alloc_all alloc_always"
  by (simp add: alloc_all_def alloc_always_def)

lemma hexchar_not_NUL: "k < 16 \<Longrightarrow> hexchar k \<noteq> NUL"
  by (auto simp: hexchar_def NUL_eq)

lemma String_of_text:
  assumes "alloc_all e" and "NUL \<notin> set cs" and "length cs < 65536"
  shows "\<exists>s. String_assign_cstr e String_null (Some cs) = Some s \<and> String_wf s \<and> String_val s = cs
    \<and> str_buffer s \<noteq> None"
  using String_copy_alloc [OF assms(1) String_wf_null, of "length cs" "cs @ [NUL]"] assms(2,3)
  by (auto simp: String_assign_cstr_def cstr_id)

lemma String_toInt_text:
  assumes "String_wf s" and "str_buffer s \<noteq> None" and "NUL \<notin> set (String_val s)"
  shows "String_toInt s = Some (c_atoi (String_val s))"
  using assms c_string_wf [OF assms(1)] by (auto simp: String_toInt_def cstr_id)

lemma ltoa_text:
  assumes "- 2147483648 < n" and "n < 2147483648"
  shows "NUL \<notin> set (ltoa n 10) \<and> length (ltoa n 10) \<le> 39 \<and> c_atoi (ltoa n 10) = n"
proof -
  let ?m = "nat \<bar>n\<bar>"
  have "?m < 4294967296" using assms by auto
  with ultoa_digits [of 10 ?m] obtain ds where ds: "ultoa ?m 10 = ds" "eval_digits 10 ds = int ?m"
    "\<forall>d\<in>set ds. \<exists>k<10. d = hexchar k" "ds \<noteq> []" "length ds \<le> 38" by auto
  have "d \<noteq> NUL" if "d \<in> set ds" for d
  proof -
    from ds(3) that obtain k where "k < 10" "d = hexchar k" by blast
    with hexchar_not_NUL [of k] show ?thesis by simp
  qed
  then have "NUL \<notin> set ds" by blast
  moreover have "clamp_long n = n" using assms by (simp add: clamp_long_def)
  ultimately show ?thesis
    using ds ltoa_nonneg [of n 10] ltoa_neg [of n 10] assms
      c_strtol10_digits [OF ds(3,4), of "[]"] c_strtol10_neg_digits [OF ds(3,4), of "[]"]
    by (cases "n < 0") (auto simp: c_atoi_def)
qed

section \<open>Properties\<close>





text \<open>C3: \<open>String(int)\<close> followed by \<open>toInt()\<close> gives the number back, for every \<open>int\<close> except the
  smallest one.\<close>

theorem String_int_roundtrip:
  assumes "alloc_all e" and "- 2147483648 < n" and "n < 2147483648"
  shows "\<exists>s. String_of_int e n 10 = Some s \<and> String_wf s \<and> String_toInt s = Some n"
  using ltoa_text [OF assms(2,3)] String_of_text [OF assms(1), of "ltoa n 10"] String_toInt_text
  by (fastforce simp: String_of_int_def)

theorem String_int_roundtrip_witness:
  "\<exists>s. String_of_int alloc_always (- 120) 10 = Some s \<and> String_wf s \<and> String_toInt s = Some (- 120)"
  by (rule String_int_roundtrip) simp_all



text \<open>\<open>replace\<close> of a single character by a longer text that does not contain it replaces
  every occurrence; if the larger block cannot be allocated the object is unchanged.\<close>

theorem String_replace_single_grows:
  assumes "String_wf s" and "String_wf fnd" and "String_val fnd = [c]" and "String_wf repl"
    and "2 \<le> str_len repl" and "c \<notin> set (String_val repl)"
    and "length (expand c (String_val repl) (String_val s)) < 65536"
  shows "\<exists>t. String_replace e s fnd repl = Some t \<and> String_wf t \<and>
    (String_val t = expand c (String_val repl) (String_val s) \<or> (t = s \<and> \<not> alloc_all e))"
  using assms by (rule String_replace_char_grow)

theorem String_replace_single_grows_witness:
  "\<exists>t. String_replace alloc_always (String_lit ''a<b'') (String_lit ''<'') (String_lit ''lt'') = Some t \<and>
    String_wf t \<and> String_val t = ''altb''"
  using String_replace_single_grows [of "String_lit ''a<b''" "String_lit ''<''" "CHR ''<''" "String_lit ''lt''" alloc_always]
  by (simp add: expand_def)



end
