(* ===== verification/WVector.thy ===== *)
theory WVector
  imports Prelude CLib
begin

text \<open>
  \<open>Vector\<close> of \<open>Wiring/WVector.h\<close>: a growable array of pointers to elements.

  \<open>vec_data\<close> is the block \<open>_data\<close> points at, one entry per pointer: \<open>Some x\<close> for a pointer
  to an element with value \<open>x\<close>, \<open>None\<close> for a pointer that was never set or whose element
  was deleted. \<open>ok n\<close> tells whether the allocator can provide an array of \<open>n\<close> pointers;
  elements are copied by their own constructor, which is taken to succeed. A result
  \<open>None\<close> is an \<open>abort\<close> or an access outside the array or through a bad pointer.
\<close>

section \<open>Representation\<close>

record 'a vector =
  vec_size :: nat
  vec_capacity :: nat
  vec_increment :: nat
  vec_data :: "'a option list option"

definition Vector_new :: "(nat \<Rightarrow> bool) \<Rightarrow> nat \<Rightarrow> nat \<Rightarrow> 'a vector" where
  "Vector_new ok initialCapacity capacityIncrement =
     (if ok initialCapacity
      then \<lparr>vec_size = 0, vec_capacity = initialCapacity, vec_increment = capacityIncrement,
            vec_data = Some (replicate initialCapacity None)\<rparr>
      else \<lparr>vec_size = 0, vec_capacity = 0, vec_increment = 0, vec_data = None\<rparr>)"

text \<open>\<open>*_data[i]\<close>.\<close>

definition vec_deref :: "'a option list \<Rightarrow> nat \<Rightarrow> 'a option" where
  "vec_deref d i = rd d i \<bind> (\<lambda>p. p)"

section \<open>Queries\<close>

definition Vector_elementAt :: "'a vector \<Rightarrow> nat \<Rightarrow> 'a option" where
  "Vector_elementAt v index =
     (if vec_size v \<le> index \<or> vec_data v = None then None
      else vec_deref (block_of (vec_data v)) index)"

definition Vector_firstElement :: "'a vector \<Rightarrow> 'a option" where
  "Vector_firstElement v =
     (if vec_size v = 0 \<or> vec_data v = None then None
      else vec_deref (block_of (vec_data v)) 0)"

definition Vector_lastElement :: "'a vector \<Rightarrow> 'a option" where
  "Vector_lastElement v =
     (if vec_size v = 0 \<or> vec_data v = None then None
      else vec_deref (block_of (vec_data v)) (vec_size v - 1))"

function indexOf_loop :: "'a option list \<Rightarrow> 'a \<Rightarrow> nat \<Rightarrow> nat \<Rightarrow> int option" where
  "indexOf_loop d elem i n =
     (if i < n
      then do { x \<leftarrow> vec_deref d i; if x = elem then Some (int i) else indexOf_loop d elem (Suc i) n }
      else Some (-1))"
  by pat_completeness auto
termination
  by (relation "measure (\<lambda>(d, elem, i, n). n - i)") auto

declare indexOf_loop.simps [simp del]

definition Vector_indexOf :: "'a vector \<Rightarrow> 'a \<Rightarrow> int option" where
  "Vector_indexOf v elem = indexOf_loop (block_of (vec_data v)) elem 0 (vec_size v)"

definition Vector_contains :: "'a vector \<Rightarrow> 'a \<Rightarrow> bool option" where
  "Vector_contains v elem = map_option (\<lambda>i. 0 \<le> i) (Vector_indexOf v elem)"

fun lastIndexOf_down :: "'a option list \<Rightarrow> 'a \<Rightarrow> nat \<Rightarrow> int option" where
  "lastIndexOf_down d elem 0 = Some (-1)"
| "lastIndexOf_down d elem (Suc i) =
     do { x \<leftarrow> vec_deref d i; if x = elem then Some (int i) else lastIndexOf_down d elem i }"

definition Vector_lastIndexOf :: "'a vector \<Rightarrow> 'a \<Rightarrow> int option" where
  "Vector_lastIndexOf v elem =
     (if vec_size v = 0 then Some (-1) else lastIndexOf_down (block_of (vec_data v)) elem (vec_size v))"

function copyInto_loop :: "'a option list \<Rightarrow> 'a list \<Rightarrow> nat \<Rightarrow> nat \<Rightarrow> 'a list option" where
  "copyInto_loop d array i n =
     (if i < n
      then do { x \<leftarrow> vec_deref d i; array1 \<leftarrow> wr array i x; copyInto_loop d array1 (Suc i) n }
      else Some array)"
  by pat_completeness auto
termination
  by (relation "measure (\<lambda>(d, array, i, n). n - i)") auto

declare copyInto_loop.simps [simp del]

definition Vector_copyInto :: "'a vector \<Rightarrow> 'a list option \<Rightarrow> 'a list option option" where
  "Vector_copyInto v array = (case array of
     None \<Rightarrow> Some None
   | Some a \<Rightarrow> map_option Some (copyInto_loop (block_of (vec_data v)) a 0 (vec_size v)))"

section \<open>Growth\<close>

definition Vector_ensureCapacity :: "(nat \<Rightarrow> bool) \<Rightarrow> 'a vector \<Rightarrow> nat \<Rightarrow> 'a vector option" where
  "Vector_ensureCapacity ok v minCapacity =
     (if vec_capacity v < minCapacity \<and> ok minCapacity
      then do {
        xs \<leftarrow> rdn (block_of (vec_data v)) 0 (vec_size v);
        temp \<leftarrow> wrn (replicate minCapacity None) 0 xs;
        Some (v\<lparr>vec_capacity := minCapacity, vec_data := Some temp\<rparr>) }
      else Some v)"

definition Vector_grow :: "(nat \<Rightarrow> bool) \<Rightarrow> 'a vector \<Rightarrow> 'a vector option" where
  "Vector_grow ok v =
     (if vec_size v = vec_capacity v
      then Vector_ensureCapacity ok v (u32 (vec_capacity v + vec_increment v))
      else Some v)"

definition Vector_addElement :: "(nat \<Rightarrow> bool) \<Rightarrow> 'a vector \<Rightarrow> 'a \<Rightarrow> 'a vector option" where
  "Vector_addElement ok v obj = do {
     v1 \<leftarrow> Vector_grow ok v;
     if vec_size v1 < vec_capacity v1
     then do { d \<leftarrow> wr (block_of (vec_data v1)) (vec_size v1) (Some obj);
               Some (v1\<lparr>vec_data := Some d, vec_size := vec_size v1 + 1\<rparr>) }
     else Some v1 }"

definition Vector_add :: "(nat \<Rightarrow> bool) \<Rightarrow> 'a vector \<Rightarrow> 'a \<Rightarrow> ('a vector \<times> bool) option" where
  "Vector_add ok v obj = map_option (\<lambda>v1. (v1, True)) (Vector_addElement ok v obj)"

function insert_shift :: "'a option list \<Rightarrow> 'a option \<Rightarrow> nat \<Rightarrow> nat \<Rightarrow> 'a option list option" where
  "insert_shift d newItem i n =
     (if i \<le> n
      then do {
        tmp \<leftarrow> rd d i;
        d1 \<leftarrow> wr d i newItem;
        if i \<noteq> n then insert_shift d1 tmp (Suc i) n else Some d1 }
      else Some d)"
  by pat_completeness auto
termination
  by (relation "measure (\<lambda>(d, x, i, n). Suc n - i)") auto

declare insert_shift.simps [simp del]

definition Vector_insertElementAt ::
  "(nat \<Rightarrow> bool) \<Rightarrow> 'a vector \<Rightarrow> 'a \<Rightarrow> nat \<Rightarrow> 'a vector option" where
  "Vector_insertElementAt ok v obj index =
     (if index = vec_size v then Vector_addElement ok v obj
      else if vec_size v < index then Some v
      else do {
        v1 \<leftarrow> Vector_grow ok v;
        if vec_size v1 < vec_capacity v1
        then do { d \<leftarrow> insert_shift (block_of (vec_data v1)) (Some obj) index (vec_size v1);
                  Some (v1\<lparr>vec_data := Some d, vec_size := vec_size v1 + 1\<rparr>) }
        else Some v1 })"

section \<open>Removal and update\<close>

text \<open>\<open>delete _data[i]\<close> for \<open>i\<close> from \<open>from\<close> up to \<open>n\<close>: the slots keep no valid pointer.\<close>

function delete_range :: "'a option list \<Rightarrow> nat \<Rightarrow> nat \<Rightarrow> 'a option list option" where
  "delete_range d i n =
     (if i < n then do { d1 \<leftarrow> wr d i None; delete_range d1 (Suc i) n } else Some d)"
  by pat_completeness auto
termination
  by (relation "measure (\<lambda>(d, i, n). n - i)") auto

declare delete_range.simps [simp del]

definition Vector_removeAllElements :: "'a vector \<Rightarrow> 'a vector option" where
  "Vector_removeAllElements v = (case vec_data v of
     None \<Rightarrow> (if vec_size v = 0 then Some v else None)
   | Some d \<Rightarrow> do { d1 \<leftarrow> delete_range d 0 (vec_size v);
                    Some (v\<lparr>vec_data := Some d1, vec_size := 0\<rparr>) })"

definition Vector_removeElementAt :: "'a vector \<Rightarrow> nat \<Rightarrow> 'a vector option" where
  "Vector_removeElementAt v index =
     (if vec_size v \<le> index then Some v
      else do {
        d \<leftarrow> wr (block_of (vec_data v)) index None;
        d1 \<leftarrow> shift_down d (index + 1) (vec_size v);
        Some (v\<lparr>vec_data := Some d1, vec_size := vec_size v - 1\<rparr>) })"

definition Vector_remove :: "'a vector \<Rightarrow> nat \<Rightarrow> 'a vector option" where
  "Vector_remove v index = Vector_removeElementAt v index"

definition Vector_removeElement :: "'a vector \<Rightarrow> 'a \<Rightarrow> ('a vector \<times> bool) option" where
  "Vector_removeElement v obj = do {
     i \<leftarrow> indexOf_loop (block_of (vec_data v)) obj 0 (vec_size v);
     if 0 \<le> i then map_option (\<lambda>v1. (v1, True)) (Vector_removeElementAt v (nat i))
     else Some (v, False) }"

definition Vector_setElementAt :: "'a vector \<Rightarrow> 'a \<Rightarrow> nat \<Rightarrow> 'a vector option" where
  "Vector_setElementAt v obj index =
     (if vec_size v \<le> index then Some v
      else do {
        x \<leftarrow> vec_deref (block_of (vec_data v)) index;
        d \<leftarrow> wr (block_of (vec_data v)) index (Some obj);
        Some (v\<lparr>vec_data := Some d\<rparr>) })"

definition Vector_setSize :: "(nat \<Rightarrow> bool) \<Rightarrow> 'a vector \<Rightarrow> nat \<Rightarrow> 'a vector option" where
  "Vector_setSize ok v newSize =
     (if vec_capacity v < newSize then Vector_ensureCapacity ok v newSize
      else if newSize < vec_size v
      then do { d \<leftarrow> delete_range (block_of (vec_data v)) newSize (vec_size v);
                Some (v\<lparr>vec_data := Some d, vec_size := newSize\<rparr>) }
      else Some v)"

definition Vector_trimToSize :: "(nat \<Rightarrow> bool) \<Rightarrow> 'a vector \<Rightarrow> 'a vector option" where
  "Vector_trimToSize ok v =
     (if vec_size v \<noteq> vec_capacity v \<and> ok (vec_size v)
      then do {
        xs \<leftarrow> rdn (block_of (vec_data v)) 0 (vec_size v);
        Some (v\<lparr>vec_data := Some xs, vec_capacity := vec_size v\<rparr>) }
      else Some v)"

section \<open>Copy and move\<close>

function copy_elements :: "'a option list \<Rightarrow> 'a option list \<Rightarrow> nat \<Rightarrow> nat \<Rightarrow> 'a option list option" where
  "copy_elements d src i n =
     (if i < n
      then do { x \<leftarrow> vec_deref src i; d1 \<leftarrow> wr d i (Some x); copy_elements d1 src (Suc i) n }
      else Some d)"
  by pat_completeness auto
termination
  by (relation "measure (\<lambda>(d, src, i, n). n - i)") auto

declare copy_elements.simps [simp del]

definition Vector_copyFrom :: "(nat \<Rightarrow> bool) \<Rightarrow> 'a vector \<Rightarrow> 'a vector \<Rightarrow> 'a vector option" where
  "Vector_copyFrom ok v rhv = do {
     _ \<leftarrow> (if vec_data v \<noteq> None then Vector_removeAllElements v else Some v);
     if ok (vec_capacity rhv)
     then do {
       d \<leftarrow> copy_elements (replicate (vec_capacity rhv) None) (block_of (vec_data rhv)) 0 (vec_size rhv);
       Some \<lparr>vec_size = vec_size rhv, vec_capacity = vec_capacity rhv,
             vec_increment = vec_increment rhv, vec_data = Some d\<rparr> }
     else Some \<lparr>vec_size = 0, vec_capacity = 0, vec_increment = 0, vec_data = None\<rparr> }"

definition Vector_move :: "'a vector \<Rightarrow> 'a vector \<Rightarrow> ('a vector \<times> 'a vector) option" where
  "Vector_move v other = do {
     _ \<leftarrow> (if vec_data v \<noteq> None then Vector_removeAllElements v else Some v);
     Some (other, \<lparr>vec_size = 0, vec_capacity = 0, vec_increment = 0, vec_data = None\<rparr>) }"

section \<open>Insertion sort\<close>

text \<open>The inner loop; the last argument is \<open>i + 1\<close>, so 0 stands for \<open>i = -1\<close>.\<close>

fun sort_inner :: "('a \<Rightarrow> 'a \<Rightarrow> int) \<Rightarrow> 'a option list \<Rightarrow> 'a option \<Rightarrow> nat \<Rightarrow> ('a option list \<times> nat) option" where
  "sort_inner cmp d key 0 = Some (d, 0)"
| "sort_inner cmp d key (Suc i) = do {
     p \<leftarrow> rd d i;
     x \<leftarrow> p;
     k \<leftarrow> key;
     if 0 < cmp x k
     then do { d1 \<leftarrow> wr d (Suc i) p; sort_inner cmp d1 key i }
     else Some (d, Suc i) }"

function sort_outer :: "('a \<Rightarrow> 'a \<Rightarrow> int) \<Rightarrow> 'a option list \<Rightarrow> nat \<Rightarrow> nat \<Rightarrow> 'a option list option" where
  "sort_outer cmp d j n =
     (if j < n
      then do {
        key \<leftarrow> rd d j;
        (d1, i1) \<leftarrow> sort_inner cmp d key j;
        d2 \<leftarrow> wr d1 i1 key;
        sort_outer cmp d2 (Suc j) n }
      else Some d)"
  by pat_completeness auto
termination
  by (relation "measure (\<lambda>(cmp, d, j, n). n - j)") auto

declare sort_outer.simps [simp del]

definition Vector_sort :: "('a \<Rightarrow> 'a \<Rightarrow> int) \<Rightarrow> 'a vector \<Rightarrow> 'a vector option" where
  "Vector_sort compareFunction v = (case vec_data v of
     None \<Rightarrow> (if vec_size v \<le> 1 then Some v else None)
   | Some d \<Rightarrow> do { d1 \<leftarrow> sort_outer compareFunction d 1 (vec_size v);
                    Some (v\<lparr>vec_data := Some d1\<rparr>) })"

end
