(* ===== verification/WVectorProps.thy ===== *)
theory WVectorProps
  imports WVector "HOL-Library.Multiset"
begin

text \<open>
  \<open>Vector\<close> refines finite lists: the representation invariant, and each method as the
  list operation it stands for. \<open>sort\<close> gives a sorted permutation for every comparison
  function that is a total preorder.
\<close>

section \<open>Invariant and abstraction\<close>

definition vec_wf :: "'a vector \<Rightarrow> bool" where
  "vec_wf v = (case vec_data v of
     None \<Rightarrow> vec_size v = 0 \<and> vec_capacity v = 0
   | Some d \<Rightarrow> vec_size v \<le> vec_capacity v \<and> vec_capacity v = length d
       \<and> None \<notin> set (take (vec_size v) d))"

definition vec_list :: "'a vector \<Rightarrow> 'a list" where
  "vec_list v = map the (take (vec_size v) (block_of (vec_data v)))"

lemma map_Some_the: "None \<notin> set xs \<Longrightarrow> map Some (map the xs) = xs"
  by (induction xs) auto

lemma vec_rep:
  assumes "vec_wf v" and "vec_data v = Some d"
  shows "d = map Some (vec_list v) @ drop (vec_size v) d" and "length (vec_list v) = vec_size v"
    and "length d = vec_capacity v" and "vec_size v \<le> vec_capacity v"
proof -
  have "map Some (vec_list v) = take (vec_size v) d"
    unfolding vec_list_def using assms by (subst map_Some_the) (auto simp: vec_wf_def)
  then show "d = map Some (vec_list v) @ drop (vec_size v) d" by simp
qed (use assms in \<open>auto simp: vec_list_def vec_wf_def\<close>)

lemma vec_take: "vec_wf v \<Longrightarrow> vec_data v = Some d \<Longrightarrow> take (vec_size v) d = map Some (vec_list v)"
  unfolding vec_list_def by (subst map_Some_the) (auto simp: vec_wf_def)

lemma vec_rep_None: "vec_wf v \<Longrightarrow> vec_data v = None \<Longrightarrow> vec_list v = [] \<and> vec_size v = 0 \<and> vec_capacity v = 0"
  by (simp add: vec_wf_def vec_list_def)

lemma length_vec_list [simp]: "vec_wf v \<Longrightarrow> length (vec_list v) = vec_size v"
  by (cases "vec_data v") (auto simp: vec_rep vec_rep_None)

lemma vec_empty:
  "vec_wf \<lparr>vec_size = 0, vec_capacity = 0, vec_increment = 0, vec_data = None\<rparr>"
  "vec_list \<lparr>vec_size = 0, vec_capacity = 0, vec_increment = 0, vec_data = None\<rparr> = []"
  by (simp_all add: vec_wf_def vec_list_def)

lemma vec_repI:
  assumes "vec_data v = Some d" and "d = map Some xs @ r" and "length xs = vec_size v"
    and "length d = vec_capacity v"
  shows "vec_wf v \<and> vec_list v = xs"
  using assms by (auto simp: vec_wf_def vec_list_def)

lemma vec_deref_map: "i < length xs \<Longrightarrow> vec_deref (map Some xs @ r) i = Some (xs ! i)"
  by (simp add: vec_deref_def rd_def nth_append)

lemma vec_deref_list: "vec_wf v \<Longrightarrow> i < vec_size v \<Longrightarrow>
    vec_deref (block_of (vec_data v)) i = Some (vec_list v ! i)"
proof (cases "vec_data v")
  case (Some d)
  assume v: "vec_wf v" "i < vec_size v"
  then have "vec_deref (map Some (vec_list v) @ drop (vec_size v) d) i = Some (vec_list v ! i)"
    by (intro vec_deref_map) simp
  with Some show ?thesis by (simp only: vec_rep(1) [OF v(1) Some, symmetric] block_of_simps)
qed (simp add: vec_rep_None)

section \<open>The loops on blocks\<close>

lemma indexOf_loop_spec:
  assumes "i \<le> length xs"
  shows "indexOf_loop (map Some xs @ r) x i (length xs) =
    Some (case first_index (drop i xs) x of None \<Rightarrow> -1 | Some k \<Rightarrow> int (i + k))"
  using assms
proof (induction "length xs - i" arbitrary: i)
  case 0
  then show ?case by (simp add: indexOf_loop.simps [of _ _ i])
next
  case (Suc m)
  then have i: "i < length xs" by simp
  have eq: "drop i xs = xs ! i # drop (Suc i) xs" using i by (rule drop_nth_Cons)
  have IH: "indexOf_loop (map Some xs @ r) x (Suc i) (length xs) =
      Some (case first_index (drop (Suc i) xs) x of None \<Rightarrow> -1 | Some k \<Rightarrow> int (Suc i + k))"
    using Suc i by simp
  show ?case
    unfolding indexOf_loop.simps [of _ _ i] eq using i IH
    by (auto simp: vec_deref_map split: option.splits)
qed

lemma lastIndexOf_down_spec:
  "n \<le> length xs \<Longrightarrow> \<exists>r. lastIndexOf_down (map Some xs @ rest) x n = Some r \<and>
    (r = -1 \<and> x \<notin> set (take n xs) \<or>
     (\<exists>k<n. r = int k \<and> xs ! k = x \<and> x \<notin> set (take (n - Suc k) (drop (Suc k) xs))))"
proof (induction n)
  case (Suc n)
  then have t: "take (Suc n) xs = take n xs @ [xs ! n]" by (simp add: take_Suc_conv_app_nth)
  show ?case
  proof (cases "xs ! n = x")
    case True
    with Suc.prems show ?thesis by (auto simp: vec_deref_map)
  next
    case False
    from Suc obtain r where r: "lastIndexOf_down (map Some xs @ rest) x n = Some r"
      "r = -1 \<and> x \<notin> set (take n xs) \<or>
       (\<exists>k<n. r = int k \<and> xs ! k = x \<and> x \<notin> set (take (n - Suc k) (drop (Suc k) xs)))" by auto
    have "x \<notin> set (take (Suc n - Suc k) (drop (Suc k) xs))"
      if "k < n" "x \<notin> set (take (n - Suc k) (drop (Suc k) xs))" for k
    proof -
      have "take (Suc n - Suc k) (drop (Suc k) xs) = take (n - Suc k) (drop (Suc k) xs) @ [xs ! n]"
        using that(1) Suc.prems take_Suc_conv_app_nth [of "n - Suc k" "drop (Suc k) xs"]
        by (simp add: Suc_diff_Suc)
      with that(2) False show ?thesis by simp
    qed
    note k = this
    have eq: "lastIndexOf_down (map Some xs @ rest) x (Suc n) = Some r"
      using r(1) Suc.prems False by (simp add: vec_deref_map)
    from r(2) show ?thesis
    proof (elim disjE exE conjE)
      assume "r = -1" "x \<notin> set (take n xs)"
      with eq t False show ?thesis by simp
    next
      fix j assume "j < n" "r = int j" "xs ! j = x" "x \<notin> set (take (n - Suc j) (drop (Suc j) xs))"
      with eq k [of j] show ?thesis by (intro exI [of _ r] conjI disjI2 exI [of _ j]) auto
    qed
  qed
qed simp

lemma insert_shift_spec:
  "i \<le> n \<Longrightarrow> n < length d \<Longrightarrow>
    insert_shift d x i n = Some (take i d @ x # take (n - i) (drop i d) @ drop (Suc n) d)"
proof (induction "n - i" arbitrary: i d x)
  case 0
  then show ?case
    by (simp add: insert_shift.simps [of d x i i] rd_def wr_def upd_conv_take_nth_drop)
next
  case (Suc m)
  then have i: "i < n" by simp
  have "insert_shift (d[i := x]) (d ! i) (Suc i) n =
      Some (take (Suc i) (d[i := x]) @ d ! i # take (n - Suc i) (drop (Suc i) d) @ drop (Suc n) d)"
    using Suc i by simp
  moreover have "take (Suc i) (d[i := x]) = take i d @ [x]"
    using i Suc by (simp add: take_Suc_conv_app_nth)
  moreover have "take (n - i) (drop i d) = d ! i # take (n - Suc i) (drop (Suc i) d)"
    using i Suc by (simp add: drop_nth_Cons [of i d] take_Cons' Suc_diff_Suc)
  ultimately show ?case
    using i Suc.prems by (simp add: insert_shift.simps [of d x i n] rd_def wr_def)
qed

lemma delete_range_spec:
  "i \<le> n \<Longrightarrow> n \<le> length d \<Longrightarrow> delete_range d i n = Some (take i d @ replicate (n - i) None @ drop n d)"
proof (induction "n - i" arbitrary: i d)
  case 0
  then show ?case by (simp add: delete_range.simps [of d i i])
next
  case (Suc m)
  then have i: "i < n" by simp
  have "delete_range (d[i := None]) (Suc i) n =
      Some (take (Suc i) (d[i := None]) @ replicate (n - Suc i) None @ drop n d)"
    using Suc i by simp
  moreover have "take (Suc i) (d[i := None]) = take i d @ [None]"
    using i Suc by (simp add: take_Suc_conv_app_nth)
  moreover have "replicate (n - i) (None :: 'a option) = None # replicate (n - Suc i) None"
    using i by (simp add: Suc_diff_Suc flip: replicate_Suc)
  ultimately show ?case
    using i Suc.prems by (simp add: delete_range.simps [of d i n] wr_def)
qed

lemma copy_elements_spec:
  "i \<le> length xs \<Longrightarrow> length xs \<le> length d \<Longrightarrow> take i d = map Some (take i xs) \<Longrightarrow>
    copy_elements d (map Some xs @ r) i (length xs) = Some (map Some xs @ drop (length xs) d)"
proof (induction "length xs - i" arbitrary: i d)
  case 0
  then show ?case
    using append_take_drop_id [of i d] by (simp add: copy_elements.simps [of d _ i])
next
  case (Suc m)
  then have i: "i < length xs" by simp
  have "take (Suc i) (d[i := Some (xs ! i)]) = map Some (take (Suc i) xs)"
    using i Suc by (simp add: take_Suc_conv_app_nth)
  then have "copy_elements (d[i := Some (xs ! i)]) (map Some xs @ r) (Suc i) (length xs) =
      Some (map Some xs @ drop (length xs) d)"
    using Suc i by simp
  then show ?case
    using i Suc.prems by (simp add: copy_elements.simps [of d _ i] vec_deref_map wr_def)
qed

section \<open>Operations as list operations\<close>

lemma Vector_new_spec: "vec_wf (Vector_new ok c i)" "vec_list (Vector_new ok c i) = []"
  by (auto simp: Vector_new_def vec_wf_def vec_list_def)

lemma Vector_elementAt_spec:
  "vec_wf v \<Longrightarrow> Vector_elementAt v i = (if i < vec_size v then Some (vec_list v ! i) else None)"
  using vec_deref_list [of v i] vec_rep_None [of v] by (auto simp: Vector_elementAt_def)

lemma vec_size_pos: "vec_wf v \<Longrightarrow> vec_list v \<noteq> [] \<Longrightarrow> 0 < vec_size v"
  by (metis length_greater_0_conv length_vec_list)

lemma Vector_ends_spec:
  "vec_wf v \<Longrightarrow> vec_list v \<noteq> [] \<Longrightarrow> Vector_firstElement v = Some (hd (vec_list v))"
  "vec_wf v \<Longrightarrow> vec_list v \<noteq> [] \<Longrightarrow> Vector_lastElement v = Some (last (vec_list v))"
  using vec_deref_list [of v 0] vec_deref_list [of v "vec_size v - 1"] vec_rep_None [of v]
    vec_size_pos [of v]
  by (auto simp: Vector_firstElement_def Vector_lastElement_def hd_conv_nth last_conv_nth)

lemma Vector_indexOf_eq:
  assumes "vec_wf v"
  shows "Vector_indexOf v x =
    Some (case first_index (vec_list v) x of None \<Rightarrow> -1 | Some k \<Rightarrow> int k)"
proof (cases "vec_data v")
  case None
  then show ?thesis using vec_rep_None [OF assms None]
    by (simp add: Vector_indexOf_def indexOf_loop.simps)
next
  case (Some d)
  from vec_rep [OF assms Some] have r: "d = map Some (vec_list v) @ drop (vec_size v) d"
    "length (vec_list v) = vec_size v" by auto
  have "indexOf_loop (map Some (vec_list v) @ drop (vec_size v) d) x 0 (length (vec_list v)) =
      Some (case first_index (drop 0 (vec_list v)) x of None \<Rightarrow> -1 | Some k \<Rightarrow> int (0 + k))"
    by (rule indexOf_loop_spec) simp
  then show ?thesis using Some by (auto simp: Vector_indexOf_def r(2) simp flip: r(1) split: option.splits)
qed

lemma Vector_grow_spec:
  assumes "vec_wf v"
  shows "\<exists>v1. Vector_grow ok v = Some v1 \<and> vec_wf v1 \<and> vec_list v1 = vec_list v
    \<and> vec_size v1 = vec_size v \<and> vec_increment v1 = vec_increment v
    \<and> (vec_size v < vec_capacity v \<or>
        (ok (vec_capacity v + vec_increment v) \<and> 0 < vec_increment v
          \<and> vec_capacity v + vec_increment v < 4294967296) \<longrightarrow> vec_size v1 < vec_capacity v1)"
proof -
  have ens: "\<exists>v1. Vector_ensureCapacity ok v m = Some v1 \<and> vec_wf v1 \<and> vec_list v1 = vec_list v
      \<and> vec_size v1 = vec_size v \<and> vec_increment v1 = vec_increment v
      \<and> (vec_capacity v < m \<and> ok m \<longrightarrow> vec_capacity v1 = m)" for m
  proof (cases "vec_capacity v < m \<and> ok m")
    case True
    let ?n = "vec_size v" and ?xs = "map Some (vec_list v)"
    have xs: "rdn (block_of (vec_data v)) 0 ?n = Some ?xs"
    proof (cases "vec_data v")
      case None
      with vec_rep_None [OF assms] show ?thesis by (simp add: rdn_def)
    next
      case (Some d)
      from vec_rep(3,4) [OF assms Some] vec_take [OF assms Some]
      have "?n \<le> length d" "take ?n d = ?xs" by auto
      with Some show ?thesis by (simp add: rdn_def)
    qed
    have n: "?n \<le> vec_capacity v" using assms by (auto simp: vec_wf_def split: option.splits)
    let ?d = "?xs @ replicate (m - ?n) None"
    have "wrn (replicate m None) 0 ?xs = Some ?d"
      using True n assms by (simp add: wrn_def)
    then have "Vector_ensureCapacity ok v m = Some (v\<lparr>vec_capacity := m, vec_data := Some ?d\<rparr>)"
      using True xs by (simp add: Vector_ensureCapacity_def)
    moreover have "vec_wf (v\<lparr>vec_capacity := m, vec_data := Some ?d\<rparr>)
        \<and> vec_list (v\<lparr>vec_capacity := m, vec_data := Some ?d\<rparr>) = vec_list v"
      by (rule vec_repI [OF _ refl]) (use True n assms in auto)
    ultimately show ?thesis by simp
  qed (use assms in \<open>auto simp: Vector_ensureCapacity_def\<close>)
  have n: "vec_size v \<le> vec_capacity v" using assms by (auto simp: vec_wf_def split: option.splits)
  show ?thesis
  proof (cases "vec_size v = vec_capacity v")
    case True
    with ens [of "u32 (vec_capacity v + vec_increment v)"] show ?thesis
      by (auto simp: Vector_grow_def)
  qed (use assms n in \<open>auto simp: Vector_grow_def\<close>)
qed

definition vec_room :: "(nat \<Rightarrow> bool) \<Rightarrow> 'a vector \<Rightarrow> bool" where
  "vec_room ok v = (vec_size v < vec_capacity v \<or>
     (ok (vec_capacity v + vec_increment v) \<and> 0 < vec_increment v
       \<and> vec_capacity v + vec_increment v < 4294967296))"

lemma Vector_addElement_spec:
  assumes "vec_wf v"
  shows "\<exists>v1. Vector_addElement ok v x = Some v1 \<and> vec_wf v1 \<and> vec_increment v1 = vec_increment v
    \<and> (vec_list v1 = vec_list v @ [x] \<or> vec_list v1 = vec_list v \<and> \<not> vec_room ok v)"
proof -
  from Vector_grow_spec [OF assms, of ok] obtain v1 where v1: "Vector_grow ok v = Some v1" "vec_wf v1"
    "vec_list v1 = vec_list v" "vec_size v1 = vec_size v" "vec_increment v1 = vec_increment v"
    "vec_room ok v \<longrightarrow> vec_size v1 < vec_capacity v1" unfolding vec_room_def by blast
  show ?thesis
  proof (cases "vec_size v1 < vec_capacity v1")
    case False
    with v1 show ?thesis by (auto simp: Vector_addElement_def)
  next
    case True
    with v1(2) obtain d where d: "vec_data v1 = Some d" by (cases "vec_data v1") (auto simp: vec_wf_def)
    let ?n = "vec_size v1" and ?d = "d[vec_size v1 := Some x]"
    note r = vec_rep [OF v1(2) d]
    have "?d = map Some (vec_list v1 @ [x]) @ drop (Suc ?n) d"
      using vec_take [OF v1(2) d] r(3,4) True by (simp add: upd_conv_take_nth_drop)
    then have "vec_wf (v1\<lparr>vec_data := Some ?d, vec_size := vec_size v1 + 1\<rparr>) \<and>
        vec_list (v1\<lparr>vec_data := Some ?d, vec_size := vec_size v1 + 1\<rparr>) = vec_list v1 @ [x]"
      by (intro vec_repI [of _ ?d]) (use r(2-) True in auto)
    with v1 d True r(2-) show ?thesis
      by (simp add: Vector_addElement_def wr_def)
  qed
qed

lemma Vector_insertElementAt_spec:
  assumes "vec_wf v"
  shows "\<exists>v1. Vector_insertElementAt ok v x i = Some v1 \<and> vec_wf v1 \<and>
    (vec_list v1 = take i (vec_list v) @ x # drop i (vec_list v) \<and> i \<le> vec_size v
      \<or> vec_list v1 = vec_list v \<and> (vec_size v < i \<or> \<not> vec_room ok v))"
proof -
  consider "i = vec_size v" | "vec_size v < i" | "i < vec_size v" by linarith
  then show ?thesis
  proof cases
    case 1
    with Vector_addElement_spec [OF assms, of ok x] assms show ?thesis
      by (auto simp: Vector_insertElementAt_def)
  next
    case 2
    with assms show ?thesis by (auto simp: Vector_insertElementAt_def)
  next
    case 3
    from Vector_grow_spec [OF assms, of ok] obtain v1 where v1: "Vector_grow ok v = Some v1" "vec_wf v1"
      "vec_list v1 = vec_list v" "vec_size v1 = vec_size v"
      "vec_room ok v \<longrightarrow> vec_size v1 < vec_capacity v1" unfolding vec_room_def by blast
    show ?thesis
    proof (cases "vec_size v1 < vec_capacity v1")
      case False
      with v1 3 show ?thesis by (auto simp: Vector_insertElementAt_def)
    next
      case True
      with v1(2) obtain d where d: "vec_data v1 = Some d" by (cases "vec_data v1") (auto simp: vec_wf_def)
      let ?n = "vec_size v1" and ?xs = "vec_list v1"
      note r = vec_rep [OF v1(2) d]
      let ?d = "take i d @ Some x # take (?n - i) (drop i d) @ drop (Suc ?n) d"
      have "take i d = map Some (take i ?xs)"
        using arg_cong [OF vec_take [OF v1(2) d], of "take i"] 3 v1(4) by (simp add: take_map)
      moreover have "take (?n - i) (drop i d) = map Some (drop i ?xs)"
        using arg_cong [OF vec_take [OF v1(2) d], of "drop i"] 3 v1(4) by (simp add: drop_map drop_take)
      ultimately have eq: "?d = map Some (take i ?xs @ x # drop i ?xs) @ drop (Suc ?n) d" by simp
      have "insert_shift d (Some x) i ?n = Some ?d"
        using r(3) True 3 v1(4) by (intro insert_shift_spec) auto
      with 3 v1 d True have "Vector_insertElementAt ok v x i =
          Some (v1\<lparr>vec_data := Some ?d, vec_size := ?n + 1\<rparr>)"
        by (simp add: Vector_insertElementAt_def)
      moreover have "vec_wf (v1\<lparr>vec_data := Some ?d, vec_size := ?n + 1\<rparr>) \<and>
          vec_list (v1\<lparr>vec_data := Some ?d, vec_size := ?n + 1\<rparr>) = take i ?xs @ x # drop i ?xs"
        by (rule vec_repI [OF _ eq]) (use r(2-) True 3 v1(4) in auto)
      ultimately show ?thesis using v1(3) 3 by auto
    qed
  qed
qed

lemma Vector_removeElementAt_spec:
  assumes "vec_wf v"
  shows "\<exists>v1. Vector_removeElementAt v i = Some v1 \<and> vec_wf v1 \<and>
    vec_list v1 = take i (vec_list v) @ drop (Suc i) (vec_list v)"
proof (cases "vec_size v \<le> i")
  case True
  then show ?thesis using assms by (simp add: Vector_removeElementAt_def)
next
  case False
  with assms obtain d where d: "vec_data v = Some d" by (cases "vec_data v") (auto simp: vec_wf_def)
  let ?n = "vec_size v" and ?xs = "vec_list v"
  note r = vec_rep [OF assms d]
  let ?e = "d[i := None]"
  let ?d = "take i ?e @ take (?n - Suc i) (drop (Suc i) ?e) @ drop (?n - 1) ?e"
  have "shift_down ?e (i + 1) ?n = Some (take (i + 1 - 1) ?e @ take (?n - (i + 1)) (drop (i + 1) ?e) @ drop (?n - 1) ?e)"
    using False r(3,4) by (intro shift_down_spec) auto
  then have rs: "shift_down ?e (Suc i) ?n = Some ?d" by simp
  have "take i d = map Some (take i ?xs)"
    using arg_cong [OF vec_take [OF assms d], of "take i"] False by (simp add: take_map)
  moreover have "take (?n - Suc i) (drop (Suc i) d) = map Some (drop (Suc i) ?xs)"
    using arg_cong [OF vec_take [OF assms d], of "drop (Suc i)"] by (simp add: drop_map drop_take)
  ultimately have eq: "?d = map Some (take i ?xs @ drop (Suc i) ?xs) @ drop (?n - 1) ?e" by simp
  have "Vector_removeElementAt v i = Some (v\<lparr>vec_data := Some ?d, vec_size := ?n - 1\<rparr>)"
    using False d r(3,4) rs by (simp add: Vector_removeElementAt_def wr_def)
  moreover have "vec_wf (v\<lparr>vec_data := Some ?d, vec_size := ?n - 1\<rparr>) \<and>
      vec_list (v\<lparr>vec_data := Some ?d, vec_size := ?n - 1\<rparr>) = take i ?xs @ drop (Suc i) ?xs"
    by (rule vec_repI [OF _ eq]) (use r(2-) False in auto)
  ultimately show ?thesis by auto
qed

lemma Vector_removeElement_spec:
  assumes "vec_wf v"
  shows "\<exists>v1. Vector_removeElement v x = Some (v1, x \<in> set (vec_list v)) \<and> vec_wf v1 \<and>
    vec_list v1 = remove1 x (vec_list v)"
proof (cases "first_index (vec_list v) x")
  case None
  then have "x \<notin> set (vec_list v)" by (simp add: first_index_None)
  with Vector_indexOf_eq [OF assms, of x] None assms show ?thesis
    by (auto simp: Vector_removeElement_def Vector_indexOf_def remove1_idem)
next
  case (Some k)
  from first_index_Some [OF Some] have k: "k < length (vec_list v)" "vec_list v ! k = x"
    "x \<notin> set (take k (vec_list v))" by auto
  have v: "vec_list v = take k (vec_list v) @ x # drop (Suc k) (vec_list v)"
    using id_take_nth_drop [OF k(1)] k(2) by simp
  have "remove1 x (vec_list v) = take k (vec_list v) @ drop (Suc k) (vec_list v)"
    by (subst v) (simp add: remove1_append k(3))
  moreover have "x \<in> set (vec_list v)" using k by auto
  ultimately show ?thesis
    using Vector_indexOf_eq [OF assms, of x] Vector_removeElementAt_spec [OF assms, of k] Some
    by (auto simp: Vector_removeElement_def Vector_indexOf_def)
qed

lemma Vector_setElementAt_spec:
  assumes "vec_wf v"
  shows "\<exists>v1. Vector_setElementAt v x i = Some v1 \<and> vec_wf v1 \<and> vec_list v1 = (vec_list v)[i := x]"
proof (cases "vec_size v \<le> i")
  case True
  then show ?thesis using assms by (simp add: Vector_setElementAt_def list_update_beyond)
next
  case False
  with assms obtain d where d: "vec_data v = Some d" by (cases "vec_data v") (auto simp: vec_wf_def)
  note r = vec_rep [OF assms d]
  have tk: "take (vec_size v) (d[i := Some x]) = map Some ((vec_list v)[i := x])"
    using vec_take [OF assms d] False by (simp add: take_update_swap map_update)
  have eq: "d[i := Some x] = map Some ((vec_list v)[i := x]) @ drop (vec_size v) (d[i := Some x])"
    unfolding tk [symmetric] by simp
  have "Vector_setElementAt v x i = Some (v\<lparr>vec_data := Some (d[i := Some x])\<rparr>)"
    using False d r(3,4) vec_deref_list [OF assms, of i] by (simp add: Vector_setElementAt_def wr_def)
  moreover have "vec_wf (v\<lparr>vec_data := Some (d[i := Some x])\<rparr>) \<and>
      vec_list (v\<lparr>vec_data := Some (d[i := Some x])\<rparr>) = (vec_list v)[i := x]"
    by (rule vec_repI [OF _ eq]) (use r(2-) in auto)
  ultimately show ?thesis by auto
qed

lemma Vector_removeAllElements_spec:
  assumes "vec_wf v"
  shows "\<exists>v1. Vector_removeAllElements v = Some v1 \<and> vec_wf v1 \<and> vec_list v1 = []"
proof (cases "vec_data v")
  case None
  then show ?thesis using vec_rep_None [OF assms None] assms by (simp add: Vector_removeAllElements_def)
next
  case (Some d)
  from vec_rep(3,4) [OF assms Some] delete_range_spec [of 0 "vec_size v" d] Some show ?thesis
    by (auto simp: Vector_removeAllElements_def vec_wf_def vec_list_def)
qed

lemma Vector_copyFrom_spec:
  assumes "vec_wf v" and "vec_wf r"
  shows "\<exists>v1. Vector_copyFrom ok v r = Some v1 \<and> vec_wf v1 \<and>
    vec_list v1 = (if ok (vec_capacity r) then vec_list r else [])"
proof -
  obtain u where u: "(if vec_data v \<noteq> None then Vector_removeAllElements v else Some v) = Some u"
    using Vector_removeAllElements_spec [OF assms(1)] by fastforce
  have rl: "vec_size r \<le> vec_capacity r" using assms(2) by (auto simp: vec_wf_def split: option.splits)
  let ?d = "map Some (vec_list r) @ replicate (vec_capacity r - vec_size r) None"
  have "copy_elements (replicate (vec_capacity r) None) (block_of (vec_data r)) 0 (vec_size r) = Some ?d"
  proof (cases "vec_data r")
    case None
    with vec_rep_None [OF assms(2)] show ?thesis by (simp add: copy_elements.simps)
  next
    case (Some d)
    note rr = vec_rep [OF assms(2) Some]
    have "copy_elements (replicate (vec_capacity r) None) (map Some (vec_list r) @ drop (vec_size r) d) 0
        (length (vec_list r)) = Some (map Some (vec_list r) @ drop (length (vec_list r)) (replicate (vec_capacity r) None))"
      using rr(2) rl by (intro copy_elements_spec) auto
    with Some rr(2) show ?thesis by (simp flip: rr(1))
  qed
  moreover let ?v = "\<lparr>vec_size = vec_size r, vec_capacity = vec_capacity r,
      vec_increment = vec_increment r, vec_data = Some ?d\<rparr>"
  have "vec_wf ?v \<and> vec_list ?v = vec_list r"
    by (rule vec_repI [OF _ refl]) (use assms(2) rl in auto)
  ultimately show ?thesis using u unfolding Vector_copyFrom_def by (simp add: vec_empty)
qed

section \<open>Insertion sort\<close>

definition cmp_order :: "('a \<Rightarrow> 'a \<Rightarrow> int) \<Rightarrow> bool" where
  "cmp_order cmp = ((\<forall>x y. 0 < cmp x y \<longrightarrow> cmp y x \<le> 0)
     \<and> (\<forall>x y z. cmp x y \<le> 0 \<longrightarrow> cmp y z \<le> 0 \<longrightarrow> cmp x z \<le> 0))"

lemma sort_inner_spec:
  "length ys = i \<Longrightarrow> take i d = map Some ys \<Longrightarrow> i < length d \<Longrightarrow>
    \<exists>p\<le>i. sort_inner cmp d (Some k) i =
        Some (take (Suc p) d @ map Some (drop p ys) @ drop (Suc i) d, p)
      \<and> (0 < p \<longrightarrow> cmp (ys ! (p - 1)) k \<le> 0) \<and> (\<forall>q. p \<le> q \<and> q < i \<longrightarrow> 0 < cmp (ys ! q) k)"
proof (induction i arbitrary: d ys)
  case 0
  then show ?case by (cases d) auto
next
  case (Suc i)
  have dn: "d ! i = Some (ys ! i)"
    using arg_cong [OF Suc.prems(2), of "\<lambda>x. x ! i"] Suc.prems(1,3) by simp
  show ?case
  proof (cases "0 < cmp (ys ! i) k")
    case False
    then have "sort_inner cmp d (Some k) (Suc i) = Some (d, Suc i)"
      using dn Suc.prems(3) by (simp add: rd_def)
    with False Suc.prems show ?thesis by (intro exI [of _ "Suc i"]) auto
  next
    case True
    let ?d = "d[Suc i := Some (ys ! i)]"
    have "take i ?d = map Some (take i ys)"
      using arg_cong [OF Suc.prems(2), of "take i"] by (simp add: take_map)
    moreover have "length (take i ys) = i" "i < length ?d" using Suc.prems(1,3) by auto
    ultimately have "length (take i ys) = i" "take i ?d = map Some (take i ys)" "i < length ?d" by auto
    from Suc.IH [OF this] obtain p where p: "p \<le> i"
      "sort_inner cmp ?d (Some k) i = Some (take (Suc p) ?d @ map Some (drop p (take i ys)) @ drop (Suc i) ?d, p)"
      "0 < p \<longrightarrow> cmp (take i ys ! (p - 1)) k \<le> 0" "\<forall>q. p \<le> q \<and> q < i \<longrightarrow> 0 < cmp (take i ys ! q) k"
      by blast
    have "sort_inner cmp d (Some k) (Suc i) = sort_inner cmp ?d (Some k) i"
      using dn True Suc.prems(3) by (simp add: rd_def wr_def)
    moreover have "drop p ys = drop p (take i ys) @ [ys ! i]"
      using p(1) Suc.prems(1) arg_cong [OF take_Suc_conv_app_nth [of i ys], of "drop p"] by simp
    moreover have "drop (Suc i) ?d = Some (ys ! i) # drop (Suc (Suc i)) d"
      using Suc.prems(3) by (simp add: drop_nth_Cons [of "Suc i" ?d])
    moreover have "take (Suc p) ?d = take (Suc p) d" using p(1) by simp
    moreover have "0 < cmp (ys ! q) k" if "p \<le> q" "q < Suc i" for q
      using p(4) that True by (cases "q = i") auto
    moreover have "0 < p \<longrightarrow> cmp (ys ! (p - 1)) k \<le> 0" using p(1,3) by auto
    ultimately show ?thesis using p(1,2) by (intro exI [of _ p]) auto
  qed
qed

lemma sorted_wrt_insert:
  assumes "cmp_order cmp" and "sorted_wrt (\<lambda>x y. cmp x y \<le> 0) ys" and "p \<le> length ys"
    and "0 < p \<longrightarrow> cmp (ys ! (p - 1)) k \<le> 0" and "\<forall>q. p \<le> q \<and> q < length ys \<longrightarrow> 0 < cmp (ys ! q) k"
  shows "sorted_wrt (\<lambda>x y. cmp x y \<le> 0) (take p ys @ k # drop p ys)"
proof -
  have tr: "cmp x z \<le> 0" if "cmp x y \<le> 0" "cmp y z \<le> 0" for x y z
    using assms(1) that unfolding cmp_order_def by blast
  have lo: "cmp x k \<le> 0" if "x \<in> set (take p ys)" for x
  proof -
    from that obtain i where i: "i < p" "x = ys ! i" using assms(3) by (auto simp: in_set_conv_nth)
    show ?thesis
    proof (cases "i = p - 1")
      case True
      with i assms(4) show ?thesis by auto
    next
      case False
      with i assms(3) have "i < p - 1" "p - 1 < length ys" by auto
      then have "cmp x (ys ! (p - 1)) \<le> 0"
        using assms(2) i(2) by (simp add: sorted_wrt_iff_nth_less)
      with tr i assms(4) show ?thesis by (metis gr_zeroI not_less_zero)
    qed
  qed
  have hi: "cmp k x \<le> 0" if "x \<in> set (drop p ys)" for x
  proof -
    from that obtain i where "i < length ys - p" "x = ys ! (p + i)" by (auto simp: in_set_conv_nth)
    then have "0 < cmp x k" using assms(5) by simp
    then show ?thesis using assms(1) unfolding cmp_order_def by blast
  qed
  have "sorted_wrt (\<lambda>x y. cmp x y \<le> 0) (take p ys @ drop p ys)" using assms(2) by simp
  then show ?thesis using lo hi unfolding sorted_wrt_append by auto
qed

lemma mset_middle: "mset ((A @ k # B) @ R) = mset (A @ B) + {#k#} + mset R"
  by simp

lemma sort_outer_spec:
  "length xs = n \<Longrightarrow> j \<le> n \<Longrightarrow> 0 < j \<or> n = 0 \<Longrightarrow>
    \<exists>ys. sort_outer cmp (map Some xs @ r) j n = Some (map Some ys @ r) \<and> mset ys = mset xs \<and>
      (cmp_order cmp \<longrightarrow> sorted_wrt (\<lambda>x y. cmp x y \<le> 0) (take j xs) \<longrightarrow>
        sorted_wrt (\<lambda>x y. cmp x y \<le> 0) ys)"
proof (induction "n - j" arbitrary: j xs)
  case 0
  then show ?case by (simp add: sort_outer.simps [of cmp _ j])
next
  case (Suc m)
  then have j: "j < length xs" by simp
  let ?d = "map Some xs @ r" and ?k = "xs ! j" and ?ys = "take j xs"
  have "length ?ys = j" "take j ?d = map Some ?ys" "j < length ?d" using j by (auto simp: take_map)
  from sort_inner_spec [OF this, of cmp ?k] obtain p where p: "p \<le> j"
    "sort_inner cmp ?d (Some ?k) j = Some (take (Suc p) ?d @ map Some (drop p ?ys) @ drop (Suc j) ?d, p)"
    "0 < p \<longrightarrow> cmp (?ys ! (p - 1)) ?k \<le> 0" "\<forall>q. p \<le> q \<and> q < j \<longrightarrow> 0 < cmp (?ys ! q) ?k" by blast
  let ?zs = "take p ?ys @ ?k # drop p ?ys" and ?rest = "drop (Suc j) xs"
  have w: "wr (take (Suc p) ?d @ map Some (drop p ?ys) @ drop (Suc j) ?d) p (Some ?k) =
      Some (map Some (?zs @ ?rest) @ r)"
  proof -
    have "take (Suc p) ?d = map Some (take p ?ys) @ [?d ! p]"
      using p(1) j by (simp add: take_Suc_conv_app_nth take_map nth_append)
    then have eq: "take (Suc p) ?d @ map Some (drop p ?ys) @ drop (Suc j) ?d =
        map Some (take p ?ys) @ ?d ! p # map Some (drop p ?ys) @ map Some ?rest @ r"
      using j by (simp add: drop_map)
    show ?thesis unfolding eq using p(1) j by (simp add: wr_def list_update_append)
  qed
  have step: "sort_outer cmp ?d j n = sort_outer cmp (map Some (?zs @ ?rest) @ r) (Suc j) n"
    using p(2) w j Suc.prems by (simp add: sort_outer.simps [of cmp _ j] rd_def nth_append)
  have ms: "mset (?zs @ ?rest) = mset xs"
  proof -
    have "mset (?zs @ ?rest) = mset (take p ?ys @ drop p ?ys) + {#?k#} + mset ?rest"
      by (rule mset_middle)
    also have "\<dots> = mset (take j xs @ ?k # drop (Suc j) xs)"
      unfolding append_take_drop_id by simp
    finally show ?thesis using id_take_nth_drop [OF j] by simp
  qed
  have "length ?zs = Suc j" using p(1) j by simp
  then have tk: "take (Suc j) (?zs @ ?rest) = ?zs" by (metis append_eq_conv_conj)
  have "m = n - Suc j" "length (?zs @ ?rest) = n" "Suc j \<le> n"
    using Suc.hyps(2) Suc.prems p(1) j by auto
  from Suc.hyps(1) [OF this] obtain ys where ys:
    "sort_outer cmp (map Some (?zs @ ?rest) @ r) (Suc j) n = Some (map Some ys @ r)"
    "mset ys = mset (?zs @ ?rest)"
    "cmp_order cmp \<longrightarrow> sorted_wrt (\<lambda>x y. cmp x y \<le> 0) ?zs \<longrightarrow> sorted_wrt (\<lambda>x y. cmp x y \<le> 0) ys"
    unfolding tk by blast
  have "sorted_wrt (\<lambda>x y. cmp x y \<le> 0) ?zs" if "cmp_order cmp" "sorted_wrt (\<lambda>x y. cmp x y \<le> 0) ?ys"
    using that p j by (intro sorted_wrt_insert) auto
  with ys ms step show ?case by auto
qed

lemma Vector_sort_spec:
  assumes "vec_wf v"
  shows "\<exists>v1. Vector_sort cmp v = Some v1 \<and> vec_wf v1 \<and> mset (vec_list v1) = mset (vec_list v) \<and>
    (cmp_order cmp \<longrightarrow> sorted_wrt (\<lambda>x y. cmp x y \<le> 0) (vec_list v1))"
proof (cases "vec_data v")
  case None
  then show ?thesis using vec_rep_None [OF assms None] assms by (simp add: Vector_sort_def)
next
  case (Some d)
  note r = vec_rep [OF assms Some]
  obtain ys where ys: "sort_outer cmp d 1 (vec_size v) = Some (map Some ys @ drop (vec_size v) d)"
    "mset ys = mset (vec_list v)"
    "cmp_order cmp \<longrightarrow> sorted_wrt (\<lambda>x y. cmp x y \<le> 0) ys"
  proof (cases "vec_size v = 0")
    case True
    with r that [of "[]"] show ?thesis by (simp add: sort_outer.simps)
  next
    case False
    have "sorted_wrt (\<lambda>x y. cmp x y \<le> 0) (take 1 (vec_list v))" by (cases "vec_list v") auto
    with sort_outer_spec [OF r(2), of 1 cmp "drop (vec_size v) d", folded r(1)] False that
    show ?thesis by auto
  qed
  have "length ys = vec_size v" using ys(2) r(2) by (metis size_mset)
  then have "vec_wf (v\<lparr>vec_data := Some (map Some ys @ drop (vec_size v) d)\<rparr>) \<and>
      vec_list (v\<lparr>vec_data := Some (map Some ys @ drop (vec_size v) d)\<rparr>) = ys"
    by (intro vec_repI [OF _ refl]) (use r(3,4) in auto)
  with ys Some show ?thesis by (auto simp: Vector_sort_def)
qed

section \<open>Properties\<close>

definition vec_of :: "'a list \<Rightarrow> 'a vector" where
  "vec_of xs = \<lparr>vec_size = length xs, vec_capacity = length xs, vec_increment = 10, vec_data = Some (map Some xs)\<rparr>"

lemma vec_of_rep: "vec_wf (vec_of xs)" "vec_list (vec_of xs) = xs"
  by (auto simp: vec_of_def vec_wf_def vec_list_def)

text \<open>C6: \<open>Vector\<close> refines finite lists: adding, inserting, removing by index, removing by value
  and overwriting are the list operations of the same name, keep the invariant and never
  leave the array; an index out of range or a refused growth leaves the list unchanged.\<close>

theorem Vector_refines_list:
  assumes "vec_wf v"
  shows "(\<exists>t. Vector_addElement ok v x = Some t \<and> vec_wf t \<and>
      (vec_list t = vec_list v @ [x] \<or> vec_list t = vec_list v \<and> \<not> vec_room ok v))
    \<and> (\<exists>t. Vector_insertElementAt ok v x i = Some t \<and> vec_wf t \<and>
      (vec_list t = take i (vec_list v) @ x # drop i (vec_list v) \<and> i \<le> vec_size v
        \<or> vec_list t = vec_list v \<and> (vec_size v < i \<or> \<not> vec_room ok v)))
    \<and> (\<exists>t. Vector_removeElementAt v i = Some t \<and> vec_wf t \<and>
      vec_list t = take i (vec_list v) @ drop (Suc i) (vec_list v))
    \<and> (\<exists>t. Vector_removeElement v x = Some (t, x \<in> set (vec_list v)) \<and> vec_wf t \<and>
      vec_list t = remove1 x (vec_list v))
    \<and> (\<exists>t. Vector_setElementAt v x i = Some t \<and> vec_wf t \<and> vec_list t = (vec_list v)[i := x])
    \<and> Vector_elementAt v i = (if i < vec_size v then Some (vec_list v ! i) else None)"
  using Vector_addElement_spec [OF assms, of ok x] Vector_insertElementAt_spec [OF assms, of ok x i]
    Vector_removeElementAt_spec [OF assms, of i] Vector_removeElement_spec [OF assms, of x]
    Vector_setElementAt_spec [OF assms, of x i] Vector_elementAt_spec [OF assms, of i]
  by (intro conjI) blast+

theorem Vector_refines_list_witness:
  "\<exists>t. Vector_removeElementAt (vec_of [3, 1, 2::int]) 1 = Some t \<and> vec_wf t \<and> vec_list t = [3, 2]"
  using Vector_refines_list [of "vec_of [3, 1, 2::int]" "\<lambda>_. True" 0 1] by (simp add: vec_of_rep)

text \<open>C7: \<open>sort\<close> terminates with a permutation of the elements, and the result is sorted for every
  comparison function that is a total preorder.\<close>

theorem Vector_sort_sorts:
  assumes "vec_wf v"
  shows "\<exists>t. Vector_sort cmp v = Some t \<and> vec_wf t \<and> mset (vec_list t) = mset (vec_list v) \<and>
    (cmp_order cmp \<longrightarrow> sorted_wrt (\<lambda>x y. cmp x y \<le> 0) (vec_list t))"
  using assms by (rule Vector_sort_spec)

theorem Vector_sort_sorts_witness:
  "\<exists>t. Vector_sort (\<lambda>x y. x - y) (vec_of [3, 1, 2::int]) = Some t \<and> mset (vec_list t) = {#1, 2, 3#} \<and>
    sorted_wrt (\<lambda>x y. x - y \<le> 0) (vec_list t)"
proof -
  have "cmp_order (\<lambda>x y::int. x - y)" by (simp add: cmp_order_def)
  with Vector_sort_sorts [of "vec_of [3, 1, 2::int]" "\<lambda>x y. x - y"] show ?thesis
    by (auto simp: vec_of_rep)
qed

end
