(* ===== verification/WHashMap.thy ===== *)
theory WHashMap
  imports Prelude CLib
begin

text \<open>
  \<open>HashMap\<close> of \<open>Wiring/WHashMap.h\<close>: two parallel arrays searched from the front. The
  arrays are blocks of element values; \<open>dk\<close> and \<open>dv\<close> stand for the values \<open>new K()\<close> and
  \<open>new V()\<close> give, and \<open>ok n\<close> for the allocator's answer to an array of \<open>n\<close> pointers. The
  source does not check that answer, so a refusal is an access through a null pointer.
  \<open>currentIndex\<close> and \<open>size\<close> are 16 bits wide.
\<close>

record ('k, 'v) hashmap =
  hm_keys :: "'k list option"
  hm_values :: "'v list option"
  hm_nil :: 'v
  hm_currentIndex :: nat
  hm_size :: nat
  hm_comparator :: "('k \<Rightarrow> 'k \<Rightarrow> bool) option"

definition HashMap_new :: "('k \<Rightarrow> 'k \<Rightarrow> bool) option \<Rightarrow> 'v \<Rightarrow> ('k, 'v) hashmap" where
  "HashMap_new compare nil = \<lparr>hm_keys = None, hm_values = None, hm_nil = nil,
     hm_currentIndex = 0, hm_size = 0, hm_comparator = compare\<rparr>"

definition HashMap_count :: "('k, 'v) hashmap \<Rightarrow> nat" where
  "HashMap_count m = hm_currentIndex m"

definition HashMap_keyAt :: "('k, 'v) hashmap \<Rightarrow> nat \<Rightarrow> 'k option" where
  "HashMap_keyAt m idx = (if idx < HashMap_count m then rd (block_of (hm_keys m)) idx else None)"

definition HashMap_valueAt :: "('k, 'v) hashmap \<Rightarrow> nat \<Rightarrow> 'v option" where
  "HashMap_valueAt m idx = (if idx < HashMap_count m then rd (block_of (hm_values m)) idx else None)"

text \<open>The comparison of \<open>indexOf\<close>: the callback when there is one, \<open>==\<close> otherwise.\<close>

definition hm_eq :: "('k, 'v) hashmap \<Rightarrow> 'k \<Rightarrow> 'k \<Rightarrow> bool" where
  "hm_eq m key k = (case hm_comparator m of Some c \<Rightarrow> c key k | None \<Rightarrow> key = k)"

function hm_indexOf_loop :: "('k \<Rightarrow> bool) \<Rightarrow> 'k list \<Rightarrow> nat \<Rightarrow> nat \<Rightarrow> int option" where
  "hm_indexOf_loop P ks i n =
     (if i < n
      then do { k \<leftarrow> rd ks i; if P k then Some (int i) else hm_indexOf_loop P ks (Suc i) n }
      else Some (-1))"
  by pat_completeness auto
termination
  by (relation "measure (\<lambda>(P, ks, i, n). n - i)") auto

declare hm_indexOf_loop.simps [simp del]

definition HashMap_indexOf :: "('k, 'v) hashmap \<Rightarrow> 'k \<Rightarrow> int option" where
  "HashMap_indexOf m key = hm_indexOf_loop (hm_eq m key) (block_of (hm_keys m)) 0 (hm_currentIndex m)"

definition HashMap_contains :: "('k, 'v) hashmap \<Rightarrow> 'k \<Rightarrow> bool option" where
  "HashMap_contains m key = map_option (\<lambda>i. 0 \<le> i) (HashMap_indexOf m key)"

definition HashMap_get :: "('k, 'v) hashmap \<Rightarrow> 'k \<Rightarrow> 'v option" where
  "HashMap_get m key = do {
     i \<leftarrow> HashMap_indexOf m key;
     if 0 \<le> i then HashMap_valueAt m (nat i) else Some (hm_nil m) }"

definition HashMap_allocate ::
  "(nat \<Rightarrow> bool) \<Rightarrow> 'k \<Rightarrow> 'v \<Rightarrow> ('k, 'v) hashmap \<Rightarrow> nat \<Rightarrow> ('k, 'v) hashmap option" where
  "HashMap_allocate ok dk dv m newSize =
     (if newSize \<le> hm_size m then Some m
      else if \<not> ok newSize then None
      else do {
        ks \<leftarrow> (case hm_keys m of None \<Rightarrow> Some (replicate (hm_size m) dk) | Some ks \<Rightarrow> rdn ks 0 (hm_size m));
        vs \<leftarrow> (case hm_keys m of None \<Rightarrow> Some (replicate (hm_size m) dv)
               | Some _ \<Rightarrow> rdn (block_of (hm_values m)) 0 (hm_size m));
        Some (m\<lparr>hm_keys := Some (ks @ replicate (newSize - hm_size m) dk),
                hm_values := Some (vs @ replicate (newSize - hm_size m) dv),
                hm_size := u16 newSize\<rparr>) })"

text \<open>The non-const \<open>operator[]\<close>: the map after the call and the index of the value it refers to.\<close>

definition HashMap_ref ::
  "(nat \<Rightarrow> bool) \<Rightarrow> 'k \<Rightarrow> 'v \<Rightarrow> ('k, 'v) hashmap \<Rightarrow> 'k \<Rightarrow> (('k, 'v) hashmap \<times> nat) option" where
  "HashMap_ref ok dk dv m key = do {
     i \<leftarrow> HashMap_indexOf m key;
     if 0 \<le> i then do { _ \<leftarrow> rd (block_of (hm_values m)) (nat i); Some (m, nat i) }
     else do {
       m1 \<leftarrow> (if hm_size m \<le> hm_currentIndex m
              then HashMap_allocate ok dk dv m (hm_currentIndex m + 1) else Some m);
       ks \<leftarrow> wr (block_of (hm_keys m1)) (hm_currentIndex m1) key;
       vs \<leftarrow> wr (block_of (hm_values m1)) (hm_currentIndex m1) (hm_nil m1);
       Some (m1\<lparr>hm_keys := Some ks, hm_values := Some vs,
               hm_currentIndex := u16 (hm_currentIndex m1 + 1)\<rparr>,
             to_u32 (int (u16 (hm_currentIndex m1 + 1)) - 1)) } }"

text \<open>The assignment \<open>map[key] = value\<close>.\<close>

definition HashMap_put ::
  "(nat \<Rightarrow> bool) \<Rightarrow> 'k \<Rightarrow> 'v \<Rightarrow> ('k, 'v) hashmap \<Rightarrow> 'k \<Rightarrow> 'v \<Rightarrow> ('k, 'v) hashmap option" where
  "HashMap_put ok dk dv m key v = do {
     (m1, i) \<leftarrow> HashMap_ref ok dk dv m key;
     vs \<leftarrow> wr (block_of (hm_values m1)) i v;
     Some (m1\<lparr>hm_values := Some vs\<rparr>) }"

definition HashMap_removeAt :: "('k, 'v) hashmap \<Rightarrow> nat \<Rightarrow> ('k, 'v) hashmap option" where
  "HashMap_removeAt m index =
     (if hm_currentIndex m \<le> index then Some m
      else do {
        ks \<leftarrow> shift_down (block_of (hm_keys m)) (index + 1) (hm_size m);
        vs \<leftarrow> shift_down (block_of (hm_values m)) (index + 1) (hm_size m);
        Some (m\<lparr>hm_keys := Some ks, hm_values := Some vs,
                hm_currentIndex := hm_currentIndex m - 1\<rparr>) })"

definition HashMap_remove :: "('k, 'v) hashmap \<Rightarrow> 'k \<Rightarrow> ('k, 'v) hashmap option" where
  "HashMap_remove m key = do {
     index \<leftarrow> HashMap_indexOf m key;
     if 0 \<le> index then HashMap_removeAt m (nat index) else Some m }"

definition HashMap_clear :: "('k, 'v) hashmap \<Rightarrow> ('k, 'v) hashmap" where
  "HashMap_clear m = m\<lparr>hm_keys := None, hm_values := None, hm_currentIndex := 0, hm_size := 0\<rparr>"

function setMultiple_loop ::
  "(nat \<Rightarrow> bool) \<Rightarrow> 'k \<Rightarrow> 'v \<Rightarrow> ('k, 'v) hashmap \<Rightarrow> ('k, 'v) hashmap \<Rightarrow> nat \<Rightarrow> ('k, 'v) hashmap option" where
  "setMultiple_loop ok dk dv m src i =
     (if i < HashMap_count src
      then do {
        k \<leftarrow> HashMap_keyAt src i;
        v \<leftarrow> HashMap_valueAt src i;
        m1 \<leftarrow> HashMap_put ok dk dv m k v;
        setMultiple_loop ok dk dv m1 src (Suc i) }
      else Some m)"
  by pat_completeness auto
termination
  by (relation "measure (\<lambda>(ok, dk, dv, m, src, i). HashMap_count src - i)") auto

declare setMultiple_loop.simps [simp del]

definition HashMap_setMultiple ::
  "(nat \<Rightarrow> bool) \<Rightarrow> 'k \<Rightarrow> 'v \<Rightarrow> ('k, 'v) hashmap \<Rightarrow> ('k, 'v) hashmap \<Rightarrow> ('k, 'v) hashmap option" where
  "HashMap_setMultiple ok dk dv m src = setMultiple_loop ok dk dv m src 0"

definition HashMap_setNullValue :: "('k, 'v) hashmap \<Rightarrow> 'v \<Rightarrow> ('k, 'v) hashmap" where
  "HashMap_setNullValue m nullv = m\<lparr>hm_nil := nullv\<rparr>"

end
