(* ===== verification/WHashMapProps.thy ===== *)
theory WHashMapProps
  imports WHashMap
begin

text \<open>
  \<open>HashMap\<close> refines a finite map from keys to values. The contract of an associative
  store is the locale \<open>assoc_store\<close>; its clients are proved there once, and the map is an
  instance for every comparison that is an equivalence.
\<close>

section \<open>The contract of an associative store\<close>

locale assoc_store =
  fixes inv :: "'s \<Rightarrow> bool"
    and room :: "'s \<Rightarrow> nat"
    and get :: "'s \<Rightarrow> 'k \<Rightarrow> 'v option"
    and put :: "'s \<Rightarrow> 'k \<Rightarrow> 'v \<Rightarrow> 's option"
    and same :: "'k \<Rightarrow> 'k \<Rightarrow> bool"
  assumes put_ok: "inv s \<Longrightarrow> 0 < room s \<Longrightarrow>
      \<exists>t. put s k v = Some t \<and> inv t \<and> room s \<le> Suc (room t) \<and>
        (\<forall>k'. get t k' = (if same k' k then Some v else get s k'))"
begin

text \<open>Storing a list of pairs one after the other: the last pair with an equal key wins.\<close>

fun put_all :: "'s \<Rightarrow> ('k \<times> 'v) list \<Rightarrow> 's option" where
  "put_all s [] = Some s"
| "put_all s ((k, v) # kvs) = put s k v \<bind> (\<lambda>t. put_all t kvs)"

fun last_match :: "('k \<times> 'v) list \<Rightarrow> 'k \<Rightarrow> 'v option" where
  "last_match [] k' = None"
| "last_match ((k, v) # kvs) k' =
     (case last_match kvs k' of Some w \<Rightarrow> Some w | None \<Rightarrow> if same k' k then Some v else None)"

lemma put_all_get:
  "inv s \<Longrightarrow> length kvs \<le> room s \<Longrightarrow>
    \<exists>t. put_all s kvs = Some t \<and> inv t \<and>
      (\<forall>k'. get t k' = (case last_match kvs k' of Some w \<Rightarrow> Some w | None \<Rightarrow> get s k'))"
proof (induction kvs arbitrary: s)
  case Nil
  then show ?case by simp
next
  case (Cons kv kvs)
  obtain k v where kv: "kv = (k, v)" by (cases kv)
  from Cons.prems have "0 < room s" by simp
  from put_ok [OF Cons.prems(1) this, of k v] obtain t where t: "put s k v = Some t" "inv t"
    "room s \<le> Suc (room t)" "\<forall>k'. get t k' = (if same k' k then Some v else get s k')" by blast
  then have "length kvs \<le> room t" using Cons.prems(2) by simp
  from Cons.IH [OF t(2) this] obtain u where "put_all t kvs = Some u" "inv u"
    "\<forall>k'. get u k' = (case last_match kvs k' of Some w \<Rightarrow> Some w | None \<Rightarrow> get t k')" by blast
  with t kv show ?case by (auto split: option.splits)
qed

end

section \<open>Invariant and abstraction\<close>

definition hm_wf :: "('k, 'v) hashmap \<Rightarrow> bool" where
  "hm_wf m = (length (block_of (hm_keys m)) = hm_size m \<and> length (block_of (hm_values m)) = hm_size m
     \<and> (hm_keys m = None \<longleftrightarrow> hm_values m = None)
     \<and> hm_currentIndex m \<le> hm_size m \<and> hm_size m < 65536
     \<and> (\<forall>i<hm_currentIndex m. \<forall>j<i. \<not> hm_eq m (block_of (hm_keys m) ! i) (block_of (hm_keys m) ! j)))"

definition hm_lookup :: "('k, 'v) hashmap \<Rightarrow> 'k \<Rightarrow> 'v option" where
  "hm_lookup m key = map_option snd (find (\<lambda>(k, v). hm_eq m key k)
     (take (hm_currentIndex m) (zip (block_of (hm_keys m)) (block_of (hm_values m)))))"

definition hm_equiv :: "('k, 'v) hashmap \<Rightarrow> bool" where
  "hm_equiv m = ((\<forall>k. hm_eq m k k) \<and> (\<forall>a b. hm_eq m a b \<longrightarrow> hm_eq m b a)
     \<and> (\<forall>a b c. hm_eq m a b \<longrightarrow> hm_eq m b c \<longrightarrow> hm_eq m a c))"

lemma hm_eq_cong: "hm_comparator m' = hm_comparator m \<Longrightarrow> hm_eq m' = hm_eq m"
  by (simp add: hm_eq_def fun_eq_iff)

lemma hm_eq_updates [simp]:
  "hm_eq (m\<lparr>hm_keys := ks\<rparr>) = hm_eq m" "hm_eq (m\<lparr>hm_values := vs\<rparr>) = hm_eq m"
  "hm_eq (m\<lparr>hm_currentIndex := n\<rparr>) = hm_eq m" "hm_eq (m\<lparr>hm_size := n\<rparr>) = hm_eq m"
  "hm_eq (m\<lparr>hm_nil := x\<rparr>) = hm_eq m"
  by (simp_all add: hm_eq_def fun_eq_iff)

lemma hm_indexOf_loop_spec:
  "i \<le> n \<Longrightarrow> n \<le> length ks \<Longrightarrow> (\<forall>j<i. \<not> P (ks ! j)) \<Longrightarrow>
    (\<exists>j<n. hm_indexOf_loop P ks i n = Some (int j) \<and> P (ks ! j) \<and> (\<forall>l<j. \<not> P (ks ! l)))
    \<or> (hm_indexOf_loop P ks i n = Some (-1) \<and> (\<forall>j<n. \<not> P (ks ! j)))"
proof (induction "n - i" arbitrary: i)
  case 0
  then show ?case by (auto simp: hm_indexOf_loop.simps [of P ks i])
next
  case (Suc m)
  then have i: "i < n" by simp
  show ?case
  proof (cases "P (ks ! i)")
    case True
    with i Suc.prems show ?thesis by (auto simp: hm_indexOf_loop.simps [of P ks i] rd_def)
  next
    case False
    then have "\<forall>j<Suc i. \<not> P (ks ! j)" using Suc.prems(3) less_Suc_eq by auto
    with Suc.hyps(1) [of "Suc i"] Suc.hyps(2) i Suc.prems False show ?thesis
      by (simp add: hm_indexOf_loop.simps [of P ks i] rd_def)
  qed
qed

lemma find_zip_nth:
  assumes "n \<le> length ks" and "length vs = length ks"
  shows "j < n \<and> P (ks ! j) \<and> (\<forall>l<j. \<not> P (ks ! l)) \<longrightarrow>
      find (\<lambda>(k, v). P k) (take n (zip ks vs)) = Some (ks ! j, vs ! j)"
    and "(\<forall>l<n. \<not> P (ks ! l)) \<longrightarrow> find (\<lambda>(k, v). P k) (take n (zip ks vs)) = None"
  using assms by (auto simp: find_Some_iff find_None_iff in_set_conv_nth intro!: exI [of _ j])

lemma HashMap_indexOf_cases [consumes 1, case_names absent present]:
  assumes "hm_wf m"
  obtains (absent) "HashMap_indexOf m key = Some (-1)" "hm_lookup m key = None"
      "\<forall>j<hm_currentIndex m. \<not> hm_eq m key (block_of (hm_keys m) ! j)"
  | (present) i where "HashMap_indexOf m key = Some (int i)" "i < hm_currentIndex m"
      "hm_eq m key (block_of (hm_keys m) ! i)"
      "\<forall>j<i. \<not> hm_eq m key (block_of (hm_keys m) ! j)"
      "hm_lookup m key = Some (block_of (hm_values m) ! i)"
proof -
  let ?ks = "block_of (hm_keys m)" and ?vs = "block_of (hm_values m)" and ?n = "hm_currentIndex m"
  have l: "?n \<le> length ?ks" "length ?vs = length ?ks" using assms by (auto simp: hm_wf_def)
  from hm_indexOf_loop_spec [of 0 ?n ?ks "hm_eq m key"] l(1)
  consider "HashMap_indexOf m key = Some (-1)" "\<forall>j<?n. \<not> hm_eq m key (?ks ! j)"
    | j where "j < ?n" "HashMap_indexOf m key = Some (int j)" "hm_eq m key (?ks ! j)"
      "\<forall>l<j. \<not> hm_eq m key (?ks ! l)"
    unfolding HashMap_indexOf_def by auto
  then show thesis
  proof cases
    case 1
    then show thesis using find_zip_nth(2) [OF l, of "hm_eq m key"]
      by (intro absent) (auto simp: hm_lookup_def)
  next
    case (2 j)
    then show thesis using find_zip_nth(1) [OF l, of j "hm_eq m key"]
      by (intro present [of j]) (auto simp: hm_lookup_def)
  qed
qed

lemma HashMap_get_spec:
  assumes "hm_wf m"
  shows "HashMap_get m key = Some (case hm_lookup m key of Some v \<Rightarrow> v | None \<Rightarrow> hm_nil m)"
  using assms
proof (cases rule: HashMap_indexOf_cases [where key = key])
  case absent
  then show ?thesis by (simp add: HashMap_get_def)
next
  case (present i)
  with assms show ?thesis
    by (auto simp: HashMap_get_def HashMap_valueAt_def HashMap_count_def rd_def hm_wf_def)
qed

lemma hm_wf_distinct: "hm_wf m \<Longrightarrow> hm_equiv m \<Longrightarrow> i < hm_currentIndex m \<Longrightarrow> j < hm_currentIndex m \<Longrightarrow>
    hm_eq m (block_of (hm_keys m) ! i) (block_of (hm_keys m) ! j) \<Longrightarrow> i = j"
  unfolding hm_wf_def hm_equiv_def by (metis linorder_neqE_nat)

lemma hm_lookup_SomeI:
  assumes "hm_wf m" and "hm_equiv m" and "i < hm_currentIndex m" and "hm_eq m key (block_of (hm_keys m) ! i)"
  shows "hm_lookup m key = Some (block_of (hm_values m) ! i)"
  using assms(1)
proof (cases rule: HashMap_indexOf_cases [where key = key])
  case absent
  with assms show ?thesis by blast
next
  case (present j)
  have "hm_eq m (block_of (hm_keys m) ! j) (block_of (hm_keys m) ! i)"
    using assms(2,4) present(3) unfolding hm_equiv_def by blast
  with hm_wf_distinct [OF assms(1,2) present(2) assms(3)] present(5) show ?thesis by simp
qed

lemma hm_lookup_NoneI:
  assumes "hm_wf m" and "\<forall>i<hm_currentIndex m. \<not> hm_eq m key (block_of (hm_keys m) ! i)"
  shows "hm_lookup m key = None"
  using assms(1)
proof (cases rule: HashMap_indexOf_cases [where key = key])
  case (present j)
  with assms(2) show ?thesis by blast
qed

lemma hm_keyed [consumes 1, case_names absent present]:
  assumes "hm_wf m"
  obtains (absent) "\<forall>i<hm_currentIndex m. \<not> hm_eq m key (block_of (hm_keys m) ! i)" "hm_lookup m key = None"
  | (present) i where "i < hm_currentIndex m" "hm_eq m key (block_of (hm_keys m) ! i)"
      "hm_lookup m key = Some (block_of (hm_values m) ! i)"
  using assms by (cases rule: HashMap_indexOf_cases [where key = key]) auto

text \<open>Replacing the value at the index of a key.\<close>

lemma hm_update_present:
  assumes "hm_wf m" and "hm_equiv m" and "i < hm_currentIndex m" and "hm_eq m key (block_of (hm_keys m) ! i)"
    and "m1 = m\<lparr>hm_values := Some ((block_of (hm_values m))[i := v])\<rparr>"
  shows "hm_wf m1" and "hm_equiv m1"
    and "hm_lookup m1 k' = (if hm_eq m k' key then Some v else hm_lookup m k')"
proof -
  have i: "i < length (block_of (hm_values m))" using assms(1,3) by (auto simp: hm_wf_def)
  have eq: "hm_eq m1 = hm_eq m" using assms(5) by (intro hm_eq_cong) simp
  have kn: "hm_keys m \<noteq> None" using assms(1,3) by (auto simp: hm_wf_def)
  show wf: "hm_wf m1" using assms(1,5) kn unfolding hm_wf_def eq by simp
  show equiv: "hm_equiv m1" using assms(2) unfolding hm_equiv_def eq .
  show "hm_lookup m1 k' = (if hm_eq m k' key then Some v else hm_lookup m k')"
    using assms(1)
  proof (cases rule: hm_keyed [where key = k'])
    case absent
    then have "\<not> hm_eq m k' key" using assms(2-4) unfolding hm_equiv_def by blast
    moreover have "hm_lookup m1 k' = None"
      using absent assms(5) wf by (intro hm_lookup_NoneI) (simp_all add: eq)
    ultimately show ?thesis using absent by simp
  next
    case (present j)
    have "hm_lookup m1 k' = Some (block_of (hm_values m1) ! j)"
      using present assms(5) by (intro hm_lookup_SomeI [OF wf equiv]) (simp_all add: eq)
    moreover have "hm_eq m k' key \<longleftrightarrow> j = i"
    proof
      assume "hm_eq m k' key"
      then have "hm_eq m (block_of (hm_keys m) ! j) (block_of (hm_keys m) ! i)"
        using assms(2,4) present(2) unfolding hm_equiv_def by blast
      with hm_wf_distinct [OF assms(1,2) present(1) assms(3)] show "j = i" by blast
    next
      assume "j = i"
      with assms(2,4) present(2) show "hm_eq m k' key" unfolding hm_equiv_def by blast
    qed
    ultimately show ?thesis using present(3) i assms(5) by auto
  qed
qed

text \<open>Adding an entry behind the last one.\<close>

lemma hm_append_absent:
  assumes "hm_wf m" and "hm_equiv m" and "\<forall>i<hm_currentIndex m. \<not> hm_eq m key (block_of (hm_keys m) ! i)"
    and "hm_currentIndex m < hm_size m"
    and "m1 = m\<lparr>hm_keys := Some ((block_of (hm_keys m))[hm_currentIndex m := key]),
      hm_values := Some ((block_of (hm_values m))[hm_currentIndex m := v]),
      hm_currentIndex := hm_currentIndex m + 1\<rparr>"
  shows "hm_wf m1" and "hm_equiv m1"
    and "hm_lookup m1 k' = (if hm_eq m k' key then Some v else hm_lookup m k')"
proof -
  let ?n = "hm_currentIndex m"
  let ?ks = "(block_of (hm_keys m))[?n := key]" and ?vs = "(block_of (hm_values m))[?n := v]"
  have n: "?n < length (block_of (hm_keys m))" "?n < length (block_of (hm_values m))"
    using assms(1,4) by (auto simp: hm_wf_def)
  have eq: "hm_eq m1 = hm_eq m" using assms(5) by (intro hm_eq_cong) simp
  have key: "?ks ! ?n = key" and old: "\<And>i. i < ?n \<Longrightarrow> ?ks ! i = block_of (hm_keys m) ! i"
    using n by auto
  have "\<not> hm_eq m (?ks ! i) (?ks ! j)" if "i < Suc ?n" "j < i" for i j
  proof (cases "i = ?n")
    case True
    with that assms(3) key old [of j] show ?thesis by simp
  next
    case False
    with that old [of i] old [of j] assms(1) show ?thesis unfolding hm_wf_def by simp
  qed
  then show wf: "hm_wf m1"
    using assms(1,4,5) unfolding hm_wf_def eq by simp
  show equiv: "hm_equiv m1" using assms(2) unfolding hm_equiv_def eq .
  show "hm_lookup m1 k' = (if hm_eq m k' key then Some v else hm_lookup m k')"
  proof (cases "hm_eq m k' key")
    case True
    have "hm_lookup m1 k' = Some (block_of (hm_values m1) ! ?n)"
      using True n assms(5) by (intro hm_lookup_SomeI [OF wf equiv]) (simp_all add: eq)
    with True n assms(5) show ?thesis by simp
  next
    case False
    show ?thesis using assms(1)
    proof (cases rule: hm_keyed [where key = k'])
      case absent
      then have "\<not> hm_eq m1 k' (block_of (hm_keys m1) ! i)" if "i < hm_currentIndex m1" for i
        using that False assms(5) key old [of i] unfolding eq by (cases "i = ?n") auto
      then have "hm_lookup m1 k' = None" by (intro hm_lookup_NoneI [OF wf]) auto
      with False absent show ?thesis by simp
    next
      case (present j)
      have "hm_lookup m1 k' = Some (block_of (hm_values m1) ! j)"
        using present assms(5) old [of j] by (intro hm_lookup_SomeI [OF wf equiv]) (simp_all add: eq)
      with False present assms(5) show ?thesis by simp
    qed
  qed
qed

text \<open>The operations.\<close>

definition hm_room :: "('k, 'v) hashmap \<Rightarrow> nat" where
  "hm_room m = 65535 - hm_currentIndex m"

lemma HashMap_allocate_spec:
  assumes "hm_wf m" and "\<forall>n. ok n" and "hm_currentIndex m = hm_size m" and "hm_size m < 65535"
  shows "\<exists>m1. HashMap_allocate ok dk dv m (hm_currentIndex m + 1) = Some m1 \<and> hm_wf m1 \<and>
    hm_currentIndex m1 = hm_currentIndex m \<and> hm_nil m1 = hm_nil m \<and>
    hm_comparator m1 = hm_comparator m \<and> hm_currentIndex m1 < hm_size m1 \<and>
    hm_lookup m1 = hm_lookup m \<and>
    (\<forall>i<hm_currentIndex m. block_of (hm_keys m1) ! i = block_of (hm_keys m) ! i)"
proof -
  let ?n = "hm_size m"
  let ?ks = "block_of (hm_keys m)" and ?vs = "block_of (hm_values m)"
  let ?m1 = "m\<lparr>hm_keys := Some (?ks @ [dk]), hm_values := Some (?vs @ [dv]), hm_size := Suc ?n\<rparr>"
  have l: "length ?ks = ?n" "length ?vs = ?n" using assms(1) by (auto simp: hm_wf_def)
  have "HashMap_allocate ok dk dv m (hm_currentIndex m + 1) = Some ?m1"
    using l assms(2-4) by (cases "hm_keys m") (simp_all add: HashMap_allocate_def rdn_def hm_wf_def)
  moreover have "hm_wf ?m1"
    using assms(1,3,4) l by (auto simp: hm_wf_def nth_append)
  moreover have "hm_lookup ?m1 = hm_lookup m"
    using l assms(3) by (simp add: hm_lookup_def fun_eq_iff)
  ultimately show ?thesis using assms(3) l by (auto simp: nth_append)
qed

lemma HashMap_put_spec:
  assumes "hm_wf m" and "hm_equiv m" and "\<forall>n. ok n" and "0 < hm_room m"
  shows "\<exists>t. HashMap_put ok dk dv m key v = Some t \<and> hm_wf t \<and> hm_equiv t \<and>
    hm_comparator t = hm_comparator m \<and> hm_nil t = hm_nil m \<and> hm_room m \<le> Suc (hm_room t) \<and>
    (\<forall>k'. hm_lookup t k' = (if hm_eq m k' key then Some v else hm_lookup m k'))"
  using assms(1)
proof (cases rule: HashMap_indexOf_cases [where key = key])
  case (present i)
  let ?t = "m\<lparr>hm_values := Some ((block_of (hm_values m))[i := v])\<rparr>"
  have "i < length (block_of (hm_values m))" using present(2) assms(1) by (auto simp: hm_wf_def)
  then have "HashMap_put ok dk dv m key v = Some ?t"
    using present(1) by (simp add: HashMap_put_def HashMap_ref_def rd_def wr_def)
  with hm_update_present [OF assms(1,2) present(2,3) refl, of v] show ?thesis
    by (simp add: hm_room_def)
next
  case absent
  obtain m1 where m1: "(if hm_size m \<le> hm_currentIndex m
        then HashMap_allocate ok dk dv m (hm_currentIndex m + 1) else Some m) = Some m1"
      "hm_wf m1" "hm_currentIndex m1 = hm_currentIndex m" "hm_nil m1 = hm_nil m"
      "hm_comparator m1 = hm_comparator m" "hm_currentIndex m1 < hm_size m1"
      "hm_lookup m1 = hm_lookup m"
      "\<forall>i<hm_currentIndex m. block_of (hm_keys m1) ! i = block_of (hm_keys m) ! i"
  proof (cases "hm_size m \<le> hm_currentIndex m")
    case True
    with assms(1) have "hm_currentIndex m = hm_size m" by (simp add: hm_wf_def)
    moreover from this have "hm_size m < 65535" using assms(4) by (simp add: hm_room_def)
    ultimately show thesis
      using HashMap_allocate_spec [OF assms(1,3), of dk dv] True that by auto
  next
    case False
    with assms(1) that show thesis by simp
  qed
  have eq: "hm_eq m1 = hm_eq m" using m1(5) by (rule hm_eq_cong)
  let ?n = "hm_currentIndex m1"
  let ?t = "m1\<lparr>hm_keys := Some ((block_of (hm_keys m1))[?n := key]),
      hm_values := Some ((block_of (hm_values m1))[?n := v]), hm_currentIndex := ?n + 1\<rparr>"
  have n: "?n < length (block_of (hm_keys m1))" "?n < length (block_of (hm_values m1))"
      "?n + 1 < 65536"
    using m1(2,6) by (auto simp: hm_wf_def)
  then have "HashMap_put ok dk dv m key v = Some ?t"
    using absent(1) m1(1) by (simp add: HashMap_put_def HashMap_ref_def wr_def to_u32_id)
  moreover have "hm_equiv m1" using assms(2) unfolding hm_equiv_def eq .
  moreover have "\<forall>i<?n. \<not> hm_eq m1 key (block_of (hm_keys m1) ! i)"
    using absent(3) m1(3,8) unfolding eq by simp
  note hm_append_absent [OF m1(2) calculation(2) this m1(6) refl, of v]
  ultimately show ?thesis using m1(3-5,7) by (simp add: hm_room_def eq)
qed

lemma HashMap_removeAt_spec:
  assumes "hm_wf m" and "hm_equiv m" and "i < hm_currentIndex m"
  shows "\<exists>t. HashMap_removeAt m i = Some t \<and> hm_wf t \<and> hm_equiv t \<and>
    hm_comparator t = hm_comparator m \<and> hm_nil t = hm_nil m \<and>
    hm_currentIndex t = hm_currentIndex m - 1 \<and>
    (\<forall>k'. hm_lookup t k' = (if hm_eq m k' (block_of (hm_keys m) ! i) then None else hm_lookup m k'))"
proof -
  let ?ks = "block_of (hm_keys m)" and ?vs = "block_of (hm_values m)" and ?n = "hm_currentIndex m"
  have l: "length ?ks = hm_size m" "length ?vs = hm_size m" "?n \<le> hm_size m"
    using assms(1) by (auto simp: hm_wf_def)
  obtain ks vs where s: "shift_down ?ks (i + 1) (hm_size m) = Some ks"
      "shift_down ?vs (i + 1) (hm_size m) = Some vs"
    using l assms(3) shift_down_spec [of "i + 1" "hm_size m" ?ks] shift_down_spec [of "i + 1" "hm_size m" ?vs]
    by auto
  have len: "length ks = hm_size m" "length vs = hm_size m"
    using shift_down_nth(1) [of "i + 1" ?ks ks] shift_down_nth(1) [of "i + 1" ?vs vs] s l assms(3) by auto
  define f where "f j = (if j < i then j else Suc j)" for j
  have f: "b < a \<Longrightarrow> f b < f a" "f j \<noteq> i" "j < ?n - 1 \<Longrightarrow> f j < ?n" for a b j
    by (auto simp: f_def)
  have nth: "ks ! j = ?ks ! f j" "vs ! j = ?vs ! f j" if "j < ?n - 1" for j
    using shift_down_nth(2) [of "i + 1" ?ks ks j] shift_down_nth(2) [of "i + 1" ?vs vs j] s l assms(3) that
    by (auto simp: f_def)
  let ?t = "m\<lparr>hm_keys := Some ks, hm_values := Some vs, hm_currentIndex := ?n - 1\<rparr>"
  have t: "HashMap_removeAt m i = Some ?t" using s assms(3) by (simp add: HashMap_removeAt_def)
  have dist: "\<not> hm_eq m (?ks ! a) (?ks ! b)" if "a < ?n" "b < a" for a b
    using assms(1) that unfolding hm_wf_def by blast
  have "\<not> hm_eq m (ks ! a) (ks ! b)" if "a < ?n - 1" "b < a" for a b
    using that dist [of "f a" "f b"] f(1) [OF that(2)] f(3) [OF that(1)] nth(1) [of a] nth(1) [of b] by simp
  then have wf: "hm_wf ?t"
    using len assms(1) le_trans [OF diff_le_self l(3), of 1] unfolding hm_wf_def by simp
  have equiv: "hm_equiv ?t" using assms(2) unfolding hm_equiv_def hm_eq_updates .
  have "hm_lookup ?t k' = (if hm_eq m k' (?ks ! i) then None else hm_lookup m k')" for k'
  proof (cases "hm_eq m k' (?ks ! i)")
    case True
    have "\<not> hm_eq m k' (ks ! j)" if "j < ?n - 1" for j
    proof
      assume "hm_eq m k' (ks ! j)"
      then have "hm_eq m (?ks ! i) (?ks ! f j)"
        using True assms(2) nth(1) [OF that] unfolding hm_equiv_def by metis
      with hm_wf_distinct [OF assms(1,2,3), of "f j"] f(2) [of j] f(3) [OF that] show False by simp
    qed
    then have "hm_lookup ?t k' = None" by (intro hm_lookup_NoneI [OF wf]) simp
    with True show ?thesis by simp
  next
    case False
    show ?thesis using assms(1)
    proof (cases rule: hm_keyed [where key = k'])
      case absent
      have "hm_lookup ?t k' = None"
        using absent(1) f(3) by (intro hm_lookup_NoneI [OF wf]) (simp add: nth)
      with False absent show ?thesis by simp
    next
      case (present j)
      with False have "j \<noteq> i" by auto
      let ?j = "if j < i then j else j - 1"
      have j: "?j < ?n - 1" using present(1) assms(3) \<open>j \<noteq> i\<close> by auto
      have fj: "f ?j = j" using \<open>j \<noteq> i\<close> by (auto simp: f_def)
      have "hm_lookup ?t k' = Some (block_of (hm_values ?t) ! ?j)"
        using present(2) j nth(1) [OF j] unfolding fj by (intro hm_lookup_SomeI [OF wf equiv]) simp_all
      with False present(3) nth(2) [OF j] show ?thesis unfolding fj by simp
    qed
  qed
  with t wf equiv show ?thesis by simp
qed

lemma HashMap_remove_spec:
  assumes "hm_wf m" and "hm_equiv m"
  shows "\<exists>t. HashMap_remove m key = Some t \<and> hm_wf t \<and> hm_equiv t \<and>
    (\<forall>k'. hm_lookup t k' = (if hm_eq m k' key then None else hm_lookup m k'))"
  using assms(1)
proof (cases rule: HashMap_indexOf_cases [where key = key])
  case absent
  have "hm_lookup m k' = None" if "hm_eq m k' key" for k'
    using absent(3) that assms(2) unfolding hm_equiv_def
    by (intro hm_lookup_NoneI [OF assms(1)]) blast
  with absent(1) assms show ?thesis by (auto simp: HashMap_remove_def)
next
  case (present i)
  have "hm_eq m k' (block_of (hm_keys m) ! i) \<longleftrightarrow> hm_eq m k' key" for k'
    using present(3) assms(2) unfolding hm_equiv_def by blast
  with HashMap_removeAt_spec [OF assms present(2)] present(1) show ?thesis
    by (auto simp: HashMap_remove_def)
qed

section \<open>The map as an associative store\<close>

definition cmp_eq :: "('k \<Rightarrow> 'k \<Rightarrow> bool) option \<Rightarrow> 'k \<Rightarrow> 'k \<Rightarrow> bool" where
  "cmp_eq c a b = (case c of Some f \<Rightarrow> f a b | None \<Rightarrow> a = b)"

lemma hm_eq_cmp_eq: "hm_eq m = cmp_eq (hm_comparator m)"
  by (simp add: hm_eq_def cmp_eq_def fun_eq_iff)

interpretation hm: assoc_store
  "\<lambda>m. hm_wf m \<and> hm_equiv m \<and> hm_comparator m = c" hm_room hm_lookup
  "HashMap_put (\<lambda>_. True) dk dv" "cmp_eq c" for c dk dv
proof (unfold_locales)
  fix s :: "('a, 'b) hashmap" and k v
  assume "hm_wf s \<and> hm_equiv s \<and> hm_comparator s = c" and "0 < hm_room s"
  with HashMap_put_spec [of s "\<lambda>_. True" dk dv k v]
  show "\<exists>t. HashMap_put (\<lambda>_. True) dk dv s k v = Some t \<and>
      (hm_wf t \<and> hm_equiv t \<and> hm_comparator t = c) \<and> hm_room s \<le> Suc (hm_room t) \<and>
      (\<forall>k'. hm_lookup t k' = (if cmp_eq c k' k then Some v else hm_lookup s k'))"
    by (auto simp: hm_eq_cmp_eq)
qed

definition hm_entries :: "('k, 'v) hashmap \<Rightarrow> ('k \<times> 'v) list" where
  "hm_entries m = take (hm_currentIndex m) (zip (block_of (hm_keys m)) (block_of (hm_values m)))"

lemma setMultiple_put_all:
  assumes "hm_wf src" and "i \<le> hm_currentIndex src"
  shows "setMultiple_loop (\<lambda>_. True) dk dv m src i = hm.put_all dk dv m (drop i (hm_entries src))"
  using assms(2)
proof (induction "hm_currentIndex src - i" arbitrary: i m)
  case 0
  then show ?case
    using assms by (simp add: setMultiple_loop.simps [of _ _ _ m src i] HashMap_count_def hm_entries_def)
next
  case (Suc n)
  then have i: "i < hm_currentIndex src" by simp
  have l: "length (block_of (hm_keys src)) = hm_size src" "length (block_of (hm_values src)) = hm_size src"
    "hm_currentIndex src \<le> hm_size src" using assms(1) by (auto simp: hm_wf_def)
  let ?k = "block_of (hm_keys src) ! i" and ?v = "block_of (hm_values src) ! i"
  have "i < length (hm_entries src)" "hm_entries src ! i = (?k, ?v)"
    using i l by (auto simp: hm_entries_def)
  then have d: "drop i (hm_entries src) = (?k, ?v) # drop (Suc i) (hm_entries src)"
    by (simp add: drop_nth_Cons)
  have IH: "setMultiple_loop (\<lambda>_. True) dk dv t src (Suc i) = hm.put_all dk dv t (drop (Suc i) (hm_entries src))"
    for t using Suc i by simp
  show ?case
    unfolding d using i l IH
    by (simp add: setMultiple_loop.simps [of _ _ _ m src i] HashMap_count_def HashMap_keyAt_def
        HashMap_valueAt_def rd_def)
qed

section \<open>Properties\<close>

lemma hm_wf_new: "hm_wf (HashMap_new c nil)"
  by (simp add: hm_wf_def HashMap_new_def)

lemma hm_equiv_new: "hm_equiv (HashMap_new None nil)"
  by (simp add: hm_equiv_def hm_eq_def HashMap_new_def)

text \<open>C8: \<open>HashMap\<close> refines a finite map: after \<open>map[key] = value\<close> the keys equal to \<open>key\<close> map to
  \<open>value\<close>, after \<open>remove(key)\<close> they map to nothing, every other key keeps its value, and the const
  \<open>operator[]\<close> reads the mapping or the null value; for every comparison that is an equivalence.\<close>

theorem HashMap_refines_map:
  assumes "hm_wf m" and "hm_equiv m" and "0 < hm_room m" and "\<forall>n. ok n"
  shows "(\<exists>t. HashMap_put ok dk dv m key v = Some t \<and> hm_wf t \<and> hm_equiv t \<and>
      (\<forall>k'. hm_lookup t k' = (if hm_eq m k' key then Some v else hm_lookup m k')))
    \<and> (\<exists>t. HashMap_remove m key = Some t \<and> hm_wf t \<and> hm_equiv t \<and>
      (\<forall>k'. hm_lookup t k' = (if hm_eq m k' key then None else hm_lookup m k')))
    \<and> HashMap_get m key = Some (case hm_lookup m key of Some v \<Rightarrow> v | None \<Rightarrow> hm_nil m)"
  using HashMap_put_spec [OF assms(1,2,4,3), of dk dv key v] HashMap_remove_spec [OF assms(1,2), of key]
    HashMap_get_spec [OF assms(1), of key]
  by (intro conjI) blast+

theorem HashMap_refines_map_witness:
  "\<exists>t. HashMap_put (\<lambda>_. True) 0 0 (HashMap_new None 0) (5::nat) (1::nat) = Some t \<and> hm_wf t \<and>
    hm_lookup t 5 = Some 1"
proof -
  let ?m = "HashMap_new None 0 :: (nat, nat) hashmap"
  have "hm_wf ?m" "hm_equiv ?m" "0 < hm_room ?m"
    by (simp_all add: hm_wf_new hm_equiv_new) (simp add: hm_room_def HashMap_new_def)
  from HashMap_refines_map [OF this, of "\<lambda>_. True" 0 0 5 1] show ?thesis
    by (auto simp: hm_eq_def HashMap_new_def)
qed

text \<open>C9: \<open>setMultiple\<close> stores every entry of the other map: a key is afterwards mapped to the last
  value stored for an equal key, and the keys it does not mention keep their value.\<close>

theorem HashMap_setMultiple_stores:
  assumes "hm_wf m" and "hm_equiv m" and "hm_wf src" and "HashMap_count src \<le> hm_room m"
  shows "\<exists>t. HashMap_setMultiple (\<lambda>_. True) dk dv m src = Some t \<and> hm_wf t \<and>
    (\<forall>k. hm_lookup t k = (case hm.last_match (hm_comparator m) (hm_entries src) k of
        Some w \<Rightarrow> Some w | None \<Rightarrow> hm_lookup m k))"
proof -
  have "length (hm_entries src) \<le> hm_room m"
    using assms(3,4) by (simp add: hm_entries_def hm_wf_def HashMap_count_def)
  with hm.put_all_get [of m "hm_comparator m" "hm_entries src" dk dv]
    setMultiple_put_all [OF assms(3), of 0 dk dv m] assms(1,2)
  show ?thesis by (auto simp: HashMap_setMultiple_def)
qed

theorem HashMap_setMultiple_stores_witness:
  "\<exists>t. HashMap_setMultiple (\<lambda>_. True) 0 0 (HashMap_new None 0)
      \<lparr>hm_keys = Some [1::nat], hm_values = Some [2::nat], hm_nil = 0, hm_currentIndex = 1, hm_size = 1,
       hm_comparator = None\<rparr> = Some t \<and> hm_lookup t 1 = Some 2"
proof -
  let ?src = "\<lparr>hm_keys = Some [1::nat], hm_values = Some [2::nat], hm_nil = 0, hm_currentIndex = 1, hm_size = 1,
       hm_comparator = None\<rparr>"
  have "hm_wf ?src" by (simp add: hm_wf_def)
  moreover have "HashMap_count ?src \<le> hm_room (HashMap_new None (0::nat) :: (nat, nat) hashmap)"
    by (simp add: HashMap_count_def hm_room_def HashMap_new_def)
  ultimately have "\<exists>t. HashMap_setMultiple (\<lambda>_. True) 0 0 (HashMap_new None 0) ?src = Some t \<and> hm_wf t \<and>
    (\<forall>k. hm_lookup t k = (case hm.last_match (hm_comparator (HashMap_new None (0::nat) :: (nat, nat) hashmap)) (hm_entries ?src) k of
        Some w \<Rightarrow> Some w | None \<Rightarrow> hm_lookup (HashMap_new None 0) k))"
    by (intro HashMap_setMultiple_stores hm_wf_new hm_equiv_new)
  then show ?thesis by (auto simp: hm_entries_def cmp_eq_def HashMap_new_def)
qed

end
