(* ===== verification/Fifo.thy ===== *)
theory Fifo
  imports Prelude
begin

text \<open>
  The fixed-size containers \<open>FIFO\<close> and \<open>FILO\<close> of \<open>Wiring/FIFO.h\<close> and \<open>Wiring/FILO.h\<close>.
  \<open>rawSize\<close> is the length of the block \<open>raw\<close>; \<open>numberOfElements\<close> is a signed counter that
  \<open>count()\<close> reads as unsigned, so the comparison with \<open>rawSize\<close> is unsigned.
\<close>

section \<open>FIFO\<close>

record 'a fifo =
  numberOfElements :: int
  nextIn :: nat
  nextOut :: nat
  raw :: "'a list"

definition FIFO_count :: "'a fifo \<Rightarrow> nat" where
  "FIFO_count q = to_u32 (numberOfElements q)"

definition FIFO_flush :: "'a fifo \<Rightarrow> 'a fifo" where
  "FIFO_flush q = q\<lparr>nextIn := 0, nextOut := 0, numberOfElements := 0\<rparr>"

text \<open>The constructor leaves \<open>raw\<close> as the allocation has it.\<close>

definition FIFO_new :: "'a list \<Rightarrow> 'a fifo" where
  "FIFO_new r = FIFO_flush \<lparr>numberOfElements = 0, nextIn = 0, nextOut = 0, raw = r\<rparr>"

definition FIFO_enqueue :: "'a fifo \<Rightarrow> 'a \<Rightarrow> ('a fifo \<times> bool) option" where
  "FIFO_enqueue q element =
     (if length (raw q) \<le> FIFO_count q then Some (q, False)
      else do {
        r \<leftarrow> wr (raw q) (nextIn q) element;
        Some (q\<lparr>numberOfElements := s32 (numberOfElements q + 1), raw := r,
               nextIn := (if length r \<le> nextIn q + 1 then 0 else nextIn q + 1)\<rparr>, True) })"

definition FIFO_dequeue :: "'a fifo \<Rightarrow> ('a fifo \<times> 'a) option" where
  "FIFO_dequeue q = do {
     item \<leftarrow> rd (raw q) (nextOut q);
     Some (q\<lparr>numberOfElements := s32 (numberOfElements q - 1),
            nextOut := (if length (raw q) \<le> nextOut q + 1 then 0 else nextOut q + 1)\<rparr>, item) }"

definition FIFO_peek :: "'a fifo \<Rightarrow> 'a option" where
  "FIFO_peek q = rd (raw q) (nextOut q)"

definition FIFO_at :: "'a fifo \<Rightarrow> nat \<Rightarrow> 'a option" where
  "FIFO_at q index = rd (raw q) index"

section \<open>FILO\<close>

record 'a filo =
  filo_number :: int
  filo_raw :: "'a list"

definition FILO_count :: "'a filo \<Rightarrow> nat" where
  "FILO_count q = to_u32 (filo_number q)"

definition FILO_flush :: "'a filo \<Rightarrow> 'a filo" where
  "FILO_flush q = q\<lparr>filo_number := 0\<rparr>"

definition FILO_new :: "'a list \<Rightarrow> 'a filo" where
  "FILO_new r = FILO_flush \<lparr>filo_number = 0, filo_raw = r\<rparr>"

definition FILO_push :: "'a filo \<Rightarrow> 'a \<Rightarrow> ('a filo \<times> bool) option" where
  "FILO_push q element =
     (if length (filo_raw q) \<le> FILO_count q then Some (q, False)
      else do {
        r \<leftarrow> wr (filo_raw q) (nat (filo_number q)) element;
        Some (q\<lparr>filo_raw := r, filo_number := s32 (filo_number q + 1)\<rparr>, True) })"

definition FILO_pop :: "'a filo \<Rightarrow> ('a filo \<times> 'a) option" where
  "FILO_pop q =
     (if 0 < filo_number q
      then do { x \<leftarrow> rd (filo_raw q) (nat (filo_number q - 1));
                Some (q\<lparr>filo_number := filo_number q - 1\<rparr>, x) }
      else do { x \<leftarrow> rd (filo_raw q) 0; Some (q, x) })"

definition FILO_peek :: "'a filo \<Rightarrow> 'a option" where
  "FILO_peek q =
     (if 0 < filo_number q then rd (filo_raw q) (nat (filo_number q - 1)) else rd (filo_raw q) 0)"

end
