(* ===== verification/RingBuffer.thy ===== *)
theory RingBuffer
  imports Prelude CLib
begin

text \<open>
  What the queues of the framework share: the contents of a ring of slots, and the
  contract of a bounded first-in first-out queue with the order theorem its clients use.
\<close>

section \<open>Contents of a ring\<close>

definition ring :: "'a list \<Rightarrow> nat \<Rightarrow> nat \<Rightarrow> 'a list" where
  "ring d r n = map (\<lambda>i. d ! ((r + i) mod length d)) [0..<n]"

lemma length_ring [simp]: "length (ring d r n) = n"
  by (simp add: ring_def)

lemma ring_0 [simp]: "ring d r 0 = []"
  by (simp add: ring_def)

lemma nth_ring [simp]: "i < n \<Longrightarrow> ring d r n ! i = d ! ((r + i) mod length d)"
  by (simp add: ring_def)

lemma ring_mod [simp]: "ring d (r mod length d) n = ring d r n"
  by (simp add: ring_def mod_simps)

lemma ring_append: "ring d r (m + n) = ring d r m @ ring d (r + m) n"
  by (rule nth_equalityI) (auto simp: nth_append add.assoc)

lemma ring_Suc: "ring d r (Suc n) = ring d r n @ [d ! ((r + n) mod length d)]"
  by (simp add: ring_def)

lemma ring_Cons: "0 < n \<Longrightarrow> ring d r n = d ! (r mod length d) # ring d (Suc r) (n - 1)"
  by (rule nth_equalityI) (auto simp: nth_Cons split: nat.split)

lemma ring_straight: "r + n \<le> length d \<Longrightarrow> ring d r n = take n (drop r d)"
  by (rule nth_equalityI) auto

lemma ring_drop: "k \<le> n \<Longrightarrow> drop k (ring d r n) = ring d (r + k) (n - k)"
  using ring_append [of d r k "n - k"] by simp

lemma ring_take: "k \<le> n \<Longrightarrow> take k (ring d r n) = ring d r k"
  using ring_append [of d r k "n - k"] by simp

lemma mod_inj_less: "a < b \<Longrightarrow> b < a + L \<Longrightarrow> (a::nat) mod L \<noteq> b mod L"
proof
  assume ab: "a < b" "b < a + L" and "a mod L = b mod L"
  then have "L dvd b - a" using mod_eq_dvd_iff_nat [of a b L] by simp
  moreover have "0 < b - a" "b - a < L" using ab by auto
  ultimately show False using nat_dvd_not_less by blast
qed

lemma ring_update_other: "n \<le> k \<Longrightarrow> k < length d \<Longrightarrow> ring (d[(r + k) mod length d := x]) r n = ring d r n"
proof (rule nth_equalityI)
  fix i assume n: "n \<le> k" "k < length d" "i < length (ring (d[(r + k) mod length d := x]) r n)"
  then have "(r + i) mod length d \<noteq> (r + k) mod length d" by (intro mod_inj_less) auto
  with n show "ring (d[(r + k) mod length d := x]) r n ! i = ring d r n ! i" by simp
qed simp

lemma ring_snoc: "n < length d \<Longrightarrow> ring (d[(r + n) mod length d := x]) r (Suc n) = ring d r n @ [x]"
proof -
  assume n: "n < length d"
  then have "(r + n) mod length d < length d" by (intro mod_less_divisor) auto
  with n show ?thesis by (simp add: ring_Suc ring_update_other)
qed

text \<open>Writing a block that does not wrap behind the last element.\<close>

lemma ring_wrn:
  assumes "w = (r + n) mod length d" and "w + length xs \<le> length d" and "n + length xs \<le> length d"
    and "0 < length d"
  shows "ring (take w d @ xs @ drop (w + length xs) d) r (n + length xs) = ring d r n @ xs"
proof (rule nth_equalityI)
  let ?L = "length d" and ?d = "take w d @ xs @ drop (w + length xs) d"
  have len: "length ?d = ?L" using assms(2) by simp
  fix i assume "i < length (ring ?d r (n + length xs))"
  then have i: "i < n + length xs" by simp
  have nth: "ring ?d r (n + length xs) ! i = ?d ! ((r + i) mod ?L)" using i len by simp
  show "ring ?d r (n + length xs) ! i = (ring d r n @ xs) ! i"
  proof (cases "i < n")
    case True
    have m: "(r + i) mod ?L < ?L" using assms(4) by simp
    have "(r + i) mod ?L < w \<or> w + length xs \<le> (r + i) mod ?L"
    proof (rule ccontr)
      assume "\<not> ?thesis"
      then obtain j where j: "(r + i) mod ?L = w + j" "j < length xs"
        by (metis le_add_diff_inverse less_diff_conv2 not_le_imp_less nat_add_left_cancel_less not_less)
      have "(r + (n + j)) mod ?L = (w + j) mod ?L" using assms(1) by (simp add: mod_simps add.assoc)
      also have "\<dots> = (r + i) mod ?L" using j assms(2) by simp
      finally have "(r + i) mod ?L = (r + (n + j)) mod ?L" by simp
      moreover have "(r + i) mod ?L \<noteq> (r + (n + j)) mod ?L"
        using True j(2) assms(3) by (intro mod_inj_less) auto
      ultimately show False by simp
    qed
    then have "?d ! ((r + i) mod ?L) = d ! ((r + i) mod ?L)"
      using m assms(2) wrn_nth_before [of w xs d] wrn_nth_after [of w xs d] by auto
    with nth True show ?thesis by (simp add: nth_append)
  next
    case False
    then obtain j where j: "i = n + j" "j < length xs" using i by (metis le_Suc_ex nat_add_left_cancel_less not_less)
    have "(r + i) mod ?L = (w + j) mod ?L" using assms(1) j by (simp add: mod_simps add.assoc)
    also have "\<dots> = w + j" using j assms(2) by simp
    finally have "(r + i) mod ?L = w + j" .
    moreover have "?d ! (w + j) = xs ! j" using j assms(2) by (simp add: nth_append)
    ultimately show ?thesis using nth j by (simp add: nth_append)
  qed
qed simp

section \<open>The contract of a bounded queue\<close>

datatype 'a qop = Enq 'a | Deq

locale bounded_queue =
  fixes inv :: "'s \<Rightarrow> bool"
    and contents :: "'s \<Rightarrow> 'a list"
    and limit :: "'s \<Rightarrow> nat"
    and enq :: "'s \<Rightarrow> 'a \<Rightarrow> ('s \<times> bool) option"
    and deq :: "'s \<Rightarrow> ('s \<times> 'a option) option"
  assumes bound: "inv s \<Longrightarrow> length (contents s) \<le> limit s"
    and enq_room: "inv s \<Longrightarrow> length (contents s) < limit s \<Longrightarrow>
      \<exists>t. enq s x = Some (t, True) \<and> inv t \<and> contents t = contents s @ [x] \<and> limit t = limit s"
    and enq_full: "inv s \<Longrightarrow> length (contents s) = limit s \<Longrightarrow> enq s x = Some (s, False)"
    and deq_some: "inv s \<Longrightarrow> contents s = x # xs \<Longrightarrow>
      \<exists>t. deq s = Some (t, Some x) \<and> inv t \<and> contents t = xs \<and> limit t = limit s"
    and deq_empty: "inv s \<Longrightarrow> contents s = [] \<Longrightarrow> deq s = Some (s, None)"
begin

text \<open>A run: the final state, the elements accepted and the elements delivered, in order.\<close>

fun run :: "'a qop list \<Rightarrow> 's \<Rightarrow> ('s \<times> 'a list \<times> 'a list) option" where
  "run [] s = Some (s, [], [])"
| "run (Enq x # ops) s = do {
     (t, ok) \<leftarrow> enq s x;
     (u, ins, outs) \<leftarrow> run ops t;
     Some (u, if ok then x # ins else ins, outs) }"
| "run (Deq # ops) s = do {
     (t, r) \<leftarrow> deq s;
     (u, ins, outs) \<leftarrow> run ops t;
     Some (u, ins, case r of Some y \<Rightarrow> y # outs | None \<Rightarrow> outs) }"

lemma run_fifo:
  "inv s \<Longrightarrow> \<exists>t ins outs. run ops s = Some (t, ins, outs) \<and> inv t \<and> limit t = limit s \<and>
    contents s @ ins = outs @ contents t"
proof (induction ops arbitrary: s)
  case Nil
  then show ?case by simp
next
  case (Cons op ops)
  note IH = Cons.IH and inv = Cons.prems
  show ?case
  proof (cases op)
    case (Enq x)
    from bound [OF inv] consider "length (contents s) < limit s" | "length (contents s) = limit s"
      by linarith
    then show ?thesis
    proof cases
      case 1
      from enq_room [OF inv this, of x] obtain t where t: "enq s x = Some (t, True)" "inv t"
        "contents t = contents s @ [x]" "limit t = limit s" by blast
      from IH [OF t(2)] obtain u ins outs where "run ops t = Some (u, ins, outs)" "inv u"
        "limit u = limit t" "contents t @ ins = outs @ contents u" by blast
      with t Enq show ?thesis by simp
    next
      case 2
      from enq_full [OF inv this, of x] IH [OF inv] Enq show ?thesis by auto
    qed
  next
    case Deq
    show ?thesis
    proof (cases "contents s")
      case Nil
      from deq_empty [OF inv Nil] IH [OF inv] Deq show ?thesis by auto
    next
      case (Cons x xs)
      from deq_some [OF inv Cons] obtain t where t: "deq s = Some (t, Some x)" "inv t"
        "contents t = xs" "limit t = limit s" by blast
      from IH [OF t(2)] obtain u ins outs where "run ops t = Some (u, ins, outs)" "inv u"
        "limit u = limit t" "contents t @ ins = outs @ contents u" by blast
      with t Deq Cons show ?thesis by simp
    qed
  qed
qed

end

end
