(* ===== verification/FifoProps.thy ===== *)
theory FifoProps
  imports Fifo RingBuffer
begin

text \<open>
  \<open>FIFO\<close> is a bounded queue and \<open>FILO\<close> a bounded stack as long as the caller checks
  \<open>count()\<close> before it takes an element: \<open>dequeue\<close> on an empty queue makes the counter
  negative, after which every \<open>enqueue\<close> is refused.
\<close>

section \<open>FIFO\<close>

definition fifo_wf :: "'a fifo \<Rightarrow> bool" where
  "fifo_wf q = (0 < length (raw q) \<and> length (raw q) < 2147483648 \<and> nextOut q < length (raw q)
     \<and> 0 \<le> numberOfElements q \<and> numberOfElements q \<le> int (length (raw q))
     \<and> nextIn q = (nextOut q + nat (numberOfElements q)) mod length (raw q))"

definition fifo_list :: "'a fifo \<Rightarrow> 'a list" where
  "fifo_list q = ring (raw q) (nextOut q) (nat (numberOfElements q))"

lemma fifo_wf_new: "0 < length r \<Longrightarrow> length r < 2147483648 \<Longrightarrow> fifo_wf (FIFO_new r) \<and> fifo_list (FIFO_new r) = []"
  by (simp add: fifo_wf_def FIFO_new_def FIFO_flush_def fifo_list_def)

lemma FIFO_count_wf: "fifo_wf q \<Longrightarrow> FIFO_count q = nat (numberOfElements q)"
  by (simp add: fifo_wf_def FIFO_count_def to_u32_id)

lemma FIFO_count_list: "fifo_wf q \<Longrightarrow> FIFO_count q = length (fifo_list q)"
  by (simp add: FIFO_count_wf fifo_list_def)

lemma mod_step: "a < L \<Longrightarrow> (if L \<le> a + 1 then 0 else a + 1) = (a + 1) mod (L::nat)"
proof (cases "L = a + 1")
  case True
  then show ?thesis by simp
next
  case False
  assume "a < L"
  with False show ?thesis by simp
qed

lemma length_fifo_list: "length (fifo_list q) = nat (numberOfElements q)"
  by (simp add: fifo_list_def)

lemma length_fifo_list_le: "fifo_wf q \<Longrightarrow> length (fifo_list q) \<le> length (raw q)"
  by (simp add: fifo_list_def fifo_wf_def nat_le_iff)

lemma FIFO_enqueue_room:
  assumes "fifo_wf q" and "length (fifo_list q) < length (raw q)"
  shows "\<exists>t. FIFO_enqueue q x = Some (t, True) \<and> fifo_wf t \<and> fifo_list t = fifo_list q @ [x]
    \<and> length (raw t) = length (raw q)"
proof -
  let ?L = "length (raw q)" and ?n = "nat (numberOfElements q)"
  have n: "?n < ?L" "?L < 2147483648" "0 \<le> numberOfElements q"
    using assms by (auto simp: fifo_list_def fifo_wf_def)
  have i: "nextIn q < ?L" "nextIn q = (nextOut q + ?n) mod ?L"
    using assms(1) by (auto simp: fifo_wf_def)
  let ?t = "q\<lparr>numberOfElements := numberOfElements q + 1, raw := (raw q)[nextIn q := x],
      nextIn := (nextIn q + 1) mod ?L\<rparr>"
  have "s32 (numberOfElements q + 1) = numberOfElements q + 1" using n by (intro s32_id) auto
  then have "FIFO_enqueue q x = Some (?t, True)"
    using n i(1) FIFO_count_wf [OF assms(1)] mod_step [OF i(1)] by (simp add: FIFO_enqueue_def wr_def)
  moreover have "fifo_wf ?t"
    using assms(1) n i by (auto simp: fifo_wf_def nat_add_distrib mod_simps)
  moreover have "fifo_list ?t = fifo_list q @ [x]"
    using n i ring_snoc [of ?n "raw q" "nextOut q" x] by (simp add: fifo_list_def nat_add_distrib)
  ultimately show ?thesis by simp
qed

lemma FIFO_enqueue_full:
  "fifo_wf q \<Longrightarrow> length (fifo_list q) = length (raw q) \<Longrightarrow> FIFO_enqueue q x = Some (q, False)"
  by (simp add: FIFO_enqueue_def FIFO_count_list)

lemma FIFO_dequeue_some:
  assumes "fifo_wf q" and "fifo_list q = x # xs"
  shows "\<exists>t. FIFO_dequeue q = Some (t, x) \<and> fifo_wf t \<and> fifo_list t = xs \<and> raw t = raw q"
proof -
  let ?L = "length (raw q)" and ?n = "nat (numberOfElements q)"
  have n: "0 < ?n" "numberOfElements q \<le> int ?L" "?L < 2147483648" "nextOut q < ?L"
    using assms length_fifo_list [of q] by (auto simp: fifo_wf_def)
  have "ring (raw q) (nextOut q) ?n = raw q ! nextOut q # ring (raw q) (Suc (nextOut q)) (?n - 1)"
    using ring_Cons [OF n(1), of "raw q" "nextOut q"] n(4) by simp
  with assms(2) have x: "x = raw q ! nextOut q" "xs = ring (raw q) (Suc (nextOut q)) (?n - 1)"
    by (simp_all add: fifo_list_def)
  let ?t = "q\<lparr>numberOfElements := numberOfElements q - 1, nextOut := (nextOut q + 1) mod ?L\<rparr>"
  have "s32 (numberOfElements q - 1) = numberOfElements q - 1" using n by (intro s32_id) auto
  then have "FIFO_dequeue q = Some (?t, x)"
    using n(4) x(1) mod_step [OF n(4)] by (simp add: FIFO_dequeue_def rd_def)
  moreover have "nextOut q + ?n = (nextOut q + 1) + nat (numberOfElements q - 1)" using n(1) by simp
  then have "fifo_wf ?t"
    using assms(1) n unfolding fifo_wf_def by (simp add: mod_simps)
  moreover have "fifo_list ?t = xs"
  proof -
    have "nat (numberOfElements q - 1) = ?n - 1" by arith
    then show ?thesis using x(2) ring_mod [of "raw q" "Suc (nextOut q)"] by (simp add: fifo_list_def)
  qed
  ultimately show ?thesis by auto
qed

text \<open>The guarded use: an element is taken only when \<open>count()\<close> is not zero.\<close>

definition fifo_take :: "'a fifo \<Rightarrow> ('a fifo \<times> 'a option) option" where
  "fifo_take q = (if FIFO_count q = 0 then Some (q, None)
     else map_option (\<lambda>(t, x). (t, Some x)) (FIFO_dequeue q))"

interpretation fifo: bounded_queue fifo_wf fifo_list "\<lambda>q. length (raw q)" FIFO_enqueue fifo_take
proof unfold_locales
  show "length (fifo_list q) \<le> length (raw q)" if "fifo_wf q" for q :: "'a fifo"
    using that by (rule length_fifo_list_le)
  show "\<exists>t. FIFO_enqueue q x = Some (t, True) \<and> fifo_wf t \<and> fifo_list t = fifo_list q @ [x] \<and>
      length (raw t) = length (raw q)"
    if "fifo_wf q" "length (fifo_list q) < length (raw q)" for q :: "'a fifo" and x
    using that by (rule FIFO_enqueue_room)
  show "FIFO_enqueue q x = Some (q, False)" if "fifo_wf q" "length (fifo_list q) = length (raw q)"
    for q :: "'a fifo" and x
    using that by (rule FIFO_enqueue_full)
  show "\<exists>t. fifo_take q = Some (t, Some x) \<and> fifo_wf t \<and> fifo_list t = xs \<and> length (raw t) = length (raw q)"
    if "fifo_wf q" "fifo_list q = x # xs" for q :: "'a fifo" and x xs
    using FIFO_dequeue_some [OF that] that FIFO_count_list [OF that(1)] by (auto simp: fifo_take_def)
  show "fifo_take q = Some (q, None)" if "fifo_wf q" "fifo_list q = []" for q :: "'a fifo"
    using that FIFO_count_list [OF that(1)] by (simp add: fifo_take_def)
qed

text \<open>Taking from an empty queue: the counter becomes -1 and the queue refuses every element.\<close>

lemma FIFO_underflow:
  assumes "fifo_wf q" and "fifo_list q = []"
  shows "\<exists>t x. FIFO_dequeue q = Some (t, x) \<and> numberOfElements t = -1 \<and>
    (\<forall>y. FIFO_enqueue t y = Some (t, False))"
proof -
  have n: "numberOfElements q = 0" "nextOut q < length (raw q)" "length (raw q) < 2147483648"
    using assms length_fifo_list [of q] by (auto simp: fifo_wf_def)
  then have "FIFO_dequeue q = Some (q\<lparr>numberOfElements := - 1,
      nextOut := (if length (raw q) \<le> nextOut q + 1 then 0 else nextOut q + 1)\<rparr>, raw q ! nextOut q)"
    by (simp add: FIFO_dequeue_def rd_def s32_def)
  with n(3) show ?thesis by (simp add: FIFO_enqueue_def FIFO_count_def to_u32_def)
qed

section \<open>FILO\<close>

definition filo_wf :: "'a filo \<Rightarrow> bool" where
  "filo_wf q = (0 < length (filo_raw q) \<and> length (filo_raw q) < 2147483648
     \<and> 0 \<le> filo_number q \<and> filo_number q \<le> int (length (filo_raw q)))"

definition filo_list :: "'a filo \<Rightarrow> 'a list" where
  "filo_list q = rev (take (nat (filo_number q)) (filo_raw q))"

lemma FILO_push_spec:
  assumes "filo_wf q"
  shows "\<exists>t. FILO_push q x = Some (t, length (filo_list q) < length (filo_raw q)) \<and> filo_wf t \<and>
    filo_list t = (if length (filo_list q) < length (filo_raw q) then x # filo_list q else filo_list q)"
proof -
  let ?n = "nat (filo_number q)"
  have b: "0 \<le> filo_number q" "filo_number q \<le> int (length (filo_raw q))" "length (filo_raw q) < 2147483648"
    using assms by (auto simp: filo_wf_def)
  have c: "FILO_count q = ?n" using b by (simp add: FILO_count_def to_u32_id)
  have l: "length (filo_list q) = ?n" using b by (simp add: filo_list_def)
  show ?thesis
  proof (cases "?n < length (filo_raw q)")
    case True
    then have "filo_number q < int (length (filo_raw q))" by linarith
    then have "s32 (filo_number q + 1) = filo_number q + 1" using b by (intro s32_id) auto
    with True c b l assms show ?thesis
      by (simp add: FILO_push_def wr_def filo_wf_def filo_list_def nat_add_distrib take_Suc_conv_app_nth)
  next
    case False
    with c l assms show ?thesis by (simp add: FILO_push_def)
  qed
qed

lemma FILO_pop_spec:
  assumes "filo_wf q" and "filo_list q = x # xs"
  shows "\<exists>t. FILO_pop q = Some (t, x) \<and> filo_wf t \<and> filo_list t = xs"
proof -
  let ?n = "nat (filo_number q)"
  have b: "0 \<le> filo_number q" "filo_number q \<le> int (length (filo_raw q))"
    using assms by (auto simp: filo_wf_def)
  obtain m where m: "?n = Suc m" using assms(2) by (cases ?n) (auto simp: filo_list_def)
  then have m': "m < length (filo_raw q)" "nat (filo_number q - 1) = m" using b by linarith+
  with assms(2) m have "x = filo_raw q ! m" "xs = rev (take m (filo_raw q))"
    by (auto simp: filo_list_def take_Suc_conv_app_nth)
  with m m' assms(1) b show ?thesis by (auto simp: FILO_pop_def rd_def filo_wf_def filo_list_def)
qed

section \<open>Properties\<close>



text \<open>C11: Error: \<open>dequeue\<close> does not check for an empty queue. It returns a stale slot, the counter
  becomes -1, \<open>count()\<close> reads it as a huge number, and every later \<open>enqueue\<close> is refused.\<close>

theorem FIFO_dequeue_empty_blocks:
  "fifo_wf q \<Longrightarrow> fifo_list q = [] \<Longrightarrow>
    \<exists>t x. FIFO_dequeue q = Some (t, x) \<and> numberOfElements t = -1 \<and> (\<forall>y. FIFO_enqueue t y = Some (t, False))"
  by (rule FIFO_underflow)

theorem FIFO_dequeue_empty_blocks_witness:
  "\<exists>t x. FIFO_dequeue (FIFO_new [0::nat]) = Some (t, x) \<and> numberOfElements t = -1 \<and>
    (\<forall>y. FIFO_enqueue t y = Some (t, False))"
  by (rule FIFO_dequeue_empty_blocks) (simp_all add: fifo_wf_new)

end
