(* ===== verification/CircularBuffer.thy ===== *)
theory CircularBuffer
  imports Prelude CLib
begin

text \<open>
  \<open>CircularBuffer\<close> of \<open>SmingCore/Data/CircularBuffer.cpp\<close>. The pointers \<open>readPos\<close> and
  \<open>writePos\<close> are offsets into the block \<open>buffer\<close>; \<open>readPos\<close> may rest one past the end
  until the next \<open>seek\<close>. A buffer argument is the block it points at.
\<close>

record circbuf =
  cb_buffer :: "char list"
  cb_readPos :: nat
  cb_writePos :: nat
  cb_size :: nat

definition CircularBuffer_new :: "char list \<Rightarrow> circbuf" where
  "CircularBuffer_new block =
     \<lparr>cb_buffer = block, cb_readPos = 0, cb_writePos = 0, cb_size = length block\<rparr>"

definition CircularBuffer_available :: "circbuf \<Rightarrow> int" where
  "CircularBuffer_available b =
     (if cb_readPos b \<le> cb_writePos b then int (cb_writePos b) - int (cb_readPos b)
      else int (cb_size b) - (int (cb_readPos b) - int (cb_writePos b)))"

definition CircularBuffer_room :: "circbuf \<Rightarrow> nat" where
  "CircularBuffer_room b =
     (if cb_readPos b \<le> cb_writePos b
      then to_u32 (int (cb_size b) - (int (cb_writePos b) - int (cb_readPos b)) - 1)
      else to_u32 (int (cb_readPos b) - int (cb_writePos b) - 1))"

definition CircularBuffer_isFinished :: "circbuf \<Rightarrow> bool" where
  "CircularBuffer_isFinished b = (CircularBuffer_available b < 1)"

definition CircularBuffer_flush :: "circbuf \<Rightarrow> circbuf" where
  "CircularBuffer_flush b = b\<lparr>cb_readPos := 0, cb_writePos := 0\<rparr>"

definition cb_wrap :: "circbuf \<Rightarrow> nat \<Rightarrow> nat" where
  "cb_wrap b p = (if p = cb_size b then 0 else p)"

definition CircularBuffer_readMemoryBlock ::
  "circbuf \<Rightarrow> char list \<Rightarrow> int \<Rightarrow> (char list \<times> nat) option" where
  "CircularBuffer_readMemoryBlock b data bufSize =
     (let bytesAvailable = to_u32 (CircularBuffer_available b);
          sizeRead = (if to_u32 bufSize < bytesAvailable then to_u32 bufSize else bytesAvailable);
          topSize = cb_size b - cb_readPos b in
      if cb_writePos b < cb_readPos b \<and> topSize < sizeRead
      then do {
        xs \<leftarrow> rdn (cb_buffer b) (cb_readPos b) topSize;
        d1 \<leftarrow> wrn data 0 xs;
        ys \<leftarrow> rdn (cb_buffer b) 0 (sizeRead - topSize);
        d2 \<leftarrow> wrn d1 topSize ys;
        Some (d2, u16 sizeRead) }
      else do {
        xs \<leftarrow> rdn (cb_buffer b) (cb_readPos b) sizeRead;
        d1 \<leftarrow> wrn data 0 xs;
        Some (d1, u16 sizeRead) })"

text \<open>A negative displacement may leave the block; such a pointer has no defined value.\<close>

definition cb_move :: "circbuf \<Rightarrow> int \<Rightarrow> (circbuf \<times> bool) option" where
  "cb_move b p = (if 0 \<le> p \<and> p \<le> int (cb_size b) then Some (b\<lparr>cb_readPos := nat p\<rparr>, True) else None)"

definition CircularBuffer_seek :: "circbuf \<Rightarrow> int \<Rightarrow> (circbuf \<times> bool) option" where
  "CircularBuffer_seek b len =
     (if CircularBuffer_available b < len then Some (CircularBuffer_flush b, False)
      else if cb_readPos b < cb_writePos b then cb_move b (int (cb_readPos b) + len)
      else if int (cb_size b) < int (cb_readPos b) + len
      then cb_move b (len - (int (cb_size b) - int (cb_readPos b)))
      else cb_move b (int (cb_readPos b) + len))"

definition CircularBuffer_write1 :: "circbuf \<Rightarrow> char \<Rightarrow> (circbuf \<times> nat) option" where
  "CircularBuffer_write1 b c =
     (if CircularBuffer_room b = 0 then Some (b, 0)
      else do {
        d \<leftarrow> wr (cb_buffer b) (cb_writePos b) c;
        Some (b\<lparr>cb_buffer := d, cb_writePos := cb_wrap b (cb_writePos b + 1)\<rparr>, 1) })"

definition CircularBuffer_write :: "circbuf \<Rightarrow> char list \<Rightarrow> nat \<Rightarrow> (circbuf \<times> nat) option" where
  "CircularBuffer_write b data bufSize =
     (let space = CircularBuffer_room b;
          sizeWritten = (if bufSize < space then bufSize else space);
          topSize = cb_size b - cb_writePos b in
      if cb_readPos b \<le> cb_writePos b \<and> topSize < sizeWritten
      then do {
        xs \<leftarrow> rdn data 0 topSize;
        d1 \<leftarrow> wrn (cb_buffer b) (cb_writePos b) xs;
        ys \<leftarrow> rdn data topSize (sizeWritten - topSize);
        d2 \<leftarrow> wrn d1 0 ys;
        Some (b\<lparr>cb_buffer := d2, cb_writePos := cb_wrap b (sizeWritten - topSize)\<rparr>, sizeWritten) }
      else do {
        xs \<leftarrow> rdn data 0 sizeWritten;
        d1 \<leftarrow> wrn (cb_buffer b) (cb_writePos b) xs;
        Some (b\<lparr>cb_buffer := d1, cb_writePos := cb_wrap b (cb_writePos b + sizeWritten)\<rparr>, sizeWritten) })"

end
