(* ===== verification/CircularBufferProps.thy ===== *)
theory CircularBufferProps
  imports CircularBuffer RingBuffer
begin

text \<open>
  \<open>CircularBuffer\<close> keeps a queue of at most \<open>size - 1\<close> characters: \<open>write\<close> appends as much
  as fits, \<open>readMemoryBlock\<close> copies from the front without consuming, \<open>seek\<close> consumes.
\<close>

definition cb_wf :: "circbuf \<Rightarrow> bool" where
  "cb_wf b = (0 < cb_size b \<and> cb_size b < 2147483648 \<and> length (cb_buffer b) = cb_size b
     \<and> cb_writePos b < cb_size b \<and> cb_readPos b \<le> cb_size b)"

definition cb_len :: "circbuf \<Rightarrow> nat" where
  "cb_len b = (if cb_readPos b \<le> cb_writePos b then cb_writePos b - cb_readPos b
     else cb_size b - (cb_readPos b - cb_writePos b))"

definition cb_list :: "circbuf \<Rightarrow> char list" where
  "cb_list b = ring (cb_buffer b) (cb_readPos b) (cb_len b)"

lemma length_cb_list [simp]: "length (cb_list b) = cb_len b"
  by (simp add: cb_list_def)

lemma cb_available: "cb_wf b \<Longrightarrow> CircularBuffer_available b = int (cb_len b)"
  by (auto simp: CircularBuffer_available_def cb_len_def cb_wf_def of_nat_diff)

lemma cb_len_less: "cb_wf b \<Longrightarrow> cb_len b < cb_size b"
  by (auto simp: cb_len_def cb_wf_def)

lemma cb_room: "cb_wf b \<Longrightarrow> CircularBuffer_room b = cb_size b - 1 - cb_len b"
proof -
  assume wf: "cb_wf b"
  then have "(if cb_readPos b \<le> cb_writePos b
      then int (cb_size b) - (int (cb_writePos b) - int (cb_readPos b)) - 1
      else int (cb_readPos b) - int (cb_writePos b) - 1) = int (cb_size b - 1 - cb_len b)"
    by (auto simp: cb_wf_def cb_len_def of_nat_diff)
  moreover have "cb_size b - 1 - cb_len b < 4294967296" using wf by (auto simp: cb_wf_def)
  ultimately show ?thesis
    by (simp add: CircularBuffer_room_def if_distrib [of to_u32, symmetric] to_u32_id)
qed

lemma cb_writePos_eq: "cb_wf b \<Longrightarrow> cb_writePos b = (cb_readPos b + cb_len b) mod cb_size b"
proof (cases "cb_readPos b \<le> cb_writePos b")
  case True
  assume "cb_wf b"
  with True show ?thesis by (auto simp: cb_wf_def cb_len_def)
next
  case False
  assume wf: "cb_wf b"
  with False have "cb_readPos b + cb_len b = cb_writePos b + cb_size b"
    by (auto simp: cb_wf_def cb_len_def)
  with wf show ?thesis by (auto simp: cb_wf_def)
qed

lemma cb_len_of_write:
  assumes "cb_wf b" and "k < cb_size b - cb_len b" and "w = (cb_writePos b + k) mod cb_size b"
  shows "cb_len (b\<lparr>cb_buffer := d, cb_writePos := w\<rparr>) = cb_len b + k"
proof -
  let ?L = "cb_size b" and ?r = "cb_readPos b" and ?w = "cb_writePos b"
  have b: "?w < ?L" "?r \<le> ?L" using assms(1) by (auto simp: cb_wf_def)
  show ?thesis
  proof (cases "?w + k < ?L")
    case True
    then have "w = ?w + k" using assms(3) by simp
    then show ?thesis using assms(2) b by (auto simp: cb_len_def split: if_splits)
  next
    case False
    then have "w = ?w + k - ?L" using assms(2,3) b by (simp add: mod_if)
    then show ?thesis using assms(2) b False by (auto simp: cb_len_def split: if_splits)
  qed
qed

lemma cb_wrap_mod: "p \<le> cb_size b \<Longrightarrow> 0 < cb_size b \<Longrightarrow> cb_wrap b p = p mod cb_size b"
  by (auto simp: cb_wrap_def)

lemma CircularBuffer_write1_spec:
  assumes "cb_wf b"
  shows "(cb_len b < cb_size b - 1 \<longrightarrow> (\<exists>t. CircularBuffer_write1 b c = Some (t, 1) \<and> cb_wf t
      \<and> cb_list t = cb_list b @ [c] \<and> cb_size t = cb_size b))
    \<and> (cb_len b = cb_size b - 1 \<longrightarrow> CircularBuffer_write1 b c = Some (b, 0))"
proof (intro conjI impI)
  assume "cb_len b = cb_size b - 1"
  with cb_room [OF assms] show "CircularBuffer_write1 b c = Some (b, 0)"
    by (simp add: CircularBuffer_write1_def)
next
  assume lt: "cb_len b < cb_size b - 1"
  let ?d = "(cb_buffer b)[cb_writePos b := c]" and ?w = "(cb_writePos b + 1) mod cb_size b"
  let ?t = "b\<lparr>cb_buffer := ?d, cb_writePos := ?w\<rparr>"
  have b: "cb_writePos b < cb_size b" "length (cb_buffer b) = cb_size b"
    using assms by (auto simp: cb_wf_def)
  have "cb_wrap b (cb_writePos b + 1) = ?w" using b by (intro cb_wrap_mod) auto
  then have "CircularBuffer_write1 b c = Some (?t, 1)"
    using lt cb_room [OF assms] b by (simp add: CircularBuffer_write1_def wr_def)
  moreover have "cb_wf ?t" using assms by (simp add: cb_wf_def)
  moreover have "cb_len ?t = Suc (cb_len b)"
    using cb_len_of_write [OF assms, of 1 ?w ?d] lt by simp
  then have "cb_list ?t = cb_list b @ [c]"
    using ring_snoc [of "cb_len b" "cb_buffer b" "cb_readPos b" c] b lt cb_writePos_eq [OF assms]
    by (simp add: cb_list_def)
  ultimately show "\<exists>t. CircularBuffer_write1 b c = Some (t, 1) \<and> cb_wf t
      \<and> cb_list t = cb_list b @ [c] \<and> cb_size t = cb_size b" by simp
qed

lemma CircularBuffer_write_spec:
  assumes "cb_wf b" and "n \<le> length data"
  shows "\<exists>t. CircularBuffer_write b data n = Some (t, min n (cb_size b - 1 - cb_len b)) \<and> cb_wf t
    \<and> cb_size t = cb_size b \<and> cb_list t = cb_list b @ take (min n (cb_size b - 1 - cb_len b)) data"
proof -
  define k where "k = min n (cb_size b - 1 - cb_len b)"
  let ?L = "cb_size b" and ?w = "cb_writePos b" and ?d = "cb_buffer b" and ?r = "cb_readPos b"
  have b: "?w < ?L" "length ?d = ?L" "?r \<le> ?L" "0 < ?L" using assms(1) by (auto simp: cb_wf_def)
  have w: "?w = (?r + cb_len b) mod length ?d" using cb_writePos_eq [OF assms(1)] b by simp
  have k: "k \<le> n" "k < ?L - cb_len b" "cb_len b + k \<le> length ?d"
    using cb_len_less [OF assms(1)] b by (auto simp: k_def)
  have sw: "(if n < CircularBuffer_room b then n else CircularBuffer_room b) = k"
    using cb_room [OF assms(1)] by (auto simp: k_def)
  have res: "\<exists>t. Some (b\<lparr>cb_buffer := d', cb_writePos := w'\<rparr>, k) = Some (t, k) \<and> cb_wf t
      \<and> cb_size t = ?L \<and> cb_list t = cb_list b @ take k data"
    if "length d' = ?L" "w' = (?w + k) mod ?L" "ring d' ?r (cb_len b + k) = ring ?d ?r (cb_len b) @ take k data"
    for d' w'
  proof -
    have "cb_wf (b\<lparr>cb_buffer := d', cb_writePos := w'\<rparr>)"
      using assms(1) that(1,2) b(4) by (simp add: cb_wf_def)
    with that(3) cb_len_of_write [OF assms(1) k(2) that(2), of d'] show ?thesis by (simp add: cb_list_def)
  qed
  show ?thesis
  proof (cases "?r \<le> ?w \<and> ?L - ?w < k")
    case True
    let ?top = "?L - ?w"
    let ?d1 = "take ?w ?d @ take ?top data"
    let ?ys = "take (k - ?top) (drop ?top data)"
    have l1: "length (take ?top data) = ?top" using True k assms(2) by simp
    have ly: "length ?ys = k - ?top" using True k assms(2) by simp
    have w1: "wrn ?d ?w (take ?top data) = Some ?d1"
      using b wrn_Some [of ?w "take ?top data" ?d] unfolding l1 by simp
    let ?d2 = "?ys @ drop (k - ?top) ?d1"
    have ld1: "length ?d1 = ?L" using b l1 by simp
    have "0 + length ?ys \<le> length ?d1" unfolding ly ld1 using k(2) by simp
    from wrn_Some [OF this] have w2: "wrn ?d1 0 ?ys = Some ?d2"
      by (simp only: ly take_0 append_Nil add_0)
    have kt: "k - ?top < ?L" using k(2) by simp
    have eq: "CircularBuffer_write b data n =
        Some (b\<lparr>cb_buffer := ?d2, cb_writePos := cb_wrap b (k - ?top)\<rparr>, k)"
      using True k(1) assms(2) w1 w2 unfolding CircularBuffer_write_def Let_def sw by (simp add: rdn_def)
    have "cb_wrap b (k - ?top) = (k - ?top) mod ?L" using kt b by (intro cb_wrap_mod) auto
    also have "\<dots> = (k - ?top + ?L) mod ?L" by simp
    also have "k - ?top + ?L = ?w + k" using conjunct2 [OF True] b(1) by linarith
    finally have wr: "cb_wrap b (k - ?top) = (?w + k) mod ?L" .
    have top: "cb_len b + ?top \<le> ?L" using conjunct2 [OF True] k(3) b(2) by linarith
    have "ring (take ?w ?d @ take ?top data @ drop (?w + length (take ?top data)) ?d) ?r
        (cb_len b + length (take ?top data)) = ring ?d ?r (cb_len b) @ take ?top data"
      using top b unfolding l1 by (intro ring_wrn [OF w, of "take ?top data", unfolded l1]) auto
    then have r1: "ring ?d1 ?r (cb_len b + ?top) = ring ?d ?r (cb_len b) @ take ?top data"
      unfolding l1 using b(1,2) by simp
    have "(?r + (cb_len b + ?top)) mod ?L = ((?r + cb_len b) mod ?L + ?top) mod ?L"
      by (simp only: mod_add_left_eq add.assoc)
    also have "\<dots> = (?w + ?top) mod ?L" using w b(2) by simp
    finally have z: "(0::nat) = (?r + (cb_len b + ?top)) mod length ?d1" using b(1) ld1 by simp
    have "ring ?d2 ?r (cb_len b + ?top + length ?ys) = ring ?d1 ?r (cb_len b + ?top) @ ?ys"
    proof -
      have "ring (take 0 ?d1 @ ?ys @ drop (0 + length ?ys) ?d1) ?r (cb_len b + ?top + length ?ys) =
          ring ?d1 ?r (cb_len b + ?top) @ ?ys"
        by (rule ring_wrn [OF z]) (use ly ld1 kt k(3) b conjunct2 [OF True] in linarith)+
      then show ?thesis by (simp only: ly take_0 append_Nil add_0)
    qed
    moreover have "take k data = take ?top data @ ?ys"
      using True by (simp add: take_drop_split [of ?top k data])
    ultimately have "ring ?d2 ?r (cb_len b + k) = ring ?d ?r (cb_len b) @ take k data"
      using r1 ly True by simp
    moreover have "length ?d2 = length ?ys + (length ?d1 - (k - ?top))"
      by (simp only: length_append length_drop)
    then have "length ?d2 = ?L" unfolding ly ld1 using kt by simp
    ultimately show ?thesis using res [OF _ wr] unfolding k_def [symmetric] eq by blast
  next
    case False
    have wk: "?w + k \<le> ?L"
    proof (cases "?r \<le> ?w")
      case True
      with False b(1) show ?thesis by simp
    next
      case F: False
      with k(2) b show ?thesis by (simp add: cb_len_def)
    qed
    let ?d1 = "take ?w ?d @ take k data @ drop (?w + k) ?d"
    have l1: "length (take k data) = k" using k assms(2) by simp
    have w1: "wrn ?d ?w (take k data) = Some ?d1"
      using b wk wrn_Some [of ?w "take k data" ?d] unfolding l1 by simp
    have eq: "CircularBuffer_write b data n =
        Some (b\<lparr>cb_buffer := ?d1, cb_writePos := cb_wrap b (?w + k)\<rparr>, k)"
      using False k(1) assms(2) w1 unfolding CircularBuffer_write_def Let_def sw by (auto simp: rdn_def)
    have wr: "cb_wrap b (?w + k) = (?w + k) mod ?L" using wk b by (intro cb_wrap_mod) auto
    have "ring ?d1 ?r (cb_len b + k) = ring ?d ?r (cb_len b) @ take k data"
      using ring_wrn [OF w, of "take k data"] l1 wk b k by simp
    from res [OF _ wr this] eq b wk l1 show ?thesis unfolding k_def [symmetric] by simp
  qed
qed

lemma CircularBuffer_readMemoryBlock_spec:
  assumes "cb_wf b" and "0 \<le> n" and "n < 2147483648" and "min (nat n) (cb_len b) \<le> length data"
  shows "CircularBuffer_readMemoryBlock b data n =
    Some (take (nat n) (cb_list b) @ drop (min (nat n) (cb_len b)) data, u16 (min (nat n) (cb_len b)))"
proof -
  define k where "k = min (nat n) (cb_len b)"
  let ?L = "cb_size b" and ?w = "cb_writePos b" and ?d = "cb_buffer b" and ?r = "cb_readPos b"
  have b: "?w < ?L" "length ?d = ?L" "?r \<le> ?L" "0 < ?L" "?L < 2147483648"
    using assms(1) by (auto simp: cb_wf_def)
  have av: "to_u32 (CircularBuffer_available b) = cb_len b"
    using cb_available [OF assms(1)] cb_len_less [OF assms(1)] b by (simp add: to_u32_id)
  have un: "to_u32 n = nat n" using assms by (simp add: to_u32_id)
  have sr: "(if to_u32 n < to_u32 (CircularBuffer_available b) then to_u32 n
      else to_u32 (CircularBuffer_available b)) = k"
    unfolding av un by (simp add: k_def)
  have tk: "take (nat n) (cb_list b) = ring ?d ?r k"
    using ring_take [of "nat n" "cb_len b" ?d ?r]
    by (cases "nat n \<le> cb_len b") (simp_all add: cb_list_def k_def)
  have kd: "k \<le> length data" "k \<le> cb_len b" using assms(4) by (auto simp: k_def)
  show ?thesis
  proof (cases "?w < ?r \<and> ?L - ?r < k")
    case True
    let ?top = "?L - ?r"
    have r: "ring ?d ?r k = drop ?r ?d @ take (k - ?top) ?d"
    proof -
      have "ring ?d ?r k = ring ?d ?r ?top @ ring ?d (?r + ?top) (k - ?top)"
        using ring_append [of ?d ?r ?top "k - ?top"] True by simp
      moreover have "ring ?d (?r + ?top) (k - ?top) = ring ?d 0 (k - ?top)"
        using ring_mod [of ?d "?r + ?top" "k - ?top"] b by simp
      moreover have "cb_len b \<le> ?L" using cb_len_less [OF assms(1)] by simp
      ultimately show ?thesis using b kd True by (simp add: ring_straight)
    qed
    have le: "k - ?top \<le> ?L" using kd cb_len_less [OF assms(1)] by simp
    have "wrn data 0 (drop ?r ?d) = Some (drop ?r ?d @ drop ?top data)"
      using True kd b by (simp add: wrn_def)
    moreover have "wrn (drop ?r ?d @ drop ?top data) ?top (take (k - ?top) ?d) =
        Some (drop ?r ?d @ take (k - ?top) ?d @ drop k data)"
    proof -
      define top j where "top = ?top" and "j = k - ?top"
      have "k = top + j" "length (drop ?r ?d) = top" "length (take j ?d) = j" "top + j \<le> length data"
        using True b(2) le kd by (auto simp: top_def j_def)
      then show ?thesis unfolding top_def [symmetric] j_def [symmetric] by (simp add: wrn_def add.commute)
    qed
    ultimately show ?thesis
      using True b le unfolding CircularBuffer_readMemoryBlock_def Let_def sr tk k_def [symmetric] r
      by (simp add: rdn_def)
  next
    case False
    have rk: "?r + k \<le> ?L"
    proof (cases "?w < ?r")
      case True
      with False b show ?thesis by simp
    next
      case F: False
      with kd(2) b show ?thesis by (simp add: cb_len_def)
    qed
    then have "ring ?d ?r k = take k (drop ?r ?d)" using b by (simp add: ring_straight)
    with False rk b kd show ?thesis
      unfolding CircularBuffer_readMemoryBlock_def Let_def sr tk k_def [symmetric]
      by (auto simp: rdn_def wrn_def)
  qed
qed

lemma CircularBuffer_seek_spec:
  assumes "cb_wf b" and "0 \<le> n"
  shows "(n \<le> int (cb_len b) \<longrightarrow> (\<exists>t. CircularBuffer_seek b n = Some (t, True) \<and> cb_wf t
      \<and> cb_size t = cb_size b \<and> cb_list t = drop (nat n) (cb_list b)))
    \<and> (int (cb_len b) < n \<longrightarrow> (\<exists>t. CircularBuffer_seek b n = Some (t, False) \<and> cb_wf t
      \<and> cb_size t = cb_size b \<and> cb_list t = []))"
proof (intro conjI impI)
  assume "int (cb_len b) < n"
  with assms cb_available [OF assms(1)]
  show "\<exists>t. CircularBuffer_seek b n = Some (t, False) \<and> cb_wf t \<and> cb_size t = cb_size b \<and> cb_list t = []"
    by (simp add: CircularBuffer_seek_def CircularBuffer_flush_def cb_wf_def cb_list_def cb_len_def)
next
  assume le: "n \<le> int (cb_len b)"
  define m where "m = nat n"
  let ?L = "cb_size b" and ?w = "cb_writePos b" and ?d = "cb_buffer b" and ?r = "cb_readPos b"
  have n: "n = int m" "m \<le> cb_len b" using le assms(2) by (auto simp: m_def)
  have b: "?w < ?L" "length ?d = ?L" "?r \<le> ?L" "0 < ?L" using assms(1) by (auto simp: cb_wf_def)
  let ?p = "if ?r < ?w \<or> ?r + m \<le> ?L then ?r + m else ?r + m - ?L"
  let ?t = "b\<lparr>cb_readPos := ?p\<rparr>"
  have pl: "?p \<le> ?L" using n(2) b cb_len_less [OF assms(1)] by (auto simp: cb_len_def split: if_splits)
  have sk: "CircularBuffer_seek b n = Some (?t, True)"
  proof -
    have "int (if ?r < ?w \<or> ?r + m \<le> ?L then ?r + m else ?r + m - ?L) =
        (if ?r < ?w then int ?r + n else if ?L < ?r + m then n - (int ?L - int ?r) else int ?r + n)"
      using n(1) b by (auto simp: of_nat_diff)
    with pl n cb_available [OF assms(1)] show ?thesis
      unfolding CircularBuffer_seek_def cb_move_def
      by (auto simp: nat_add_distrib nat_diff_distrib of_nat_diff split: if_splits)
  qed
  moreover have "cb_wf ?t" using assms(1) pl by (simp add: cb_wf_def)
  moreover have "cb_len ?t = cb_len b - m"
    using n(2) b by (auto simp: cb_len_def split: if_splits)
  moreover have "?p mod ?L = (?r + m) mod ?L"
    using b n(2) cb_len_less [OF assms(1)] by (auto simp: mod_if)
  then have "ring ?d ?p k = ring ?d (?r + m) k" for k
    using ring_mod [of ?d ?p k] ring_mod [of ?d "?r + m" k] b by simp
  ultimately have "cb_list ?t = drop m (cb_list b)"
    using ring_drop [OF n(2), of ?d ?r] by (simp add: cb_list_def)
  with sk \<open>cb_wf ?t\<close> show "\<exists>t. CircularBuffer_seek b n = Some (t, True) \<and> cb_wf t
      \<and> cb_size t = cb_size b \<and> cb_list t = drop (nat n) (cb_list b)" by (simp add: m_def)
qed

text \<open>One character at a time the buffer is a bounded queue.\<close>

definition cb_put :: "circbuf \<Rightarrow> char \<Rightarrow> (circbuf \<times> bool) option" where
  "cb_put b c = map_option (\<lambda>(t, n). (t, n = 1)) (CircularBuffer_write1 b c)"

definition cb_get :: "circbuf \<Rightarrow> (circbuf \<times> char option) option" where
  "cb_get b = (if CircularBuffer_isFinished b then Some (b, None)
     else do {
       (d, n) \<leftarrow> CircularBuffer_readMemoryBlock b [NUL] 1;
       (t, _) \<leftarrow> CircularBuffer_seek b 1;
       Some (t, Some (hd d)) })"

interpretation cb: bounded_queue cb_wf cb_list "\<lambda>b. cb_size b - 1" cb_put cb_get
proof unfold_locales
  show "length (cb_list s) \<le> cb_size s - 1" if "cb_wf s" for s
    using cb_len_less [OF that] by simp
  show "\<exists>t. cb_put s x = Some (t, True) \<and> cb_wf t \<and> cb_list t = cb_list s @ [x] \<and> cb_size t - 1 = cb_size s - 1"
    if "cb_wf s" "length (cb_list s) < cb_size s - 1" for s x
    using CircularBuffer_write1_spec [OF that(1), of x] that(2) by (auto simp: cb_put_def)
  show "cb_put s x = Some (s, False)" if "cb_wf s" "length (cb_list s) = cb_size s - 1" for s x
    using CircularBuffer_write1_spec [OF that(1), of x] that(2) by (auto simp: cb_put_def)
  show "\<exists>t. cb_get s = Some (t, Some x) \<and> cb_wf t \<and> cb_list t = xs \<and> cb_size t - 1 = cb_size s - 1"
    if "cb_wf s" "cb_list s = x # xs" for s x xs
  proof -
    have l: "cb_len s = Suc (length xs)" using length_cb_list [of s] that(2) by simp
    have "CircularBuffer_readMemoryBlock s [NUL] 1 = Some ([x], 1)"
      using CircularBuffer_readMemoryBlock_spec [OF that(1), of 1 "[NUL]"] l that(2) by simp
    then show ?thesis
      using CircularBuffer_seek_spec [OF that(1), of 1] l that(2) cb_available [OF that(1)]
      by (auto simp: cb_get_def CircularBuffer_isFinished_def)
  qed
  show "cb_get s = Some (s, None)" if "cb_wf s" "cb_list s = []" for s
    using that cb_available [OF that(1)] length_cb_list [of s]
    by (simp add: cb_get_def CircularBuffer_isFinished_def)
qed

section \<open>Properties\<close>

text \<open>C12: \<open>CircularBuffer\<close> as a byte stream: \<open>write\<close> appends the prefix of the data that fits (one slot
  stays free), \<open>readMemoryBlock\<close> copies from the front across the wrap without consuming, and
  \<open>seek\<close> consumes (everything, with result false, when less is stored); all accesses stay in the block, at every position of the two pointers.\<close>

theorem CircularBuffer_stream:
  assumes "cb_wf b" and "n \<le> length data" and "n < 2147483648"
  shows "(\<exists>t. CircularBuffer_write b data n = Some (t, min n (cb_size b - 1 - cb_len b)) \<and> cb_wf t \<and>
      cb_size t = cb_size b \<and> cb_list t = cb_list b @ take (min n (cb_size b - 1 - cb_len b)) data)
    \<and> CircularBuffer_readMemoryBlock b data (int n) =
        Some (take n (cb_list b) @ drop (min n (cb_len b)) data, u16 (min n (cb_len b)))
    \<and> (\<exists>t. CircularBuffer_seek b (int n) = Some (t, n \<le> cb_len b) \<and> cb_wf t \<and>
        cb_size t = cb_size b \<and> cb_list t = drop n (cb_list b))"
  using CircularBuffer_write_spec [OF assms(1,2)] CircularBuffer_readMemoryBlock_spec [OF assms(1), of "int n" data]
    CircularBuffer_seek_spec [OF assms(1), of "int n"] assms
  by (intro conjI) (auto simp: not_le [symmetric])

theorem CircularBuffer_stream_witness:
  "\<exists>t. CircularBuffer_write \<lparr>cb_buffer = ''abcd'', cb_readPos = 3, cb_writePos = 3, cb_size = 4\<rparr> ''xy'' 2 = Some (t, 2)
    \<and> cb_list t = ''xy''"
proof -
  let ?b = "\<lparr>cb_buffer = ''abcd'', cb_readPos = 3, cb_writePos = 3, cb_size = 4\<rparr>"
  have "cb_wf ?b" by (simp add: cb_wf_def)
  from CircularBuffer_stream [OF this, of 2 "''xy''"] show ?thesis
    by (auto simp: cb_len_def cb_list_def)
qed

text \<open>C13: Written character by character and read character by character, a \<open>CircularBuffer\<close> delivers
  what it accepted in order, over every interleaving of the two ends.\<close>

theorem CircularBuffer_in_order:
  "cb_wf b \<Longrightarrow> \<exists>t ins outs. cb.run ops b = Some (t, ins, outs) \<and> cb_wf t \<and> cb_list b @ ins = outs @ cb_list t"
  using cb.run_fifo [of b ops] by blast

theorem CircularBuffer_in_order_witness:
  "\<exists>t ins outs. cb.run [Enq CHR ''a'', Deq, Enq CHR ''b'', Enq CHR ''c''] (CircularBuffer_new ''...'') = Some (t, ins, outs) \<and>
    cb_wf t \<and> cb_list (CircularBuffer_new ''...'') @ ins = outs @ cb_list t"
  by (rule CircularBuffer_in_order) (simp add: cb_wf_def CircularBuffer_new_def)

end
