(* ===== verification/SerialBuffer.thy ===== *)
theory SerialBuffer
  imports Prelude CLib
begin

text \<open>
  \<open>SerialBuffer\<close> of \<open>system/include/SerialBuffer.h\<close>, the byte queue between the UART
  interrupt handler and the tasks. One slot stays free to tell full from empty.
\<close>

record serbuf =
  sb_size :: nat
  sb_readPos :: nat
  sb_writePos :: nat
  sb_buffer :: "byte list option"

definition SerialBuffer_new :: serbuf where
  "SerialBuffer_new = \<lparr>sb_size = 0, sb_readPos = 0, sb_writePos = 0, sb_buffer = None\<rparr>"

definition SerialBuffer_available :: "serbuf \<Rightarrow> nat" where
  "SerialBuffer_available b =
     (let ret = s32 (int (sb_writePos b) - int (sb_readPos b)) in
      to_u32 (if ret < 0 then s32 (ret + int (sb_size b)) else ret))"

definition SerialBuffer_getFreeSpace :: "serbuf \<Rightarrow> nat" where
  "SerialBuffer_getFreeSpace b =
     (let ret = s32 (int (sb_readPos b) - int (sb_writePos b) - 1) in
      to_u32 (if ret < 0 then s32 (ret + int (sb_size b)) else ret))"

definition SerialBuffer_isEmpty :: "serbuf \<Rightarrow> bool" where
  "SerialBuffer_isEmpty b = (sb_writePos b = sb_readPos b)"

definition sb_getNextPos :: "serbuf \<Rightarrow> nat \<Rightarrow> nat" where
  "sb_getNextPos b pos = (let n = u32 (pos + 1) in if n = sb_size b then 0 else n)"

definition sb_getPrevPos :: "serbuf \<Rightarrow> nat \<Rightarrow> nat" where
  "sb_getPrevPos b pos = to_u32 (int (if pos \<noteq> 0 then pos else sb_size b) - 1)"

definition SerialBuffer_peekChar :: "serbuf \<Rightarrow> int option" where
  "SerialBuffer_peekChar b =
     (if sb_buffer b = None \<or> SerialBuffer_isEmpty b then Some (-1)
      else map_option uint (rd (block_of (sb_buffer b)) (sb_readPos b)))"

definition SerialBuffer_peekLastChar :: "serbuf \<Rightarrow> int option" where
  "SerialBuffer_peekLastChar b =
     (if sb_buffer b = None \<or> SerialBuffer_isEmpty b then Some (-1)
      else map_option uint (rd (block_of (sb_buffer b)) (sb_getPrevPos b (sb_writePos b))))"

definition SerialBuffer_readChar :: "serbuf \<Rightarrow> (serbuf \<times> int) option" where
  "SerialBuffer_readChar b =
     (if sb_buffer b = None \<or> SerialBuffer_isEmpty b then Some (b, -1)
      else do {
        c \<leftarrow> rd (block_of (sb_buffer b)) (sb_readPos b);
        Some (b\<lparr>sb_readPos := sb_getNextPos b (sb_readPos b)\<rparr>, uint c) })"

definition SerialBuffer_writeChar :: "serbuf \<Rightarrow> byte \<Rightarrow> (serbuf \<times> nat) option" where
  "SerialBuffer_writeChar b c =
     (let nextPos = sb_getNextPos b (sb_writePos b) in
      if nextPos = sb_readPos b then Some (b, 0)
      else do {
        d \<leftarrow> wr (block_of (sb_buffer b)) (sb_writePos b) c;
        Some (b\<lparr>sb_buffer := Some d, sb_writePos := nextPos\<rparr>, 1) })"

function sb_find_loop :: "serbuf \<Rightarrow> byte \<Rightarrow> nat \<Rightarrow> nat \<Rightarrow> nat \<Rightarrow> int option" where
  "sb_find_loop b c offset pos avail =
     (if pos < avail
      then do {
        x \<leftarrow> rd (block_of (sb_buffer b)) (u32 (offset + pos));
        if x = c then Some (int pos)
        else if u32 (Suc pos + offset) = sb_writePos b then Some (-1)
        else sb_find_loop b c
               (if u32 (Suc pos + offset) = sb_size b then to_u32 (- int (Suc pos)) else offset)
               (Suc pos) avail }
      else Some (-1))"
  by pat_completeness auto
termination
  by (relation "measure (\<lambda>(b, c, offset, pos, avail). avail - pos)") auto

declare sb_find_loop.simps [simp del]

definition SerialBuffer_find :: "serbuf \<Rightarrow> byte \<Rightarrow> int option" where
  "SerialBuffer_find b c = sb_find_loop b c (sb_readPos b) 0 (SerialBuffer_available b)"

text \<open>The copy loop of \<open>resize\<close>: \<open>while(avail-- && new_wpos < newSize) new_buf[new_wpos++] = readChar();\<close>\<close>

fun sb_resize_loop :: "serbuf \<Rightarrow> byte list \<Rightarrow> nat \<Rightarrow> nat \<Rightarrow> nat \<Rightarrow> (serbuf \<times> byte list \<times> nat) option" where
  "sb_resize_loop b new_buf new_wpos newSize 0 = Some (b, new_buf, new_wpos)"
| "sb_resize_loop b new_buf new_wpos newSize (Suc avail) =
     (if new_wpos < newSize
      then do {
        (b1, c) \<leftarrow> SerialBuffer_readChar b;
        d \<leftarrow> wr new_buf new_wpos (word_of_int c);
        sb_resize_loop b1 d (new_wpos + 1) newSize avail }
      else Some (b, new_buf, new_wpos))"

text \<open>\<open>new_block\<close> is the block the allocator provides for \<open>new uint8_t[newSize]\<close>, if any.\<close>

definition SerialBuffer_resize :: "serbuf \<Rightarrow> byte list option \<Rightarrow> nat \<Rightarrow> (serbuf \<times> nat) option" where
  "SerialBuffer_resize b new_block newSize =
     (if sb_size b = newSize then Some (b, sb_size b)
      else case new_block of
        None \<Rightarrow> Some (b, sb_size b)
      | Some block \<Rightarrow> do {
          (_, new_buf, new_wpos) \<leftarrow> sb_resize_loop b block 0 newSize (SerialBuffer_available b);
          Some (\<lparr>sb_size = newSize, sb_readPos = 0, sb_writePos = new_wpos, sb_buffer = Some new_buf\<rparr>,
                newSize) })"

definition SerialBuffer_clear :: "serbuf \<Rightarrow> serbuf" where
  "SerialBuffer_clear b = b\<lparr>sb_readPos := 0, sb_writePos := 0\<rparr>"

end
