(* ===== verification/SerialBufferProps.thy ===== *)
theory SerialBufferProps
  imports SerialBuffer RingBuffer
begin

text \<open>
  \<open>SerialBuffer\<close> as a bounded queue of bytes, \<open>find\<close> as the first position in the queue, and
  \<open>resize\<close>, which keeps the queue when the new size is larger than the number of bytes
  stored and otherwise leaves the write position outside the new block.
\<close>

definition sb_wf :: "serbuf \<Rightarrow> bool" where
  "sb_wf b = (0 < sb_size b \<and> sb_size b < 2147483648 \<and> sb_readPos b < sb_size b
     \<and> sb_writePos b < sb_size b \<and> (\<exists>d. sb_buffer b = Some d \<and> length d = sb_size b))"

definition sb_len :: "serbuf \<Rightarrow> nat" where
  "sb_len b = (if sb_readPos b \<le> sb_writePos b then sb_writePos b - sb_readPos b
     else sb_size b - (sb_readPos b - sb_writePos b))"

definition sb_list :: "serbuf \<Rightarrow> byte list" where
  "sb_list b = ring (block_of (sb_buffer b)) (sb_readPos b) (sb_len b)"

lemma length_sb_list [simp]: "length (sb_list b) = sb_len b"
  by (simp add: sb_list_def)

lemma sb_block: "sb_wf b \<Longrightarrow> length (block_of (sb_buffer b)) = sb_size b"
  by (auto simp: sb_wf_def)

lemma sb_len_less: "sb_wf b \<Longrightarrow> sb_len b < sb_size b"
  by (auto simp: sb_len_def sb_wf_def)

lemma sb_available: "sb_wf b \<Longrightarrow> SerialBuffer_available b = sb_len b"
proof -
  assume wf: "sb_wf b"
  then have "s32 (int (sb_writePos b) - int (sb_readPos b)) = int (sb_writePos b) - int (sb_readPos b)"
    by (intro s32_id) (auto simp: sb_wf_def)
  moreover have "s32 (int (sb_writePos b) - int (sb_readPos b) + int (sb_size b)) =
      int (sb_writePos b) - int (sb_readPos b) + int (sb_size b)" if "sb_writePos b < sb_readPos b"
    using wf that by (intro s32_id) (auto simp: sb_wf_def)
  ultimately show ?thesis
    using wf by (auto simp: SerialBuffer_available_def Let_def sb_len_def sb_wf_def to_u32_id of_nat_diff nat_diff_distrib)
qed

lemma sb_free: "sb_wf b \<Longrightarrow> SerialBuffer_getFreeSpace b = sb_size b - 1 - sb_len b"
proof -
  assume wf: "sb_wf b"
  then have "s32 (int (sb_readPos b) - int (sb_writePos b) - 1) = int (sb_readPos b) - int (sb_writePos b) - 1"
    by (intro s32_id) (auto simp: sb_wf_def)
  moreover have "s32 (int (sb_readPos b) - int (sb_writePos b) - 1 + int (sb_size b)) =
      int (sb_readPos b) - int (sb_writePos b) - 1 + int (sb_size b)" if "sb_readPos b \<le> sb_writePos b"
    using wf that by (intro s32_id) (auto simp: sb_wf_def)
  ultimately show ?thesis
    using wf by (auto simp: SerialBuffer_getFreeSpace_def Let_def sb_len_def sb_wf_def to_u32_def of_nat_diff)
qed

lemma sb_next: "sb_wf b \<Longrightarrow> p < sb_size b \<Longrightarrow> sb_getNextPos b p = Suc p mod sb_size b"
  by (auto simp: sb_getNextPos_def sb_wf_def Let_def mod_if)

lemma sb_writePos_eq: "sb_wf b \<Longrightarrow> sb_writePos b = (sb_readPos b + sb_len b) mod sb_size b"
proof (cases "sb_readPos b \<le> sb_writePos b")
  case True
  assume "sb_wf b"
  with True show ?thesis by (auto simp: sb_wf_def sb_len_def)
next
  case False
  assume wf: "sb_wf b"
  with False have "sb_readPos b + sb_len b = sb_writePos b + sb_size b"
    by (auto simp: sb_wf_def sb_len_def)
  with wf show ?thesis by (auto simp: sb_wf_def)
qed

lemma sb_empty: "sb_wf b \<Longrightarrow> SerialBuffer_isEmpty b \<longleftrightarrow> sb_list b = []"
  by (auto simp: SerialBuffer_isEmpty_def sb_wf_def sb_len_def simp flip: length_0_conv)

lemma sb_len_step:
  "sb_wf b \<Longrightarrow> sb_len b < sb_size b - 1 \<Longrightarrow>
    sb_len (b\<lparr>sb_buffer := d, sb_writePos := Suc (sb_writePos b) mod sb_size b\<rparr>) = Suc (sb_len b)
    \<and> Suc (sb_writePos b) mod sb_size b \<noteq> sb_readPos b"
  by (auto simp: sb_len_def sb_wf_def mod_if split: if_splits)

lemma SerialBuffer_writeChar_spec:
  assumes "sb_wf b"
  shows "(sb_len b < sb_size b - 1 \<longrightarrow> (\<exists>t. SerialBuffer_writeChar b c = Some (t, 1) \<and> sb_wf t
      \<and> sb_list t = sb_list b @ [c] \<and> sb_size t = sb_size b))
    \<and> (sb_len b = sb_size b - 1 \<longrightarrow> SerialBuffer_writeChar b c = Some (b, 0))"
proof (intro conjI impI)
  assume "sb_len b = sb_size b - 1"
  then have "Suc (sb_writePos b) mod sb_size b = sb_readPos b"
    using assms by (auto simp: sb_len_def sb_wf_def mod_if split: if_splits)
  then show "SerialBuffer_writeChar b c = Some (b, 0)"
    using assms sb_next [OF assms, of "sb_writePos b"] by (simp add: SerialBuffer_writeChar_def sb_wf_def)
next
  assume lt: "sb_len b < sb_size b - 1"
  obtain d where d: "sb_buffer b = Some d" "length d = sb_size b" "sb_writePos b < sb_size b"
    using assms by (auto simp: sb_wf_def)
  let ?t = "b\<lparr>sb_buffer := Some (d[sb_writePos b := c]), sb_writePos := Suc (sb_writePos b) mod sb_size b\<rparr>"
  note st = sb_len_step [OF assms lt, of "Some (d[sb_writePos b := c])"]
  have "SerialBuffer_writeChar b c = Some (?t, 1)"
    using d st sb_next [OF assms d(3)] by (simp add: SerialBuffer_writeChar_def wr_def)
  moreover have "sb_wf ?t" using assms d by (auto simp: sb_wf_def)
  moreover have "sb_list ?t = sb_list b @ [c]"
    using ring_snoc [of "sb_len b" d "sb_readPos b" c] d lt st sb_writePos_eq [OF assms]
    by (simp add: sb_list_def)
  ultimately show "\<exists>t. SerialBuffer_writeChar b c = Some (t, 1) \<and> sb_wf t
      \<and> sb_list t = sb_list b @ [c] \<and> sb_size t = sb_size b" by simp
qed

lemma sb_rd_first:
  assumes "sb_wf b" and "sb_list b = x # xs"
  shows "rd (block_of (sb_buffer b)) (sb_readPos b) = Some x"
    and "xs = ring (block_of (sb_buffer b)) (Suc (sb_readPos b)) (sb_len b - 1)" and "0 < sb_len b"
proof -
  let ?d = "block_of (sb_buffer b)"
  show n: "0 < sb_len b" using length_sb_list [of b] assms(2) by simp
  have r: "sb_readPos b < length ?d" using assms(1) sb_block [OF assms(1)] by (simp add: sb_wf_def)
  have "x # xs = ?d ! sb_readPos b # ring ?d (Suc (sb_readPos b)) (sb_len b - 1)"
    using ring_Cons [OF n, of ?d "sb_readPos b"] assms(2) r by (simp add: sb_list_def)
  then show "rd ?d (sb_readPos b) = Some x" "xs = ring ?d (Suc (sb_readPos b)) (sb_len b - 1)"
    using r by (simp_all add: rd_def)
qed

lemma SerialBuffer_readChar_spec:
  assumes "sb_wf b"
  shows "sb_list b = x # xs \<Longrightarrow> \<exists>t. SerialBuffer_readChar b = Some (t, uint x) \<and> sb_wf t \<and> sb_list t = xs
      \<and> sb_size t = sb_size b \<and> sb_len t = sb_len b - 1"
    and "sb_list b = [] \<Longrightarrow> SerialBuffer_readChar b = Some (b, -1)"
proof -
  assume l: "sb_list b = x # xs"
  note f = sb_rd_first [OF assms l]
  have ne: "sb_buffer b \<noteq> None" "\<not> SerialBuffer_isEmpty b"
    using assms l sb_empty [OF assms] by (auto simp: sb_wf_def)
  have r: "sb_readPos b < sb_size b" using assms by (simp add: sb_wf_def)
  let ?t = "b\<lparr>sb_readPos := Suc (sb_readPos b) mod sb_size b\<rparr>"
  have "SerialBuffer_readChar b = Some (?t, uint x)"
    using ne f(1) sb_next [OF assms r] by (auto simp: SerialBuffer_readChar_def)
  moreover have "sb_wf ?t" using assms by (auto simp: sb_wf_def)
  moreover have len: "sb_len ?t = sb_len b - 1"
    using f(3) assms by (auto simp: sb_len_def sb_wf_def mod_if split: if_splits)
  moreover have "sb_list ?t = xs"
    using f(2) len ring_mod [of "block_of (sb_buffer b)" "Suc (sb_readPos b)"] sb_block [OF assms]
    by (simp add: sb_list_def)
  ultimately show "\<exists>t. SerialBuffer_readChar b = Some (t, uint x) \<and> sb_wf t \<and> sb_list t = xs
      \<and> sb_size t = sb_size b \<and> sb_len t = sb_len b - 1" by simp
next
  assume "sb_list b = []"
  with sb_empty [OF assms] show "SerialBuffer_readChar b = Some (b, -1)"
    by (simp add: SerialBuffer_readChar_def)
qed

text \<open>The two ends as the interrupt handler and the tasks use them.\<close>

definition sb_put :: "serbuf \<Rightarrow> byte \<Rightarrow> (serbuf \<times> bool) option" where
  "sb_put b c = map_option (\<lambda>(t, n). (t, n \<noteq> 0)) (SerialBuffer_writeChar b c)"

definition sb_get :: "serbuf \<Rightarrow> (serbuf \<times> byte option) option" where
  "sb_get b = map_option (\<lambda>(t, c). (t, if c < 0 then None else Some (word_of_int c))) (SerialBuffer_readChar b)"

interpretation sb: bounded_queue sb_wf sb_list "\<lambda>b. sb_size b - 1" sb_put sb_get
proof unfold_locales
  show "length (sb_list s) \<le> sb_size s - 1" if "sb_wf s" for s
    using sb_len_less [OF that] by simp
  show "\<exists>t. sb_put s x = Some (t, True) \<and> sb_wf t \<and> sb_list t = sb_list s @ [x] \<and> sb_size t - 1 = sb_size s - 1"
    if "sb_wf s" "length (sb_list s) < sb_size s - 1" for s x
    using SerialBuffer_writeChar_spec [OF that(1), of x] that(2) by (auto simp: sb_put_def)
  show "sb_put s x = Some (s, False)" if "sb_wf s" "length (sb_list s) = sb_size s - 1" for s x
    using SerialBuffer_writeChar_spec [OF that(1), of x] that(2) by (auto simp: sb_put_def)
  show "\<exists>t. sb_get s = Some (t, Some x) \<and> sb_wf t \<and> sb_list t = xs \<and> sb_size t - 1 = sb_size s - 1"
    if "sb_wf s" "sb_list s = x # xs" for s x xs
  proof -
    from SerialBuffer_readChar_spec(1) [OF that] obtain t where
      t: "SerialBuffer_readChar s = Some (t, uint x)" "sb_wf t" "sb_list t = xs" "sb_size t = sb_size s" by blast
    have "\<not> uint x < 0" by (simp add: not_less)
    with t have "sb_get s = Some (t, Some x)" by (simp add: sb_get_def)
    with t show ?thesis by simp
  qed
  show "sb_get s = Some (s, None)" if "sb_wf s" "sb_list s = []" for s
    using SerialBuffer_readChar_spec(2) [OF that] by (simp add: sb_get_def)
qed

section \<open>find\<close>

lemma u32_u32_add: "u32 (u32 a + c) = u32 (a + c)"
  by (simp add: u32_def mod_simps)

lemma u32_neg_cancel: "n < 4294967296 \<Longrightarrow> u32 (to_u32 (- int n) + n) = 0"
proof -
  assume "n < 4294967296"
  have "int (to_u32 (- int n) + n) = (- int n) mod 4294967296 + int n" by (simp add: to_u32_def)
  then have "int (u32 (to_u32 (- int n) + n)) = ((- int n) mod 4294967296 + int n) mod 4294967296"
    by (simp add: u32_def zmod_int)
  also have "\<dots> = 0" by (simp add: mod_simps)
  finally show ?thesis by simp
qed

lemma sb_find_loop_spec:
  assumes "sb_wf b"
  shows "pos \<le> sb_len b \<Longrightarrow>
    pos < sb_len b \<longrightarrow> u32 (offset + pos) = (sb_readPos b + pos) mod sb_size b \<Longrightarrow>
    sb_find_loop b c offset pos (sb_len b) =
      Some (case first_index (drop pos (sb_list b)) c of None \<Rightarrow> -1 | Some k \<Rightarrow> int (pos + k))"
proof (induction "sb_len b - pos" arbitrary: pos offset)
  case 0
  then show ?case by (simp add: sb_find_loop.simps [of b c offset pos])
next
  case (Suc m)
  let ?L = "sb_size b" and ?r = "sb_readPos b" and ?d = "block_of (sb_buffer b)"
  let ?i = "(?r + pos) mod ?L"
  have pos: "pos < sb_len b" using Suc.hyps(2) by simp
  have L: "0 < ?L" "?L < 2147483648" using assms by (auto simp: sb_wf_def)
  have i: "u32 (offset + pos) = ?i" "?i < ?L" using Suc.prems(2) pos L by auto
  have x: "rd ?d (u32 (offset + pos)) = Some (sb_list b ! pos)"
    using i sb_block [OF assms] pos by (simp add: rd_def sb_list_def)
  have dr: "drop pos (sb_list b) = sb_list b ! pos # drop (Suc pos) (sb_list b)"
    using pos by (simp add: drop_nth_Cons)
  have nx: "u32 (Suc pos + offset) = ?i + 1"
  proof -
    have "u32 (Suc pos + offset) = u32 (?i + 1)"
      using u32_u32_add [of "offset + pos" 1] i(1) by (simp add: add.commute)
    also have "\<dots> = ?i + 1" using i(2) L(2) by (intro u32_id) linarith
    finally show ?thesis .
  qed
  show ?case
  proof (cases "sb_list b ! pos = c")
    case True
    with pos x show ?thesis unfolding dr by (simp add: sb_find_loop.simps [of b c offset pos])
  next
    case False
    show ?thesis
    proof (cases "?i + 1 = sb_writePos b")
      case True
      have "Suc pos = sb_len b"
      proof (rule ccontr)
        assume "Suc pos \<noteq> sb_len b"
        with pos have lt: "Suc pos < sb_len b" by simp
        have "?i + 1 < ?L" using True assms by (simp add: sb_wf_def)
        then have "(?r + Suc pos) mod ?L = ?i + 1" by (simp add: mod_Suc)
        moreover have "(?r + Suc pos) mod ?L \<noteq> (?r + sb_len b) mod ?L"
          using lt sb_len_less [OF assms] by (intro mod_inj_less) auto
        ultimately show False using True sb_writePos_eq [OF assms] by simp
      qed
      then show ?thesis
        unfolding dr using pos x True False nx by (simp add: sb_find_loop.simps [of b c offset pos])
    next
      case nw: False
      let ?o = "if ?i + 1 = ?L then to_u32 (- int (Suc pos)) else offset"
      have "u32 (?o + Suc pos) = (?r + Suc pos) mod ?L"
      proof (cases "?i + 1 = ?L")
        case True
        then have "(?r + Suc pos) mod ?L = 0" by (simp add: mod_Suc)
        moreover have "Suc pos < 4294967296" using pos sb_len_less [OF assms] L by simp
        ultimately show ?thesis using u32_neg_cancel [of "Suc pos"] True by simp
      next
        case False
        then have "(?r + Suc pos) mod ?L = ?i + 1" by (simp add: mod_Suc)
        with False nx show ?thesis by (simp add: add.commute)
      qed
      then have "sb_find_loop b c ?o (Suc pos) (sb_len b) =
          Some (case first_index (drop (Suc pos) (sb_list b)) c of None \<Rightarrow> -1 | Some k \<Rightarrow> int (Suc pos + k))"
        using Suc.hyps pos by simp
      moreover have "sb_find_loop b c offset pos (sb_len b) = sb_find_loop b c ?o (Suc pos) (sb_len b)"
        using pos x False nw nx by (simp add: sb_find_loop.simps [of b c offset pos])
      ultimately show ?thesis unfolding dr using False by (auto split: option.splits)
    qed
  qed
qed

lemma SerialBuffer_find_spec:
  assumes "sb_wf b"
  shows "SerialBuffer_find b c = Some (case first_index (sb_list b) c of None \<Rightarrow> -1 | Some k \<Rightarrow> int k)"
proof -
  have "u32 (sb_readPos b + 0) = (sb_readPos b + 0) mod sb_size b"
    using assms by (simp add: sb_wf_def)
  then show ?thesis
    using sb_find_loop_spec [OF assms, of 0 "sb_readPos b" c] sb_available [OF assms]
    by (auto simp: SerialBuffer_find_def split: option.splits)
qed

section \<open>resize\<close>

lemma sb_resize_loop_spec:
  "sb_wf b \<Longrightarrow> w \<le> length buf \<Longrightarrow>
    \<exists>b1. sb_resize_loop b buf w (length buf) (sb_len b) =
      Some (b1, take w buf @ take (length buf - w) (sb_list b) @ drop (w + min (length buf - w) (sb_len b)) buf,
            w + min (length buf - w) (sb_len b))"
proof (induction "sb_len b" arbitrary: b buf w)
  case 0
  then have "sb_list b = []" by (simp add: sb_list_def)
  with 0 show ?case by simp
next
  case (Suc n)
  show ?case
  proof (cases "w < length buf")
    case False
    with Suc.prems Suc.hyps(2) show ?thesis by (simp flip: Suc.hyps(2))
  next
    case True
    obtain x xs where l: "sb_list b = x # xs"
      using length_sb_list [of b] Suc.hyps(2) by (cases "sb_list b") auto
    from SerialBuffer_readChar_spec(1) [OF Suc.prems(1) l] obtain t where
      t: "SerialBuffer_readChar b = Some (t, uint x)" "sb_wf t" "sb_list t = xs" "sb_len t = sb_len b - 1"
      by blast
    have n: "n = sb_len t" using t(4) Suc.hyps(2) by simp
    let ?buf = "buf[w := x]"
    from Suc.hyps(1) [OF n t(2), of "Suc w" ?buf] True obtain b1 where b1:
      "sb_resize_loop t ?buf (Suc w) (length buf) (sb_len t) =
        Some (b1, take (Suc w) ?buf @ take (length buf - Suc w) xs @
          drop (Suc w + min (length buf - Suc w) (sb_len t)) ?buf,
          Suc w + min (length buf - Suc w) (sb_len t))" using t(3) by auto
    have "sb_resize_loop b buf w (length buf) (Suc n) = sb_resize_loop t ?buf (Suc w) (length buf) n"
      using t(1) True by (simp add: wr_def)
    moreover have "take (Suc w) ?buf = take w buf @ [x]" using True by (simp add: take_Suc_conv_app_nth)
    moreover have "w + min (length buf - w) (Suc n) = Suc w + min (length buf - Suc w) n"
      using True by auto
    moreover have "take (length buf - w) (sb_list b) = x # take (length buf - Suc w) xs"
      using True l by (simp add: take_Cons' Suc_diff_Suc)
    ultimately show ?thesis using b1 n unfolding Suc.hyps(2) [symmetric] by simp
  qed
qed

lemma SerialBuffer_resize_spec:
  assumes "sb_wf b" and "length block = n" and "n \<noteq> sb_size b" and "sb_len b < n" and "n < 2147483648"
  shows "\<exists>t. SerialBuffer_resize b (Some block) n = Some (t, n) \<and> sb_wf t \<and> sb_size t = n \<and> sb_list t = sb_list b"
proof -
  obtain b1 where l: "sb_resize_loop b block 0 n (sb_len b) =
      Some (b1, sb_list b @ drop (sb_len b) block, sb_len b)"
    using sb_resize_loop_spec [OF assms(1), of 0 block] assms(2,4) by (auto simp: min_def)
  let ?t = "\<lparr>sb_size = n, sb_readPos = 0, sb_writePos = sb_len b, sb_buffer = Some (sb_list b @ drop (sb_len b) block)\<rparr>"
  have "SerialBuffer_resize b (Some block) n = Some (?t, n)"
    using l assms(3) sb_available [OF assms(1)] by (simp add: SerialBuffer_resize_def)
  moreover have "sb_wf ?t" using assms(2,4,5) by (auto simp: sb_wf_def)
  moreover have "sb_list ?t = sb_list b"
    using assms(2,4) ring_straight [of 0 "sb_len b" "sb_list b @ drop (sb_len b) block"]
    by (simp add: sb_list_def [of ?t] sb_len_def [of ?t])
  ultimately show ?thesis by auto
qed

text \<open>When the stored bytes fill the new block, the next byte written lands behind it.\<close>

lemma SerialBuffer_resize_overrun:
  assumes "sb_wf b" and "length block = n" and "n < sb_size b" and "n \<le> sb_len b" and "0 < n"
  shows "\<exists>t. SerialBuffer_resize b (Some block) n = Some (t, n) \<and> sb_writePos t = n \<and>
    SerialBuffer_writeChar t c = None"
proof -
  obtain b1 d where l: "sb_resize_loop b block 0 n (sb_len b) = Some (b1, d, n)" "length d = n"
    using sb_resize_loop_spec [OF assms(1), of 0 block] assms(2,4) by (auto simp: min_def)
  let ?t = "\<lparr>sb_size = n, sb_readPos = 0, sb_writePos = n, sb_buffer = Some d\<rparr>"
  have "SerialBuffer_resize b (Some block) n = Some (?t, n)"
    using l assms(3) sb_available [OF assms(1)] by (simp add: SerialBuffer_resize_def)
  moreover have "SerialBuffer_writeChar ?t c = None"
    using assms(1,3) l(2) by (auto simp: SerialBuffer_writeChar_def sb_getNextPos_def wr_def sb_wf_def Let_def)
  ultimately show ?thesis by auto
qed

section \<open>Properties\<close>

definition sb_fresh :: "byte list \<Rightarrow> serbuf" where
  "sb_fresh d = \<lparr>sb_size = length d, sb_readPos = 0, sb_writePos = 0, sb_buffer = Some d\<rparr>"

lemma sb_wf_fresh: "0 < length d \<Longrightarrow> length d < 2147483648 \<Longrightarrow> sb_wf (sb_fresh d)"
  by (simp add: sb_fresh_def sb_wf_def)

text \<open>C14: \<open>SerialBuffer\<close> delivers in order: over every interleaving of \<open>writeChar\<close> and \<open>readChar\<close>, the bytes
  accepted are the bytes delivered followed by the bytes still stored.\<close>

theorem SerialBuffer_in_order:
  "sb_wf b \<Longrightarrow> \<exists>t ins outs. sb.run ops b = Some (t, ins, outs) \<and> sb_wf t \<and> sb_list b @ ins = outs @ sb_list t"
  using sb.run_fifo [of b ops] by blast

theorem SerialBuffer_in_order_witness:
  "\<exists>t ins outs. sb.run [Enq 1, Enq 2, Deq, Enq 3] (sb_fresh [0, 0, 0]) = Some (t, ins, outs) \<and> sb_wf t \<and>
    sb_list (sb_fresh [0, 0, 0]) @ ins = outs @ sb_list t"
  by (rule SerialBuffer_in_order) (simp add: sb_wf_fresh)

text \<open>C15: \<open>find\<close> returns the position of the first occurrence of the byte in the queue, across the wrap
  of the ring and of the unsigned offset, and -1 when there is none.\<close>

theorem SerialBuffer_find_first:
  "sb_wf b \<Longrightarrow>
    SerialBuffer_find b c = Some (case first_index (sb_list b) c of None \<Rightarrow> -1 | Some k \<Rightarrow> int k)"
  by (rule SerialBuffer_find_spec)

theorem SerialBuffer_find_first_witness:
  "SerialBuffer_find \<lparr>sb_size = 3, sb_readPos = 2, sb_writePos = 1, sb_buffer = Some [5, 0, 4]\<rparr> 5 = Some 1"
proof -
  let ?b = "\<lparr>sb_size = 3, sb_readPos = 2, sb_writePos = 1, sb_buffer = Some [5, 0, 4]\<rparr>"
  have "sb_wf ?b" by (simp add: sb_wf_def)
  moreover have "sb_list ?b = [4, 5]" by (simp add: sb_list_def sb_len_def ring_Suc numeral_2_eq_2)
  ultimately show ?thesis using SerialBuffer_find_first [of ?b 5] by simp
qed

text \<open>C16: Error: \<open>resize\<close> to a size not larger than the number of bytes stored puts the write position
  behind the new block, and the next byte received is written outside it.\<close>

theorem SerialBuffer_shrink_overruns:
  assumes "sb_wf b" and "length block = n" and "n < sb_size b" and "n \<le> sb_len b" and "0 < n"
  shows "\<exists>t. SerialBuffer_resize b (Some block) n = Some (t, n) \<and> sb_writePos t = n \<and>
    SerialBuffer_writeChar t c = None"
  using assms by (rule SerialBuffer_resize_overrun)

theorem SerialBuffer_shrink_overruns_witness:
  "\<exists>t. SerialBuffer_resize \<lparr>sb_size = 3, sb_readPos = 0, sb_writePos = 2, sb_buffer = Some [1, 2, 0]\<rparr> (Some [0]) 1 = Some (t, 1)
    \<and> sb_writePos t = 1 \<and> SerialBuffer_writeChar t 9 = None"
  by (rule SerialBuffer_shrink_overruns) (simp_all add: sb_wf_def sb_len_def)

end
