(* ===== verification/Uart.thy ===== *)
theory Uart
  imports SerialBuffer
begin

text \<open>
  The UART driver of \<open>system/uart.cpp\<close> and \<open>system/include/espinc/uart.h\<close>.

  The hardware of one UART is the record \<open>uart_regs\<close>: its two 128-byte FIFOs and the
  registers the driver uses. A write to \<open>USIC\<close> clears the status bits it names; reading
  \<open>USF\<close> takes the oldest byte of the receive FIFO and writing it appends to the transmit
  FIFO; the status register \<open>USS\<close> shows the two fill counts and, above each of
  them, pin levels. The driver's object is the record \<open>uart_t\<close>; a null \<open>uart_t*\<close> is \<open>None\<close>.
  The functions of a single port take and return the object and its registers.
\<close>

section \<open>Hardware\<close>

unbundle bit_operations_syntax

record uart_regs =
  RXF :: "byte list"
  TXF :: "byte list"
  USIS :: "32 word"
  USIE :: "32 word"
  USC0 :: "32 word"
  USC1 :: "32 word"
  USD :: nat
  hw_levels :: nat
  hw_inputs :: nat

definition UIFF :: nat where "UIFF = 0"
definition UIFE :: nat where "UIFE = 1"
definition UIFR :: nat where "UIFR = 3"
definition UITO :: nat where "UITO = 8"

text \<open>\<open>hw_levels\<close> holds the output levels (bits 29 to 31), \<open>hw_inputs\<close> the input levels (bits 13 to 15).\<close>

definition USS :: "uart_regs \<Rightarrow> nat" where
  "USS r = 2 ^ 29 * hw_levels r + 2 ^ 16 * length (TXF r) + 2 ^ 13 * hw_inputs r + length (RXF r)"

definition UART_RXCOUNT :: "uart_regs \<Rightarrow> nat" where
  "UART_RXCOUNT r = (USS r div 2 ^ 0) mod 128"

definition UART_TXCOUNT :: "uart_regs \<Rightarrow> nat" where
  "UART_TXCOUNT r = USS r div 2 ^ 16"

definition UART_TXFULL :: "uart_regs \<Rightarrow> bool" where
  "UART_TXFULL r = (0x7f \<le> UART_TXCOUNT r)"

definition USF_write :: "uart_regs \<Rightarrow> byte \<Rightarrow> uart_regs" where
  "USF_write r c = r\<lparr>TXF := TXF r @ [c]\<rparr>"

definition USF_read :: "uart_regs \<Rightarrow> (uart_regs \<times> byte) option" where
  "USF_read r = (case RXF r of [] \<Rightarrow> None | c # cs \<Rightarrow> Some (r\<lparr>RXF := cs\<rparr>, c))"

definition USIC_write :: "uart_regs \<Rightarrow> 32 word \<Rightarrow> uart_regs" where
  "USIC_write r v = r\<lparr>USIS := USIS r AND NOT v\<rparr>"

section \<open>The driver object\<close>

datatype uart_mode = UART_FULL | UART_RX_ONLY | UART_TX_ONLY

definition UART_OPT_TXWAIT :: nat where "UART_OPT_TXWAIT = 0"

definition UART_TX_FIFO_SIZE :: nat where "UART_TX_FIFO_SIZE = 128"

record uart_t =
  uart_nr :: nat
  baud_rate :: nat
  mode :: uart_mode
  options :: "8 word"
  rx_pin :: nat
  tx_pin :: nat
  rx_buffer :: "serbuf option"
  tx_buffer :: "serbuf option"
  callback :: bool

definition uart_tx_enabled :: "uart_t option \<Rightarrow> bool" where
  "uart_tx_enabled uart = (case uart of None \<Rightarrow> False | Some u \<Rightarrow> mode u \<noteq> UART_RX_ONLY)"

definition uart_rx_enabled :: "uart_t option \<Rightarrow> bool" where
  "uart_rx_enabled uart = (case uart of None \<Rightarrow> False | Some u \<Rightarrow> mode u \<noteq> UART_TX_ONLY)"

definition uart_set_callback :: "uart_t option \<Rightarrow> bool \<Rightarrow> uart_t option" where
  "uart_set_callback uart cb = map_option (\<lambda>u. u\<lparr>callback := cb\<rparr>) uart"

definition uart_set_options :: "uart_t option \<Rightarrow> 8 word \<Rightarrow> uart_t option" where
  "uart_set_options uart opts = map_option (\<lambda>u. u\<lparr>options := opts\<rparr>) uart"

definition uart_get_options :: "uart_t option \<Rightarrow> 8 word" where
  "uart_get_options uart = (case uart of None \<Rightarrow> 0 | Some u \<Rightarrow> options u)"

definition uart_get_nr :: "uart_t option \<Rightarrow> int" where
  "uart_get_nr uart = (case uart of None \<Rightarrow> -1 | Some u \<Rightarrow> int (uart_nr u))"

section \<open>Buffers\<close>

text \<open>
  \<open>realloc_buffer\<close>: \<open>new_object\<close> tells whether \<open>new SerialBuffer\<close> succeeds and \<open>new_block\<close> is
  the block for its storage, if the allocator has one.
\<close>

definition realloc_buffer ::
  "bool \<Rightarrow> byte list option \<Rightarrow> serbuf option \<Rightarrow> nat \<Rightarrow> (serbuf option \<times> bool) option" where
  "realloc_buffer new_object new_block buffer new_size = (case buffer of
     Some b \<Rightarrow>
       (if new_size = 0 then Some (None, True)
        else do { (b1, n) \<leftarrow> SerialBuffer_resize b new_block new_size; Some (Some b1, n = new_size) })
   | None \<Rightarrow>
       (if new_size = 0 then Some (None, True)
        else if \<not> new_object then Some (None, False)
        else do {
          (b1, n) \<leftarrow> SerialBuffer_resize SerialBuffer_new new_block new_size;
          Some (if n \<noteq> 0 then (Some b1, True) else (None, False)) }))"

definition uart_rx_buffer_size :: "uart_t option \<Rightarrow> nat" where
  "uart_rx_buffer_size uart = (case uart of None \<Rightarrow> 0 | Some u \<Rightarrow>
     (case rx_buffer u of None \<Rightarrow> 0 | Some b \<Rightarrow> sb_size b))"

definition uart_tx_buffer_size :: "uart_t option \<Rightarrow> nat" where
  "uart_tx_buffer_size uart = (case uart of None \<Rightarrow> 0 | Some u \<Rightarrow>
     (case tx_buffer u of None \<Rightarrow> 0 | Some b \<Rightarrow> sb_size b))"

definition uart_resize_rx_buffer ::
  "bool \<Rightarrow> byte list option \<Rightarrow> uart_t option \<Rightarrow> nat \<Rightarrow> (uart_t option \<times> nat) option" where
  "uart_resize_rx_buffer new_object new_block uart new_size = do {
     uart1 \<leftarrow> (if uart_rx_enabled uart
       then do { (b, _) \<leftarrow> realloc_buffer new_object new_block (rx_buffer (the uart)) new_size;
                 Some (Some ((the uart)\<lparr>rx_buffer := b\<rparr>)) }
       else Some uart);
     Some (uart1, uart_rx_buffer_size uart1) }"

definition uart_resize_tx_buffer ::
  "bool \<Rightarrow> byte list option \<Rightarrow> uart_t option \<Rightarrow> nat \<Rightarrow> (uart_t option \<times> nat) option" where
  "uart_resize_tx_buffer new_object new_block uart new_size = do {
     uart1 \<leftarrow> (if uart_tx_enabled uart
       then do { (b, _) \<leftarrow> realloc_buffer new_object new_block (tx_buffer (the uart)) new_size;
                 Some (Some ((the uart)\<lparr>tx_buffer := b\<rparr>)) }
       else Some uart);
     Some (uart1, uart_tx_buffer_size uart1) }"

definition uart_peek_char :: "uart_t option \<Rightarrow> int option" where
  "uart_peek_char uart = (case uart of None \<Rightarrow> Some (-1) | Some u \<Rightarrow>
     (case rx_buffer u of None \<Rightarrow> Some (-1) | Some b \<Rightarrow> SerialBuffer_peekChar b))"

definition uart_peek_last_char :: "uart_t option \<Rightarrow> int option" where
  "uart_peek_last_char uart = (case uart of None \<Rightarrow> Some (-1) | Some u \<Rightarrow>
     (case rx_buffer u of None \<Rightarrow> Some (-1) | Some b \<Rightarrow> SerialBuffer_peekLastChar b))"

definition uart_rx_find :: "uart_t option \<Rightarrow> byte \<Rightarrow> int option" where
  "uart_rx_find uart c = (case uart of None \<Rightarrow> Some (-1) | Some u \<Rightarrow>
     (case rx_buffer u of None \<Rightarrow> Some (-1) | Some b \<Rightarrow> SerialBuffer_find b c))"

section \<open>Reading\<close>

text \<open>The two copy loops of \<open>uart_read\<close>.\<close>

function uart_read_buffer ::
  "serbuf \<Rightarrow> byte list \<Rightarrow> nat \<Rightarrow> nat \<Rightarrow> (serbuf \<times> byte list \<times> nat) option" where
  "uart_read_buffer b buf read size1 =
     (if read < size1 \<and> \<not> SerialBuffer_isEmpty b
      then do {
        (b1, c) \<leftarrow> SerialBuffer_readChar b;
        buf1 \<leftarrow> wr buf read (word_of_int c);
        uart_read_buffer b1 buf1 (read + 1) size1 }
      else Some (b, buf, read))"
  by pat_completeness auto
termination
  by (relation "measure (\<lambda>(b, buf, read, size1). size1 - read)") auto

declare uart_read_buffer.simps [simp del]

function uart_read_fifo ::
  "uart_regs \<Rightarrow> byte list \<Rightarrow> nat \<Rightarrow> nat \<Rightarrow> (uart_regs \<times> byte list \<times> nat) option" where
  "uart_read_fifo r buf read size1 =
     (if read < size1 \<and> UART_RXCOUNT r \<noteq> 0
      then do {
        (r1, c) \<leftarrow> USF_read r;
        buf1 \<leftarrow> wr buf read c;
        uart_read_fifo r1 buf1 (read + 1) size1 }
      else Some (r, buf, read))"
  by pat_completeness auto
termination
  by (relation "measure (\<lambda>(r, buf, read, size1). size1 - read)") auto

declare uart_read_fifo.simps [simp del]

definition uart_read ::
  "uart_t option \<Rightarrow> uart_regs \<Rightarrow> byte list option \<Rightarrow> nat
     \<Rightarrow> (uart_t option \<times> uart_regs \<times> byte list option \<times> nat) option" where
  "uart_read uart r buffer size1 =
     (if \<not> uart_rx_enabled uart \<or> buffer = None \<or> size1 = 0 then Some (uart, r, buffer, 0)
      else do {
        (rxb, buf, read) \<leftarrow> (case rx_buffer (the uart) of
            None \<Rightarrow> Some (None, the buffer, 0)
          | Some b \<Rightarrow> do { (b1, buf, read) \<leftarrow> uart_read_buffer b (the buffer) 0 size1;
                           Some (Some b1, buf, read) });
        (r1, buf1, read1) \<leftarrow> uart_read_fifo r buf read size1;
        Some (Some ((the uart)\<lparr>rx_buffer := rxb\<rparr>),
              r1\<lparr>USIE := set_bit UITO (set_bit UIFF (USIE r1))\<rparr>, Some buf1, read1) })"

definition uart_rx_available :: "uart_t option \<Rightarrow> uart_regs \<Rightarrow> nat" where
  "uart_rx_available uart r =
     (if \<not> uart_rx_enabled uart then 0
      else u32 (UART_RXCOUNT r + (case rx_buffer (the uart) of None \<Rightarrow> 0 | Some b \<Rightarrow> SerialBuffer_available b)))"

section \<open>The interrupt service routine\<close>

fun isr_receive :: "serbuf \<Rightarrow> uart_regs \<Rightarrow> nat \<Rightarrow> nat \<Rightarrow> (serbuf \<times> uart_regs \<times> nat) option" where
  "isr_receive b r 0 read = Some (b, r, read)"
| "isr_receive b r (Suc space) read =
     (if UART_RXCOUNT r \<noteq> 0
      then do {
        (r1, c) \<leftarrow> USF_read r;
        (b1, _) \<leftarrow> SerialBuffer_writeChar b c;
        isr_receive b1 r1 space (read + 1) }
      else Some (b, r, read))"

fun isr_transmit :: "serbuf \<Rightarrow> uart_regs \<Rightarrow> nat \<Rightarrow> (serbuf \<times> uart_regs) option" where
  "isr_transmit b r 0 = Some (b, r)"
| "isr_transmit b r (Suc avail) =
     (if \<not> UART_TXFULL r
      then do {
        (b1, c) \<leftarrow> SerialBuffer_readChar b;
        isr_transmit b1 (USF_write r (word_of_int c)) avail }
      else Some (b, r))"

text \<open>The receive branch: FIFO full or timeout.\<close>

definition isr_rx :: "uart_t \<Rightarrow> uart_regs \<Rightarrow> (uart_t \<times> uart_regs) option" where
  "isr_rx u r = do {
     (rxb, r1, read) \<leftarrow> (case rx_buffer u of
         None \<Rightarrow> Some (None, r, 0)
       | Some b \<Rightarrow> do { (b1, r1, read) \<leftarrow> isr_receive b r (SerialBuffer_getFreeSpace b) 0;
                        Some (Some b1, r1, read) });
     let r2 = USIC_write r1 (set_bit UITO 0);
     Some (u\<lparr>rx_buffer := rxb\<rparr>,
           if read = 0 then r2\<lparr>USIE := unset_bit UITO (unset_bit UIFF (USIE r2))\<rparr> else r2) }"

text \<open>The transmit branch: the new state, and whether the FIFO stayed empty.\<close>

definition isr_tx :: "uart_t \<Rightarrow> uart_regs \<Rightarrow> (uart_t \<times> uart_regs \<times> bool) option" where
  "isr_tx u r = (case tx_buffer u of
     None \<Rightarrow> Some (u, r, True)
   | Some b \<Rightarrow>
      (if SerialBuffer_isEmpty b then Some (u, r, True)
       else do {
         (b1, r1) \<leftarrow> isr_transmit b r (SerialBuffer_available b);
         Some (u\<lparr>tx_buffer := Some b1\<rparr>, r1, UART_TXCOUNT r1 = 0) }))"

text \<open>
  The handler of one UART; \<open>enabled\<close> is \<open>UART_ISR_ENABLED(uart_nr)\<close>. The last component is the
  status the user callback is invoked with, if it is invoked.
\<close>

definition handle_uart_interrupt ::
  "bool \<Rightarrow> uart_t option \<Rightarrow> uart_regs \<Rightarrow> (uart_t option \<times> uart_regs \<times> 32 word option) option" where
  "handle_uart_interrupt enabled uart r =
     (let usis = USIS r in
      if usis = 0 then Some (uart, r, None)
      else let r0 = USIC_write r usis in
      case uart of
        None \<Rightarrow> Some (uart, r0\<lparr>USIE := 0\<rparr>, None)
      | Some u \<Rightarrow>
         (if \<not> enabled then Some (uart, r0\<lparr>USIE := 0\<rparr>, None)
          else do {
            (u1, r1) \<leftarrow> (if bit usis UIFF \<or> bit usis UITO then isr_rx u r0 else Some (u, r0));
            (u2, r2, tx_fifo_empty) \<leftarrow>
              (if bit usis UIFE then isr_tx u1 r1 else Some (u1, r1, False));
            let usis1 = (if bit usis UIFE \<and> \<not> tx_fifo_empty then unset_bit UIFE usis else usis);
            let r3 = (if tx_fifo_empty then r2\<lparr>USIE := unset_bit UIFE (USIE r2)\<rparr> else r2);
            Some (Some u2, r3, if usis1 \<noteq> 0 \<and> callback u2 then Some usis1 else None) }))"

section \<open>Writing\<close>

text \<open>The two loops of a pass of \<open>uart_write\<close>: into the hardware FIFO, then into the buffer.\<close>

function uart_write_fifo :: "uart_regs \<Rightarrow> byte list \<Rightarrow> nat \<Rightarrow> nat \<Rightarrow> (uart_regs \<times> nat) option" where
  "uart_write_fifo r buf written size1 =
     (if written < size1 \<and> \<not> UART_TXFULL r
      then do { c \<leftarrow> rd buf written; uart_write_fifo (USF_write r c) buf (written + 1) size1 }
      else Some (r, written))"
  by pat_completeness auto
termination
  by (relation "measure (\<lambda>(r, buf, written, size1). size1 - written)") auto

declare uart_write_fifo.simps [simp del]

function uart_write_buffer :: "serbuf \<Rightarrow> byte list \<Rightarrow> nat \<Rightarrow> nat \<Rightarrow> (serbuf \<times> nat) option" where
  "uart_write_buffer b buf written size1 =
     (if written < size1
      then do {
        c \<leftarrow> rd buf written;
        (b1, n) \<leftarrow> SerialBuffer_writeChar b c;
        if n \<noteq> 0 then uart_write_buffer b1 buf (written + 1) size1 else Some (b1, written) }
      else Some (b, written))"
  by pat_completeness auto
termination
  by (relation "measure (\<lambda>(b, buf, written, size1). size1 - written)") auto

declare uart_write_buffer.simps [simp del]

definition uart_write_pass ::
  "uart_t \<Rightarrow> uart_regs \<Rightarrow> byte list \<Rightarrow> nat \<Rightarrow> nat \<Rightarrow> (uart_t \<times> uart_regs \<times> nat) option" where
  "uart_write_pass u r buf written size1 = do {
     (r1, w1) \<leftarrow> (case tx_buffer u of
         None \<Rightarrow> uart_write_fifo r buf written size1
       | Some b \<Rightarrow> if SerialBuffer_isEmpty b then uart_write_fifo r buf written size1
                   else Some (r, written));
     case tx_buffer u of
       None \<Rightarrow> Some (u, r1, w1)
     | Some b \<Rightarrow> do { (b1, w2) \<leftarrow> uart_write_buffer b buf w1 size1;
                      Some (u\<lparr>tx_buffer := Some b1\<rparr>, r1, w2) } }"

text \<open>
  The endless loop. \<open>env i\<close> is what the interrupt handler and the hardware do to the port
  between pass \<open>i\<close> and the next one.
\<close>

partial_function (option) uart_write_loop ::
  "(nat \<Rightarrow> uart_t \<times> uart_regs \<Rightarrow> uart_t \<times> uart_regs) \<Rightarrow> nat \<Rightarrow> uart_t \<Rightarrow> uart_regs \<Rightarrow> byte list
     \<Rightarrow> nat \<Rightarrow> nat \<Rightarrow> (uart_t \<times> uart_regs \<times> nat) option" where
  "uart_write_loop env i u r buf written size1 = do {
     (u1, r1, w1) \<leftarrow> uart_write_pass u r buf written size1;
     if size1 \<le> w1 \<or> \<not> bit (options u1) UART_OPT_TXWAIT then Some (u1, r1, w1)
     else (case env i (u1, r1) of (u2, r2) \<Rightarrow> uart_write_loop env (Suc i) u2 r2 buf w1 size1) }"

definition uart_write ::
  "(nat \<Rightarrow> uart_t \<times> uart_regs \<Rightarrow> uart_t \<times> uart_regs) \<Rightarrow> uart_t option \<Rightarrow> uart_regs
     \<Rightarrow> byte list option \<Rightarrow> nat \<Rightarrow> (uart_t option \<times> uart_regs \<times> nat) option" where
  "uart_write env uart r buffer size1 =
     (if \<not> uart_tx_enabled uart \<or> buffer = None \<or> size1 = 0 then Some (uart, r, 0)
      else do {
        (u1, r1, written) \<leftarrow> uart_write_loop env 0 (the uart) r (the buffer) 0 size1;
        Some (Some u1, if written \<noteq> 0 then r1\<lparr>USIE := set_bit UIFE (USIE r1)\<rparr> else r1, written) })"

definition uart_tx_free :: "uart_t option \<Rightarrow> uart_regs \<Rightarrow> nat" where
  "uart_tx_free uart r =
     (if \<not> uart_tx_enabled uart then 0
      else u32 (to_u32 (int UART_TX_FIFO_SIZE - int (UART_TXCOUNT r)) +
        (case tx_buffer (the uart) of None \<Rightarrow> 0 | Some b \<Rightarrow> SerialBuffer_getFreeSpace b)))"

text \<open>Setting and clearing the two reset bits of \<open>USC0\<close> empties the FIFOs.\<close>

definition uart_flush :: "uart_t option \<Rightarrow> uart_regs \<Rightarrow> uart_t option \<times> uart_regs" where
  "uart_flush uart r = (case uart of
     None \<Rightarrow> (None, r)
   | Some u \<Rightarrow>
      (let u1 = u\<lparr>rx_buffer := map_option SerialBuffer_clear (rx_buffer u),
                  tx_buffer := map_option SerialBuffer_clear (tx_buffer u)\<rparr>;
           ie1 = unset_bit UIFE (USIE r);
           ie2 = (if uart_rx_enabled uart then set_bit UITO (set_bit UIFF ie1) else ie1) in
       (Some u1, r\<lparr>USIE := ie2, USC0 := unset_bit 18 (unset_bit 17 (USC0 r)), RXF := [], TXF := []\<rparr>)))"

text \<open>
  \<open>uart_wait_tx_empty\<close> polls first the buffer, then the FIFO; \<open>env i\<close> is what happens to the port
  during the \<open>i\<close>-th \<open>delay(0)\<close>.
\<close>

partial_function (option) wait_fifo_empty ::
  "(nat \<Rightarrow> uart_t \<times> uart_regs \<Rightarrow> uart_t \<times> uart_regs) \<Rightarrow> nat \<Rightarrow> uart_t \<Rightarrow> uart_regs
     \<Rightarrow> (uart_t \<times> uart_regs) option" where
  "wait_fifo_empty env i u r =
     (if UART_TXCOUNT r \<noteq> 0 then (case env i (u, r) of (u1, r1) \<Rightarrow> wait_fifo_empty env (Suc i) u1 r1)
      else Some (u, r))"

partial_function (option) wait_buffer_empty ::
  "(nat \<Rightarrow> uart_t \<times> uart_regs \<Rightarrow> uart_t \<times> uart_regs) \<Rightarrow> nat \<Rightarrow> uart_t \<Rightarrow> uart_regs
     \<Rightarrow> (uart_t \<times> uart_regs) option" where
  "wait_buffer_empty env i u r =
     (if tx_buffer u \<noteq> None \<and> \<not> SerialBuffer_isEmpty (the (tx_buffer u))
      then (case env i (u, r) of (u1, r1) \<Rightarrow> wait_buffer_empty env (Suc i) u1 r1)
      else wait_fifo_empty env i u r)"

definition uart_wait_tx_empty ::
  "(nat \<Rightarrow> uart_t \<times> uart_regs \<Rightarrow> uart_t \<times> uart_regs) \<Rightarrow> uart_t option \<Rightarrow> uart_regs
     \<Rightarrow> (uart_t option \<times> uart_regs) option" where
  "uart_wait_tx_empty env uart r =
     (if \<not> uart_tx_enabled uart then Some (uart, r)
      else map_option (\<lambda>(u, r). (Some u, r)) (wait_buffer_empty env 0 (the uart) r))"

section \<open>Baud rate\<close>

definition ESP8266_CLOCK :: nat where "ESP8266_CLOCK = 80000000"

definition uart_set_baudrate_reg :: "int \<Rightarrow> uart_regs \<Rightarrow> nat \<Rightarrow> uart_regs \<times> nat" where
  "uart_set_baudrate_reg nr r baud =
     (if nr < 0 \<or> 1 < nr \<or> baud = 0 then (r, 0)
      else let clkdiv = ESP8266_CLOCK div baud in
        (r\<lparr>USD := clkdiv\<rparr>, if clkdiv \<noteq> 0 then ESP8266_CLOCK div clkdiv else 0))"

definition uart_set_baudrate :: "uart_t option \<Rightarrow> uart_regs \<Rightarrow> nat \<Rightarrow> uart_t option \<times> uart_regs \<times> nat" where
  "uart_set_baudrate uart r baud = (case uart of
     None \<Rightarrow> (None, r, 0)
   | Some u \<Rightarrow> (case uart_set_baudrate_reg (int (uart_nr u)) r baud of
       (r1, b) \<Rightarrow> (Some (u\<lparr>baud_rate := b\<rparr>), r1, b)))"

end
