(* ===== verification/UartSystem.thy ===== *)
theory UartSystem
  imports Uart
begin

text \<open>
  The part of \<open>system/uart.cpp\<close> that works on all UARTs: the instance table, the shared interrupt
  routine, initialisation and release of a port, pin selection and debug output. \<open>uart_t\<close> objects
  live in a heap indexed by addresses, so that a pointer to a deleted object can be told from null:
  reading through it yields \<open>None\<close>. \<open>pinMode\<close> is recorded as the last mode of each pin.
\<close>

unbundle bit_operations_syntax

datatype pin_mode = INPUT | SPECIAL | FUNCTION_0 | FUNCTION_4

record uart_sys =
  us_regs :: "nat \<Rightarrow> uart_regs"
  us_heap :: "nat \<Rightarrow> uart_t option"
  uartInstances :: "nat \<Rightarrow> nat option"
  isrMask :: "8 word"
  intr_enabled :: bool
  us_pins :: "nat \<Rightarrow> pin_mode"
  IOSWAPU0 :: bool
  s_uart_debug_nr :: int
  os_print :: bool

definition UART_COUNT :: nat where "UART_COUNT = 2"
definition UART_NO :: int where "UART_NO = -1"

definition pinMode :: "uart_sys \<Rightarrow> nat \<Rightarrow> pin_mode \<Rightarrow> uart_sys" where
  "pinMode s p m = s\<lparr>us_pins := (us_pins s)(p := m)\<rparr>"

definition upd_regs :: "nat \<Rightarrow> (uart_regs \<Rightarrow> uart_regs) \<Rightarrow> uart_sys \<Rightarrow> uart_sys" where
  "upd_regs nr f s = s\<lparr>us_regs := (us_regs s)(nr := f (us_regs s nr))\<rparr>"

definition uart_get_uart :: "uart_sys \<Rightarrow> nat \<Rightarrow> nat option" where
  "uart_get_uart s nr = (if nr < UART_COUNT then uartInstances s nr else None)"

definition uart_disable_interrupts :: "uart_sys \<Rightarrow> uart_sys" where
  "uart_disable_interrupts s = s\<lparr>intr_enabled := False\<rparr>"

definition uart_restore_interrupts :: "uart_sys \<Rightarrow> uart_sys" where
  "uart_restore_interrupts s = (if isrMask s \<noteq> 0 then s\<lparr>intr_enabled := True\<rparr> else s)"

section \<open>Interrupts\<close>

text \<open>One of the two calls of \<open>uart_isr\<close>. The object is only read when its interrupts are enabled.\<close>

definition uart_service :: "nat \<Rightarrow> uart_sys \<Rightarrow> uart_sys option" where
  "uart_service nr s =
     (let r = us_regs s nr in
      if USIS r = 0 then Some s
      else if uartInstances s nr = None \<or> \<not> bit (isrMask s) nr
      then map_option (\<lambda>(_, r1, _). s\<lparr>us_regs := (us_regs s)(nr := r1)\<rparr>) (handle_uart_interrupt False None r)
      else do {
        u \<leftarrow> us_heap s (the (uartInstances s nr));
        (uart1, r1, _) \<leftarrow> handle_uart_interrupt True (Some u) r;
        Some (s\<lparr>us_regs := (us_regs s)(nr := r1),
                us_heap := (us_heap s)(the (uartInstances s nr) := uart1)\<rparr>) })"

definition uart_isr :: "uart_sys \<Rightarrow> uart_sys option" where
  "uart_isr s = do { s1 \<leftarrow> uart_service 0 s; uart_service 1 s1 }"

definition uart_detach :: "nat \<Rightarrow> uart_sys \<Rightarrow> uart_sys" where
  "uart_detach nr s =
     (let s1 = uart_disable_interrupts s;
          s2 = s1\<lparr>isrMask := unset_bit nr (isrMask s1)\<rparr>;
          s3 = upd_regs nr (\<lambda>r. (USIC_write (r\<lparr>USC1 := 0\<rparr>) 0xffff)\<lparr>USIE := 0\<rparr>) s2 in
      uart_restore_interrupts s3)"

fun uart_detach_loop :: "nat list \<Rightarrow> uart_sys \<Rightarrow> uart_sys" where
  "uart_detach_loop [] s = s"
| "uart_detach_loop (nr # nrs) s =
     uart_detach_loop nrs (upd_regs nr (\<lambda>r. (USIC_write (r\<lparr>USC1 := 0\<rparr>) 0xffff)\<lparr>USIE := 0\<rparr>) s)"

definition uart_detach_all :: "uart_sys \<Rightarrow> uart_sys" where
  "uart_detach_all s =
     (uart_detach_loop [0..<UART_COUNT] (uart_disable_interrupts s))\<lparr>isrMask := 0\<rparr>"

definition uart_start_isr :: "uart_t option \<Rightarrow> uart_sys \<Rightarrow> uart_sys" where
  "uart_start_isr uart s = (case uart of
     None \<Rightarrow> s
   | Some u \<Rightarrow>
      (if UART_COUNT \<le> uart_nr u then s
       else
        let usc1 = (if uart_rx_enabled uart then 127 OR push_bit 24 2 OR set_bit 31 0 else 0);
            usie = (if uart_rx_enabled uart then set_bit UITO (set_bit UIFR (set_bit UIFF 0)) else 0);
            s1 = upd_regs (uart_nr u)
                   (\<lambda>r. (USIC_write (r\<lparr>USC1 := usc1\<rparr>) 0xffff)\<lparr>USIE := usie\<rparr>) s;
            oldmask = isrMask s1;
            s2 = s1\<lparr>isrMask := set_bit (uart_nr u) (isrMask s1)\<rparr> in
        if oldmask = 0 then s2\<lparr>intr_enabled := True\<rparr> else s2))"

definition uart_stop_isr :: "uart_t option \<Rightarrow> uart_sys \<Rightarrow> uart_sys" where
  "uart_stop_isr uart s = (case uart of None \<Rightarrow> s | Some u \<Rightarrow> uart_detach (uart_nr u) s)"

section \<open>Debug output\<close>

definition uart_set_debug :: "int \<Rightarrow> uart_sys \<Rightarrow> uart_sys" where
  "uart_set_debug nr s =
     (if uart_get_uart s (nat (nr mod 256)) = None then s\<lparr>s_uart_debug_nr := UART_NO, os_print := False\<rparr>
      else s\<lparr>s_uart_debug_nr := nr, os_print := True\<rparr>)"

definition uart_get_debug :: "uart_sys \<Rightarrow> int" where
  "uart_get_debug s = s_uart_debug_nr s"

definition uart_debug_putc ::
  "(nat \<Rightarrow> uart_t \<times> uart_regs \<Rightarrow> uart_t \<times> uart_regs) \<Rightarrow> byte \<Rightarrow> uart_sys \<Rightarrow> uart_sys option" where
  "uart_debug_putc env c s = (case uart_get_uart s (nat (s_uart_debug_nr s mod 256)) of
     None \<Rightarrow> Some s
   | Some a \<Rightarrow> do {
       u \<leftarrow> us_heap s a;
       (uart1, r1, _) \<leftarrow> uart_write env (Some u) (us_regs s (uart_nr u)) (Some [c]) 1;
       Some (s\<lparr>us_heap := (us_heap s)(a := uart1), us_regs := (us_regs s)(uart_nr u := r1)\<rparr>) })"

section \<open>Initialisation and release\<close>

record uart_config =
  cfg_uart_nr :: nat
  cfg_tx_pin :: nat
  cfg_mode :: uart_mode
  cfg_options :: "8 word"
  cfg_baudrate :: nat
  cfg_config :: "32 word"
  cfg_rx_size :: nat
  cfg_tx_size :: nat

text \<open>What the allocator answers to the up to five requests of \<open>uart_init_ex\<close>.\<close>

record uart_alloc =
  new_uart :: "nat option"
  new_rx :: bool
  new_rx_block :: "byte list option"
  new_tx :: bool
  new_tx_block :: "byte list option"

text \<open>The \<open>UART0\<close> case; the inner option is empty when the function gives up and returns null.\<close>

definition uart_init_uart0 ::
  "uart_alloc \<Rightarrow> uart_config \<Rightarrow> uart_t \<Rightarrow> uart_sys \<Rightarrow> (uart_t \<times> uart_sys) option option" where
  "uart_init_uart0 m cfg u s = do {
     (rxb, rx_ok) \<leftarrow> (if uart_rx_enabled (Some u)
        then realloc_buffer (new_rx m) (new_rx_block m) (rx_buffer u) (cfg_rx_size cfg)
        else Some (rx_buffer u, True));
     if \<not> rx_ok then Some None
     else do {
       (txb, tx_ok) \<leftarrow> (if uart_tx_enabled (Some u)
          then realloc_buffer (new_tx m) (new_tx_block m) (tx_buffer u) (cfg_tx_size cfg)
          else Some (tx_buffer u, True));
       if \<not> tx_ok then Some None
       else
         let s1 = uart_detach (cfg_uart_nr cfg) s;
             s2 = (if uart_rx_enabled (Some u) then pinMode s1 3 SPECIAL else s1);
             tx = (if \<not> uart_tx_enabled (Some u) then 255 else if cfg_tx_pin cfg = 2 then 2 else 1);
             s3 = (if \<not> uart_tx_enabled (Some u) then s2
                   else pinMode s2 tx (if cfg_tx_pin cfg = 2 then FUNCTION_4 else FUNCTION_0)) in
         Some (Some (u\<lparr>rx_pin := if uart_rx_enabled (Some u) then 3 else 255, tx_pin := tx,
                       rx_buffer := rxb, tx_buffer := txb\<rparr>,
                     s3\<lparr>IOSWAPU0 := False\<rparr>)) } }"

definition uart_init_uart1 ::
  "uart_alloc \<Rightarrow> uart_config \<Rightarrow> uart_t \<Rightarrow> uart_sys \<Rightarrow> (uart_t \<times> uart_sys) option option" where
  "uart_init_uart1 m cfg u s =
     (if mode u = UART_RX_ONLY then Some None
      else do {
        (txb, tx_ok) \<leftarrow> (if cfg_tx_size cfg \<noteq> 0
           then realloc_buffer (new_tx m) (new_tx_block m) (tx_buffer u) (cfg_tx_size cfg)
           else Some (tx_buffer u, True));
        if \<not> tx_ok then Some None
        else Some (Some (u\<lparr>mode := UART_TX_ONLY, rx_pin := 255, tx_pin := 2, tx_buffer := txb\<rparr>,
                         pinMode (uart_detach (cfg_uart_nr cfg) s) 2 SPECIAL)) })"

definition uart_init_ex :: "uart_alloc \<Rightarrow> uart_config \<Rightarrow> uart_sys \<Rightarrow> (uart_sys \<times> nat option) option" where
  "uart_init_ex m cfg s =
     (if uart_get_uart s (cfg_uart_nr cfg) \<noteq> None then Some (s, None)
      else case new_uart m of
        None \<Rightarrow> Some (s, None)
      | Some a \<Rightarrow>
         (let u = \<lparr>uart_nr = cfg_uart_nr cfg, baud_rate = 0, mode = cfg_mode cfg, options = cfg_options cfg,
                   rx_pin = 0, tx_pin = 0, rx_buffer = None, tx_buffer = None, callback = False\<rparr> in do {
          port \<leftarrow> (if cfg_uart_nr cfg = 0 then uart_init_uart0 m cfg u s
                  else if cfg_uart_nr cfg = 1 then uart_init_uart1 m cfg u s
                  else Some None);
          case port of
            None \<Rightarrow> Some (s, None)
          | Some (u1, s1) \<Rightarrow>
             (case uart_set_baudrate (Some u1) (us_regs s1 (cfg_uart_nr cfg)) (cfg_baudrate cfg) of
               (uart2, r2, _) \<Rightarrow>
             (case uart_flush uart2 (r2\<lparr>USC0 := cfg_config cfg\<rparr>) of
               (uart3, r3) \<Rightarrow>
                 let s2 = s1\<lparr>us_regs := (us_regs s1)(cfg_uart_nr cfg := r3),
                             us_heap := (us_heap s1)(a := uart3),
                             uartInstances := (uartInstances s1)(cfg_uart_nr cfg \<mapsto> a)\<rparr> in
                 Some (uart_start_isr uart3 (uart_restore_interrupts (uart_disable_interrupts s2)), Some a))) }))"

definition uart_init ::
  "uart_alloc \<Rightarrow> nat \<Rightarrow> nat \<Rightarrow> 32 word \<Rightarrow> uart_mode \<Rightarrow> nat \<Rightarrow> nat \<Rightarrow> nat \<Rightarrow> uart_sys
     \<Rightarrow> (uart_sys \<times> nat option) option" where
  "uart_init m nr baudrate config md tx rx_size tx_size s =
     uart_init_ex m \<lparr>cfg_uart_nr = nr, cfg_tx_pin = tx, cfg_mode = md,
       cfg_options = set_bit UART_OPT_TXWAIT 0, cfg_baudrate = baudrate, cfg_config = config,
       cfg_rx_size = rx_size, cfg_tx_size = tx_size\<rparr> s"

definition uart_uninit :: "nat option \<Rightarrow> uart_sys \<Rightarrow> uart_sys option" where
  "uart_uninit uart s = (case uart of
     None \<Rightarrow> Some s
   | Some a \<Rightarrow> do {
       u \<leftarrow> us_heap s a;
       let s1 = uart_stop_isr (Some u) s;
       let s2 = (if int (uart_nr u) = s_uart_debug_nr s1 then uart_set_debug UART_NO s1 else s1);
       let s3 = (if rx_pin u = 3 \<or> rx_pin u = 13 then pinMode s2 (rx_pin u) INPUT else s2);
       let s4 = (if tx_pin u = 1 \<or> tx_pin u = 2 \<or> tx_pin u = 15 then pinMode s3 (tx_pin u) INPUT else s3);
       Some (s4\<lparr>us_heap := (us_heap s4)(a := None)\<rparr>) })"

section \<open>Pins\<close>

definition uart_swap :: "uart_t option \<Rightarrow> int \<Rightarrow> uart_sys \<Rightarrow> uart_t option \<times> uart_sys" where
  "uart_swap uart tx s = (case uart of
     None \<Rightarrow> (None, s)
   | Some u \<Rightarrow>
      (if uart_nr u \<noteq> 0 then (uart, s)
       else let te = uart_tx_enabled uart; re = uart_rx_enabled uart in
       if ((tx_pin u = 1 \<or> tx_pin u = 2) \<and> te) \<or> (rx_pin u = 3 \<and> re)
       then
         let s1 = (if te then pinMode s (tx_pin u) INPUT else s);
             s2 = (if re then pinMode s1 (rx_pin u) INPUT else s1);
             s3 = (if te then pinMode s2 15 FUNCTION_4 else s2);
             s4 = (if re then pinMode s3 13 FUNCTION_4 else s3) in
         (Some (u\<lparr>tx_pin := if te then 15 else tx_pin u, rx_pin := if re then 13 else rx_pin u\<rparr>),
          s4\<lparr>IOSWAPU0 := True\<rparr>)
       else
         let new_tx = (if tx = 2 then 2 else 1);
             s1 = (if te then pinMode s (tx_pin u) INPUT else s);
             s2 = (if re then pinMode s1 (rx_pin u) INPUT else s1);
             s3 = (if te then pinMode s2 new_tx (if tx = 2 then FUNCTION_4 else SPECIAL) else s2);
             s4 = (if re then pinMode s3 3 SPECIAL else s3) in
         (Some (u\<lparr>tx_pin := if te then new_tx else tx_pin u, rx_pin := if re then 3 else rx_pin u\<rparr>),
          s4\<lparr>IOSWAPU0 := False\<rparr>)))"

definition uart_set_tx :: "uart_t option \<Rightarrow> int \<Rightarrow> uart_sys \<Rightarrow> uart_t option \<times> uart_sys" where
  "uart_set_tx uart tx s = (case uart of
     None \<Rightarrow> (None, s)
   | Some u \<Rightarrow>
      (if uart_nr u \<noteq> 0 \<or> \<not> uart_tx_enabled uart then (uart, s)
       else if tx_pin u = 1 \<and> tx = 2
       then (Some (u\<lparr>tx_pin := 2\<rparr>), pinMode (pinMode s 1 INPUT) 2 FUNCTION_4)
       else if tx_pin u = 2 \<and> tx \<noteq> 2
       then (Some (u\<lparr>tx_pin := 1\<rparr>), pinMode (pinMode s 2 INPUT) 1 SPECIAL)
       else (uart, s)))"

definition uart_set_pins :: "uart_t option \<Rightarrow> int \<Rightarrow> int \<Rightarrow> uart_sys \<Rightarrow> uart_t option \<times> uart_sys" where
  "uart_set_pins uart tx rx s = (case uart of
     None \<Rightarrow> (None, s)
   | Some u \<Rightarrow>
      (if uart_nr u \<noteq> 0 then (uart, s)
       else
         let (uart1, s1) =
           (if uart_tx_enabled uart \<and> int (tx_pin u) \<noteq> tx
            then if rx = 13 \<and> tx = 15 then uart_swap uart 15 s
                 else if rx = 3 \<and> (tx = 1 \<or> tx = 2)
                 then if int (rx_pin u) \<noteq> rx then uart_swap uart tx s else uart_set_tx uart tx s
                 else (uart, s)
            else (uart, s)) in
         if uart_rx_enabled uart1 \<and> int (rx_pin (the uart1)) \<noteq> rx \<and> rx = 13 \<and> tx = 15
         then uart_swap uart1 15 s1 else (uart1, s1)))"

end
