(* ===== verification/UartProps.thy ===== *)
theory UartProps
  imports Uart SerialBufferProps
begin

text \<open>
  What the UART driver guarantees: the bytes that arrive are delivered in order and none is lost
  between the FIFO and the reader; the bytes accepted for writing go out in order; a waiting write
  completes when room keeps appearing; and the baud rate is the nearest the divisor allows from above.
\<close>

section \<open>Ports\<close>

definition regs_ok :: "uart_regs \<Rightarrow> bool" where
  "regs_ok r \<longleftrightarrow> hw_levels r = 0 \<and> hw_inputs r < 8 \<and> length (TXF r) \<le> 127 \<and> length (RXF r) \<le> 128"

definition buf_ok :: "serbuf option \<Rightarrow> bool" where
  "buf_ok ob = (case ob of None \<Rightarrow> True | Some b \<Rightarrow> sb_wf b)"

definition buf_bytes :: "serbuf option \<Rightarrow> byte list" where
  "buf_bytes ob = (case ob of None \<Rightarrow> [] | Some b \<Rightarrow> sb_list b)"

lemma buf_simps [simp]:
  "buf_ok None" "buf_ok (Some b) = sb_wf b" "buf_bytes None = []" "buf_bytes (Some b) = sb_list b"
  by (simp_all add: buf_ok_def buf_bytes_def)

definition port_ok :: "uart_t \<Rightarrow> uart_regs \<Rightarrow> bool" where
  "port_ok u r \<longleftrightarrow> regs_ok r \<and> buf_ok (rx_buffer u) \<and> buf_ok (tx_buffer u)"

text \<open>The bytes on their way to the reader, and those on their way to the wire, oldest first.\<close>

definition rx_stream :: "uart_t \<Rightarrow> uart_regs \<Rightarrow> byte list" where
  "rx_stream u r = buf_bytes (rx_buffer u) @ RXF r"

definition tx_stream :: "uart_t \<Rightarrow> uart_regs \<Rightarrow> byte list" where
  "tx_stream u r = TXF r @ buf_bytes (tx_buffer u)"

lemma rxcount: "regs_ok r \<Longrightarrow> UART_RXCOUNT r = length (RXF r) mod 128"
proof -
  have "USS r = 128 * (2 ^ 22 * hw_levels r + 2 ^ 9 * length (TXF r) + 2 ^ 6 * hw_inputs r) + length (RXF r)"
    by (simp add: USS_def)
  then show ?thesis unfolding UART_RXCOUNT_def by (simp only: power_0 div_by_1 mod_mult_self4)
qed

lemma txcount: "regs_ok r \<Longrightarrow> UART_TXCOUNT r = length (TXF r)"
proof -
  assume ok: "regs_ok r"
  have "USS r = 65536 * length (TXF r) + (8192 * hw_inputs r + length (RXF r))"
    and "8192 * hw_inputs r + length (RXF r) < 65536"
    using ok by (simp_all add: USS_def regs_ok_def)
  then show ?thesis by (simp add: UART_TXCOUNT_def)
qed

lemma txfull: "regs_ok r \<Longrightarrow> UART_TXFULL r \<longleftrightarrow> length (TXF r) = 127"
  using txcount [of r] by (auto simp: UART_TXFULL_def regs_ok_def)

lemma regs_ok_upd [simp]:
  "regs_ok (r\<lparr>USIE := a\<rparr>) = regs_ok r" "regs_ok (r\<lparr>USIS := a\<rparr>) = regs_ok r"
  "regs_ok (USIC_write r a) = regs_ok r" "regs_ok (r\<lparr>USC0 := a\<rparr>) = regs_ok r"
  "regs_ok (r\<lparr>USC1 := a\<rparr>) = regs_ok r" "regs_ok (r\<lparr>USD := d\<rparr>) = regs_ok r"
  by (simp_all add: regs_ok_def USIC_write_def)

lemma USIC_write_simps [simp]:
  "RXF (USIC_write r a) = RXF r" "TXF (USIC_write r a) = TXF r" "USIE (USIC_write r a) = USIE r"
  by (simp_all add: USIC_write_def)

section \<open>Reading\<close>

lemma uint_word_back [simp]: "word_of_int (uint (c :: byte)) = c"
  by simp

lemma uart_read_buffer_spec:
  "sb_wf b \<Longrightarrow> read \<le> size1 \<Longrightarrow> size1 \<le> length buf \<Longrightarrow> k = min (size1 - read) (sb_len b) \<Longrightarrow>
    \<exists>t. uart_read_buffer b buf read size1 =
          Some (t, take read buf @ take k (sb_list b) @ drop (read + k) buf, read + k)
      \<and> sb_wf t \<and> sb_list t = drop k (sb_list b)"
proof (induction b buf read size1 arbitrary: k rule: uart_read_buffer.induct)
  case (1 b buf read size1)
  show ?case
  proof (cases "read < size1 \<and> sb_list b \<noteq> []")
    case False
    then have "\<not> (read < size1 \<and> \<not> SerialBuffer_isEmpty b)" and "k = 0"
      using "1.prems" sb_empty [of b] length_sb_list [of b] by (auto simp del: length_sb_list)
    then show ?thesis using "1.prems" by (subst uart_read_buffer.simps) (simp only: if_not_P, simp)
  next
    case True
    then obtain x xs where l: "sb_list b = x # xs" by (cases "sb_list b") auto
    obtain t where t: "SerialBuffer_readChar b = Some (t, uint x)" "sb_wf t" "sb_list t = xs" "sb_len t = sb_len b - 1"
      using SerialBuffer_readChar_spec(1) [OF "1.prems"(1) l] by blast
    have ne: "\<not> SerialBuffer_isEmpty b" using True sb_empty [OF "1.prems"(1)] by simp
    have len: "sb_len b = Suc (length xs)" using length_sb_list [of b] l by simp
    define j where "j = min (size1 - (read + 1)) (sb_len t)"
    have k: "k = Suc j" using "1.prems"(4) t(4) len True unfolding j_def by auto
    have w: "wr buf read x = Some (buf[read := x])" using True "1.prems"(3) by (simp add: wr_def)
    have "\<exists>s. uart_read_buffer t (buf[read := x]) (read + 1) size1 =
          Some (s, take (read + 1) (buf[read := x]) @ take j (sb_list t) @ drop (read + 1 + j) (buf[read := x]), read + 1 + j)
        \<and> sb_wf s \<and> sb_list s = drop j (sb_list t)"
      by (rule "1.IH" [OF _ t(1) refl]) (use True ne t "1.prems" w in \<open>auto simp: j_def\<close>)
    moreover have "take (read + 1) (buf[read := x]) = take read buf @ [x]"
      using True "1.prems"(3) by (simp add: take_Suc_conv_app_nth)
    ultimately show ?thesis
      using True ne t w l k by (simp add: uart_read_buffer.simps [of b])
  qed
qed

definition fifo_ready :: "uart_regs \<Rightarrow> nat" where
  "fifo_ready r = length (RXF r) mod 128"

lemma uart_read_fifo_spec:
  "regs_ok r \<Longrightarrow> read \<le> size1 \<Longrightarrow> size1 \<le> length buf \<Longrightarrow> k = min (size1 - read) (fifo_ready r) \<Longrightarrow>
    uart_read_fifo r buf read size1 =
      Some (r\<lparr>RXF := drop k (RXF r)\<rparr>, take read buf @ take k (RXF r) @ drop (read + k) buf, read + k)"
proof (induction r buf read size1 arbitrary: k rule: uart_read_fifo.induct)
  case (1 r buf read size1)
  show ?case
  proof (cases "read < size1 \<and> fifo_ready r \<noteq> 0")
    case False
    then have "\<not> (read < size1 \<and> UART_RXCOUNT r \<noteq> 0)" and "k = 0"
      using "1.prems" by (auto simp: rxcount fifo_ready_def)
    then show ?thesis using "1.prems" by (subst uart_read_fifo.simps) (simp only: if_not_P, simp)
  next
    case True
    then obtain x xs where l: "RXF r = x # xs" by (cases "RXF r") (auto simp: fifo_ready_def)
    let ?s = "r\<lparr>RXF := xs\<rparr>"
    have lt: "length (RXF r) < 128" using True "1.prems"(1) by (auto simp: fifo_ready_def regs_ok_def le_less)
    then have f: "fifo_ready r = Suc (fifo_ready ?s)" by (simp add: fifo_ready_def l)
    define j where "j = min (size1 - (read + 1)) (fifo_ready ?s)"
    have k: "k = Suc j" using "1.prems"(4) f True unfolding j_def by auto
    have w: "wr buf read x = Some (buf[read := x])" using True "1.prems"(3) by (simp add: wr_def)
    have s: "USF_read r = Some (?s, x)" by (simp add: USF_read_def l)
    have ok: "regs_ok ?s" using "1.prems"(1) lt by (simp add: regs_ok_def l)
    have c: "UART_RXCOUNT r \<noteq> 0" using True "1.prems"(1) by (simp add: rxcount fifo_ready_def)
    have "uart_read_fifo ?s (buf[read := x]) (read + 1) size1 =
        Some (?s\<lparr>RXF := drop j (RXF ?s)\<rparr>,
          take (read + 1) (buf[read := x]) @ take j (RXF ?s) @ drop (read + 1 + j) (buf[read := x]), read + 1 + j)"
      by (rule "1.IH" [OF _ s refl]) (use True c ok "1.prems" w in \<open>auto simp: j_def\<close>)
    moreover have "take (read + 1) (buf[read := x]) = take read buf @ [x]"
      using True "1.prems"(3) by (simp add: take_Suc_conv_app_nth)
    ultimately show ?thesis
      using True c s w k l by (simp add: uart_read_fifo.simps [of r])
  qed
qed

text \<open>
  \<open>uart_read\<close> hands out a prefix of the receive stream and leaves the rest. It stops short only at
  the buffer's size, or when the FIFO's count reads as zero.
\<close>

definition rx_ready :: "uart_t \<Rightarrow> uart_regs \<Rightarrow> nat" where
  "rx_ready u r = length (buf_bytes (rx_buffer u)) + fifo_ready r"

lemma rx_ready_le: "rx_ready u r \<le> length (rx_stream u r)"
  by (simp add: rx_ready_def rx_stream_def fifo_ready_def)

lemma uart_read_spec:
  assumes ok: "port_ok u r" and m: "mode u \<noteq> UART_TX_ONLY" and sz: "0 < size1" "size1 \<le> length buf"
  defines "k \<equiv> min size1 (rx_ready u r)"
  shows "\<exists>u1 r1. uart_read (Some u) r (Some buf) size1 =
      Some (Some u1, r1, Some (take k (rx_stream u r) @ drop k buf), k)
    \<and> port_ok u1 r1 \<and> rx_stream u1 r1 = drop k (rx_stream u r) \<and> tx_stream u1 r1 = tx_stream u r
    \<and> tx_buffer u1 = tx_buffer u \<and> mode u1 = mode u
    \<and> bit (USIE r1) UIFF \<and> bit (USIE r1) UITO"
proof -
  define bs where "bs = buf_bytes (rx_buffer u)"
  define i where "i = min size1 (length bs)"
  define j where "j = min (size1 - i) (fifo_ready r)"
  have k: "k = i + j" by (auto simp: k_def rx_ready_def i_def j_def simp flip: bs_def)
  have rok: "regs_ok r" and bok: "buf_ok (rx_buffer u)" using ok by (simp_all add: port_ok_def)
  have j0: "j = 0" if "i < length bs" using that by (auto simp: i_def j_def)
  obtain rxb where b: "(case rx_buffer u of None \<Rightarrow> Some (None, buf, 0)
      | Some b \<Rightarrow> do { (b1, buf, read) \<leftarrow> uart_read_buffer b buf 0 size1; Some (Some b1, buf, read) }) =
        Some (rxb, take i bs @ drop i buf, i)"
    and rxb: "buf_ok rxb" "buf_bytes rxb = drop i bs"
  proof (cases "rx_buffer u")
    case None
    then show thesis using that by (simp add: bs_def i_def)
  next
    case (Some b)
    then show thesis
      using that uart_read_buffer_spec [of b 0 size1 buf i] bok sz by (auto simp: bs_def i_def)
  qed
  have f: "uart_read_fifo r (take i bs @ drop i buf) i size1 =
      Some (r\<lparr>RXF := drop j (RXF r)\<rparr>, take i bs @ take j (RXF r) @ drop (i + j) buf, i + j)"
    using uart_read_fifo_spec [OF rok _ _ j_def, of "take i bs @ drop i buf"] sz
    by (simp add: i_def min_absorb2 add.commute)
  have seg: "take i bs @ take j (RXF r) = take k (bs @ RXF r) \<and> drop i bs @ drop j (RXF r) = drop k (bs @ RXF r)"
  proof (cases "i < length bs")
    case True
    then show ?thesis using j0 by (simp add: k)
  next
    case False
    then have "i = length bs" by (simp add: i_def)
    then show ?thesis by (simp add: k)
  qed
  have "take i bs @ take j (RXF r) = take k (bs @ RXF r)" and "drop i bs @ drop j (RXF r) = drop k (bs @ RXF r)"
    using seg by simp_all
  moreover have "regs_ok (r\<lparr>RXF := drop j (RXF r)\<rparr>)" using rok by (auto simp: regs_ok_def)
  moreover have "uart_read (Some u) r (Some buf) size1 = Some (Some (u\<lparr>rx_buffer := rxb\<rparr>),
      (r\<lparr>RXF := drop j (RXF r)\<rparr>)\<lparr>USIE := set_bit UITO (set_bit UIFF (USIE r))\<rparr>,
      Some (take i bs @ take j (RXF r) @ drop (i + j) buf), i + j)"
    using m sz f unfolding uart_read_def uart_rx_enabled_def option.sel b by simp
  ultimately show ?thesis
    using ok rxb unfolding k port_ok_def rx_stream_def tx_stream_def bs_def [symmetric]
    by (simp add: UIFF_def UITO_def bit_set_bit_iff flip: append_assoc)
qed

section \<open>The interrupt routine\<close>

lemma isr_receive_spec:
  "sb_wf b \<Longrightarrow> regs_ok r \<Longrightarrow> space = sb_size b - 1 - sb_len b \<Longrightarrow>
    \<exists>t r1. isr_receive b r space read = Some (t, r1, read + min space (fifo_ready r))
      \<and> sb_wf t \<and> regs_ok r1 \<and> sb_list t @ RXF r1 = sb_list b @ RXF r \<and> TXF r1 = TXF r \<and> USIE r1 = USIE r"
proof (induction b r space read rule: isr_receive.induct)
  case (1 b r read)
  then show ?case by simp
next
  case (2 b r space read)
  show ?case
  proof (cases "fifo_ready r = 0")
    case True
    then have "UART_RXCOUNT r = 0" using "2.prems"(2) by (simp add: rxcount fifo_ready_def)
    then show ?thesis using True "2.prems"(1,2) by simp
  next
    case False
    then obtain x xs where l: "RXF r = x # xs" by (cases "RXF r") (auto simp: fifo_ready_def)
    let ?s = "r\<lparr>RXF := xs\<rparr>"
    have lt: "length (RXF r) < 128" using False "2.prems"(2) by (auto simp: fifo_ready_def regs_ok_def le_less)
    then have f: "fifo_ready r = Suc (fifo_ready ?s)" by (simp add: fifo_ready_def l)
    have s: "USF_read r = Some (?s, x)" by (simp add: USF_read_def l)
    have ok: "regs_ok ?s" using "2.prems"(2) lt by (simp add: regs_ok_def l)
    have c: "UART_RXCOUNT r \<noteq> 0" using False "2.prems"(2) by (simp add: rxcount fifo_ready_def)
    obtain t where t: "SerialBuffer_writeChar b x = Some (t, 1)" "sb_wf t" "sb_list t = sb_list b @ [x]"
        "sb_size t = sb_size b"
      using SerialBuffer_writeChar_spec [OF "2.prems"(1), of x] "2.prems"(3) by auto
    have "space = sb_size t - 1 - sb_len t"
      using "2.prems"(3) t(3,4) length_sb_list [of t] by (simp del: length_sb_list) simp
    from "2.IH" [OF c s refl t(1) refl t(2) ok this] show ?thesis
      using c s t l f by (auto simp: min_def)
  qed
qed

lemma isr_transmit_spec:
  "sb_wf b \<Longrightarrow> regs_ok r \<Longrightarrow> n \<le> sb_len b \<Longrightarrow>
    \<exists>t r1. isr_transmit b r n = Some (t, r1) \<and> sb_wf t \<and> regs_ok r1 \<and>
      TXF r1 @ sb_list t = TXF r @ sb_list b \<and> RXF r1 = RXF r \<and> USIE r1 = USIE r"
proof (induction b r n rule: isr_transmit.induct)
  case (1 b r)
  then show ?case by simp
next
  case (2 b r n)
  show ?case
  proof (cases "UART_TXFULL r")
    case True
    then show ?thesis using "2.prems" by simp
  next
    case False
    obtain x xs where l: "sb_list b = x # xs"
      using "2.prems"(3) length_sb_list [of b] by (cases "sb_list b") (auto simp del: length_sb_list)
    obtain t where t: "SerialBuffer_readChar b = Some (t, uint x)" "sb_wf t" "sb_list t = xs" "sb_len t = sb_len b - 1"
      using SerialBuffer_readChar_spec(1) [OF "2.prems"(1) l] by blast
    have "regs_ok (USF_write r x)"
      using False "2.prems"(2) txfull [of r] by (auto simp: regs_ok_def USF_write_def)
    with "2.IH" [OF False t(1) refl t(2)] "2.prems"(3) t show ?thesis
      using False l by (auto simp: USF_write_def)
  qed
qed

lemma isr_rx_spec:
  assumes "port_ok u r"
  shows "\<exists>u1 r1. isr_rx u r = Some (u1, r1) \<and> port_ok u1 r1 \<and> rx_stream u1 r1 = rx_stream u r \<and>
    tx_stream u1 r1 = tx_stream u r \<and> mode u1 = mode u \<and> callback u1 = callback u \<and> options u1 = options u"
proof (cases "rx_buffer u")
  case None
  then show ?thesis
    using assms by (simp add: isr_rx_def port_ok_def rx_stream_def tx_stream_def Let_def)
next
  case (Some b)
  then have "sb_wf b" "regs_ok r" using assms by (auto simp: port_ok_def)
  then obtain t r1 where "isr_receive b r (SerialBuffer_getFreeSpace b) 0 =
      Some (t, r1, min (SerialBuffer_getFreeSpace b) (fifo_ready r))"
    "sb_wf t" "regs_ok r1" "sb_list t @ RXF r1 = sb_list b @ RXF r" "TXF r1 = TXF r"
    using isr_receive_spec [of b r _ 0] sb_free [of b] by fastforce
  then show ?thesis
    using Some assms by (simp add: isr_rx_def port_ok_def rx_stream_def tx_stream_def Let_def)
qed

lemma isr_tx_spec:
  assumes "port_ok u r"
  shows "\<exists>u1 r1 e. isr_tx u r = Some (u1, r1, e) \<and> port_ok u1 r1 \<and> rx_stream u1 r1 = rx_stream u r \<and>
    tx_stream u1 r1 = tx_stream u r \<and> mode u1 = mode u \<and> callback u1 = callback u \<and> options u1 = options u"
proof (cases "tx_buffer u")
  case None
  then show ?thesis using assms by (auto simp: isr_tx_def)
next
  case (Some b)
  then have "sb_wf b" "regs_ok r" using assms by (auto simp: port_ok_def)
  then obtain t r1 where "isr_transmit b r (SerialBuffer_available b) = Some (t, r1)"
    "sb_wf t" "regs_ok r1" "TXF r1 @ sb_list t = TXF r @ sb_list b" "RXF r1 = RXF r"
    using isr_transmit_spec [of b r "sb_len b"] sb_available [of b] by fastforce
  then show ?thesis
    using Some assms by (cases "SerialBuffer_isEmpty b") (auto simp: isr_tx_def port_ok_def rx_stream_def tx_stream_def)
qed

lemma port_ok_upd [simp]:
  "port_ok u (r\<lparr>USIE := a\<rparr>) = port_ok u r" "port_ok u (r\<lparr>USIS := a\<rparr>) = port_ok u r"
  "port_ok u (USIC_write r a) = port_ok u r" "rx_stream u (r\<lparr>USIE := a\<rparr>) = rx_stream u r"
  "rx_stream u (r\<lparr>USIS := a\<rparr>) = rx_stream u r" "rx_stream u (USIC_write r a) = rx_stream u r"
  "tx_stream u (r\<lparr>USIE := a\<rparr>) = tx_stream u r" "tx_stream u (r\<lparr>USIS := a\<rparr>) = tx_stream u r"
  "tx_stream u (USIC_write r a) = tx_stream u r"
  by (simp_all add: port_ok_def rx_stream_def tx_stream_def)

lemma handle_uart_interrupt_spec:
  assumes ok: "port_ok u r"
  shows "\<exists>u1 r1 cb. handle_uart_interrupt enabled (Some u) r = Some (Some u1, r1, cb) \<and> port_ok u1 r1
    \<and> rx_stream u1 r1 = rx_stream u r \<and> tx_stream u1 r1 = tx_stream u r \<and> mode u1 = mode u"
proof (cases "USIS r = 0 \<or> \<not> enabled")
  case True
  then show ?thesis using ok by (auto simp: handle_uart_interrupt_def Let_def)
next
  case False
  define r0 where "r0 = USIC_write r (USIS r)"
  have ok0: "port_ok u r0" using ok by (simp add: r0_def)
  obtain u1 r1 where 1: "(if bit (USIS r) UIFF \<or> bit (USIS r) UITO then isr_rx u r0 else Some (u, r0)) = Some (u1, r1)"
    and ok1: "port_ok u1 r1" "rx_stream u1 r1 = rx_stream u r" "tx_stream u1 r1 = tx_stream u r" "mode u1 = mode u"
    using isr_rx_spec [OF ok0] ok0 that by (cases "bit (USIS r) UIFF \<or> bit (USIS r) UITO") (auto simp: r0_def)
  obtain u2 r2 e where 2: "(if bit (USIS r) UIFE then isr_tx u1 r1 else Some (u1, r1, False)) = Some (u2, r2, e)"
    and ok2: "port_ok u2 r2" "rx_stream u2 r2 = rx_stream u r" "tx_stream u2 r2 = tx_stream u r" "mode u2 = mode u"
    using isr_tx_spec [OF ok1(1)] ok1 that by (cases "bit (USIS r) UIFE") auto
  show ?thesis
    using False 1 2 ok2 by (auto simp: handle_uart_interrupt_def Let_def simp flip: r0_def)
qed

section \<open>Writing\<close>

lemma uart_write_fifo_spec:
  "regs_ok r \<Longrightarrow> written \<le> size1 \<Longrightarrow> size1 \<le> length buf \<Longrightarrow> k = min (size1 - written) (127 - length (TXF r)) \<Longrightarrow>
    uart_write_fifo r buf written size1 = Some (r\<lparr>TXF := TXF r @ take k (drop written buf)\<rparr>, written + k)"
proof (induction r buf written size1 arbitrary: k rule: uart_write_fifo.induct)
  case (1 r buf written size1)
  show ?case
  proof (cases "written < size1 \<and> length (TXF r) < 127")
    case False
    then have "\<not> (written < size1 \<and> \<not> UART_TXFULL r)" and "k = 0"
      using "1.prems" txfull [OF "1.prems"(1)] by (auto simp: regs_ok_def)
    then show ?thesis by (subst uart_write_fifo.simps) (simp only: if_not_P, simp)
  next
    case True
    have nf: "\<not> UART_TXFULL r" using True txfull [OF "1.prems"(1)] by simp
    have rd: "rd buf written = Some (buf ! written)" using True "1.prems"(3) by (simp add: rd_def)
    let ?s = "USF_write r (buf ! written)"
    define j where "j = min (size1 - (written + 1)) (127 - length (TXF ?s))"
    have k: "k = Suc j" using "1.prems"(4) True by (auto simp: j_def USF_write_def)
    have "uart_write_fifo ?s buf (written + 1) size1 =
        Some (?s\<lparr>TXF := TXF ?s @ take j (drop (written + 1) buf)\<rparr>, written + 1 + j)"
      by (rule "1.IH" [OF _ rd]) (use True nf "1.prems" in \<open>auto simp: j_def regs_ok_def USF_write_def\<close>)
    moreover have "take k (drop written buf) = buf ! written # take j (drop (written + 1) buf)"
      using True "1.prems"(3) by (simp add: k Cons_nth_drop_Suc [symmetric])
    ultimately show ?thesis
      using True nf rd k by (simp add: uart_write_fifo.simps [of r] USF_write_def)
  qed
qed

lemma uart_write_buffer_spec:
  "sb_wf b \<Longrightarrow> written \<le> size1 \<Longrightarrow> size1 \<le> length buf \<Longrightarrow> k = min (size1 - written) (sb_size b - 1 - sb_len b) \<Longrightarrow>
    \<exists>t. uart_write_buffer b buf written size1 = Some (t, written + k) \<and> sb_wf t \<and>
      sb_list t = sb_list b @ take k (drop written buf) \<and> sb_size t = sb_size b"
proof (induction b buf written size1 arbitrary: k rule: uart_write_buffer.induct)
  case (1 b buf written size1)
  show ?case
  proof (cases "written < size1")
    case False
    then show ?thesis using "1.prems" by (subst uart_write_buffer.simps) simp
  next
    case True
    have rd: "rd buf written = Some (buf ! written)" using True "1.prems"(3) by (simp add: rd_def)
    note w = SerialBuffer_writeChar_spec [OF "1.prems"(1), of "buf ! written"]
    show ?thesis
    proof (cases "sb_len b < sb_size b - 1")
      case False
      then have "sb_len b = sb_size b - 1" using sb_len_less [OF "1.prems"(1)] by simp
      then show ?thesis using True rd w "1.prems" by (subst uart_write_buffer.simps) simp
    next
      case room: True
      then obtain t where t: "SerialBuffer_writeChar b (buf ! written) = Some (t, 1)" "sb_wf t"
          "sb_list t = sb_list b @ [buf ! written]" "sb_size t = sb_size b"
        using w by auto
      have lt: "sb_len t = Suc (sb_len b)" using t(3) length_sb_list [of t] by (simp del: length_sb_list) simp
      define j where "j = min (size1 - (written + 1)) (sb_size t - 1 - sb_len t)"
      have k: "k = Suc j" using "1.prems"(4) True room t(4) lt unfolding j_def by linarith
      have "\<exists>s. uart_write_buffer t buf (written + 1) size1 = Some (s, written + 1 + j) \<and> sb_wf s \<and>
          sb_list s = sb_list t @ take j (drop (written + 1) buf) \<and> sb_size s = sb_size t"
        by (rule "1.IH" [OF _ rd t(1) refl]) (use True t "1.prems" in \<open>auto simp: j_def\<close>)
      moreover have "take k (drop written buf) = buf ! written # take j (drop (written + 1) buf)"
        using True "1.prems"(3) by (simp add: k Cons_nth_drop_Suc [symmetric])
      ultimately show ?thesis using True rd t k by (simp add: uart_write_buffer.simps [of b])
    qed
  qed
qed

text \<open>The bytes a pass can take: the buffer's free space, and the FIFO's when the buffer is empty.\<close>

definition uart_room :: "uart_t \<Rightarrow> uart_regs \<Rightarrow> nat" where
  "uart_room u r = (case tx_buffer u of
     None \<Rightarrow> 127 - length (TXF r)
   | Some b \<Rightarrow> (if sb_list b = [] then 127 - length (TXF r) else 0) + (sb_size b - 1 - sb_len b))"

lemma min_add_split: "min n (a + c) = min n a + min (n - min n a) (c :: nat)"
  by linarith

lemma take_drop_join: "take i (drop w xs) @ take j (drop (w + i) xs) = take (i + j) (drop w xs)"
  by (simp only: take_add drop_drop add.commute [of w i])

lemma uart_write_pass_spec:
  assumes ok: "port_ok u r" and w: "written \<le> size1" "size1 \<le> length buf"
    and k: "k = min (size1 - written) (uart_room u r)"
  shows "\<exists>u1 r1. uart_write_pass u r buf written size1 = Some (u1, r1, written + k) \<and> port_ok u1 r1 \<and>
    tx_stream u1 r1 = tx_stream u r @ take k (drop written buf) \<and> rx_stream u1 r1 = rx_stream u r \<and>
    mode u1 = mode u \<and> options u1 = options u"
proof -
  have rok: "regs_ok r" using ok by (simp add: port_ok_def)
  define i where "i = (if buf_bytes (tx_buffer u) = [] then min (size1 - written) (127 - length (TXF r)) else 0)"
  have fifo: "uart_write_fifo r buf written size1 = Some (r\<lparr>TXF := TXF r @ take i (drop written buf)\<rparr>, written + i)"
    if "buf_bytes (tx_buffer u) = []"
    using uart_write_fifo_spec [OF rok w, of i] that by (simp add: i_def)
  have iw: "written + i \<le> size1" using w by (auto simp: i_def)
  have tl: "length (take i (drop written buf)) \<le> 127 - length (TXF r)" by (auto simp: i_def)
  then have rok1: "regs_ok (r\<lparr>TXF := TXF r @ take i (drop written buf)\<rparr>)"
    using rok unfolding regs_ok_def by simp linarith
  show ?thesis
  proof (cases "tx_buffer u")
    case None
    moreover have "k = i" using None k by (simp add: i_def uart_room_def)
    ultimately show ?thesis
      using ok fifo rok1 by (simp add: uart_write_pass_def port_ok_def tx_stream_def rx_stream_def)
  next
    case (Some b)
    then have wf: "sb_wf b" using ok by (simp add: port_ok_def)
    define j where "j = min (size1 - (written + i)) (sb_size b - 1 - sb_len b)"
    obtain t where t: "uart_write_buffer b buf (written + i) size1 = Some (t, written + i + j)" "sb_wf t"
        "sb_list t = sb_list b @ take j (drop (written + i) buf)"
      using uart_write_buffer_spec [OF wf iw w(2) j_def] by blast
    define a where "a = (if sb_list b = [] then 127 - length (TXF r) else 0)"
    have ia: "i = min (size1 - written) a" by (simp add: i_def a_def Some)
    have ra: "uart_room u r = a + (sb_size b - 1 - sb_len b)" by (simp add: uart_room_def a_def Some)
    have kij: "k = i + j" unfolding k j_def ra ia by (subst min_add_split) (simp only: diff_diff_left)
    have i0: "i = 0" if "sb_list b \<noteq> []" using that Some by (simp add: i_def)
    have first: "(if SerialBuffer_isEmpty b then uart_write_fifo r buf written size1 else Some (r, written)) =
        Some (r\<lparr>TXF := TXF r @ take i (drop written buf)\<rparr>, written + i)"
      using fifo Some sb_empty [OF wf] i0 by auto
    have s: "take i (drop written buf) @ sb_list t = sb_list b @ take k (drop written buf)"
      using i0 t(3) kij by (cases "sb_list b = []") (simp_all add: take_drop_join)
    show ?thesis
      using ok Some first t(1,2) s rok1 kij
      by (simp add: uart_write_pass_def port_ok_def tx_stream_def rx_stream_def add.assoc)
  qed
qed

text \<open>
  The waiting loop completes when every wait leaves the port in order and with room for at least
  one byte.
\<close>

lemma uart_write_loop_spec:
  assumes env: "\<And>i u r. port_ok u r \<Longrightarrow> case env i (u, r) of (u1, r1) \<Rightarrow>
      port_ok u1 r1 \<and> options u1 = options u \<and> 0 < uart_room u1 r1"
    and wait: "bit (options u) UART_OPT_TXWAIT"
    and ok: "port_ok u r" and w: "written \<le> size1" "size1 \<le> length buf"
    and room: "0 < uart_room u r"
  shows "\<exists>u1 r1. uart_write_loop env i u r buf written size1 = Some (u1, r1, size1) \<and> port_ok u1 r1"
  using wait ok w(1) room
proof (induction "size1 - written" arbitrary: u r written i rule: less_induct)
  case less
  define k where "k = min (size1 - written) (uart_room u r)"
  obtain u1 r1 where p: "uart_write_pass u r buf written size1 = Some (u1, r1, written + k)" "port_ok u1 r1"
      "options u1 = options u"
    using uart_write_pass_spec [OF less.prems(2,3) w(2) k_def] by blast
  show ?case
  proof (cases "size1 \<le> written + k")
    case True
    then have "written + k = size1" using less.prems(3) by (simp add: k_def)
    then show ?thesis using p by (simp add: uart_write_loop.simps [of env i])
  next
    case False
    obtain u2 r2 where e: "env i (u1, r1) = (u2, r2)" by force
    then have e2: "port_ok u2 r2" "options u2 = options u1" "0 < uart_room u2 r2"
      using env [OF p(2), of i] by auto
    have "0 < k" using False less.prems(3,4) by (simp add: k_def)
    then have "\<exists>u3 r3. uart_write_loop env (Suc i) u2 r2 buf (written + k) size1 = Some (u3, r3, size1) \<and> port_ok u3 r3"
      using False e2 p(3) less.prems by (intro less.hyps) auto
    then show ?thesis
      using False p e less.prems(1) by (simp add: uart_write_loop.simps [of env i])
  qed
qed

section \<open>Runs of a port\<close>

text \<open>
  A port together with its history: the bytes that arrived on the wire, those handed to the
  reader, those accepted from the writer and those sent on the wire.
\<close>

record uart_run =
  run_uart :: uart_t
  run_regs :: uart_regs
  arrived :: "byte list"
  delivered :: "byte list"
  accepted :: "byte list"
  sent :: "byte list"

inductive uart_step :: "uart_run \<Rightarrow> uart_run \<Rightarrow> bool" where
  step_arrive: "length (RXF (run_regs x)) < 128 \<Longrightarrow>
    uart_step x (x\<lparr>run_regs := (run_regs x)\<lparr>RXF := RXF (run_regs x) @ [c]\<rparr>, arrived := arrived x @ [c]\<rparr>)"
| step_send: "TXF (run_regs x) = c # cs \<Longrightarrow>
    uart_step x (x\<lparr>run_regs := (run_regs x)\<lparr>TXF := cs\<rparr>, sent := sent x @ [c]\<rparr>)"
| step_interrupt: "handle_uart_interrupt enabled (Some (run_uart x)) ((run_regs x)\<lparr>USIS := usis\<rparr>) = Some (Some u, r, cb) \<Longrightarrow>
    uart_step x (x\<lparr>run_uart := u, run_regs := r\<rparr>)"
| step_read: "uart_read (Some (run_uart x)) (run_regs x) (Some buf) size1 = Some (Some u, r, Some buf1, n) \<Longrightarrow>
    size1 \<le> length buf \<Longrightarrow>
    uart_step x (x\<lparr>run_uart := u, run_regs := r, delivered := delivered x @ take n buf1\<rparr>)"
| step_write: "uart_write_pass (run_uart x) (run_regs x) buf written size1 = Some (u, r, w) \<Longrightarrow>
    written \<le> size1 \<Longrightarrow> size1 \<le> length buf \<Longrightarrow>
    uart_step x (x\<lparr>run_uart := u, run_regs := r, accepted := accepted x @ take (w - written) (drop written buf)\<rparr>)"

definition run_inv :: "uart_run \<Rightarrow> bool" where
  "run_inv x \<longleftrightarrow> port_ok (run_uart x) (run_regs x)
    \<and> arrived x = delivered x @ rx_stream (run_uart x) (run_regs x)
    \<and> accepted x = sent x @ tx_stream (run_uart x) (run_regs x)"

lemma uart_step_inv: "uart_step x y \<Longrightarrow> run_inv x \<Longrightarrow> run_inv y"
proof (induction rule: uart_step.induct)
  case (step_arrive x c)
  then show ?case by (auto simp: run_inv_def port_ok_def regs_ok_def rx_stream_def tx_stream_def)
next
  case (step_send x c cs)
  then show ?case by (auto simp: run_inv_def port_ok_def regs_ok_def rx_stream_def tx_stream_def)
next
  case (step_interrupt enabled x usis u r cb)
  have "port_ok (run_uart x) ((run_regs x)\<lparr>USIS := usis\<rparr>)" using step_interrupt by (simp add: run_inv_def)
  from handle_uart_interrupt_spec [OF this, of enabled] show ?case
    using step_interrupt by (auto simp: run_inv_def)
next
  case (step_read x buf size1 u r buf1 n)
  have ok: "port_ok (run_uart x) (run_regs x)" using step_read by (simp add: run_inv_def)
  show ?case
  proof (cases "mode (run_uart x) = UART_TX_ONLY \<or> size1 = 0")
    case True
    then show ?thesis using step_read by (auto simp: uart_read_def uart_rx_enabled_def run_inv_def)
  next
    case False
    define k where "k = min size1 (rx_ready (run_uart x) (run_regs x))"
    have kl: "k \<le> length (rx_stream (run_uart x) (run_regs x))"
      using rx_ready_le [of "run_uart x" "run_regs x"] by (simp add: k_def)
    from False uart_read_spec [OF ok _ _ step_read.hyps(2)] step_read(1)
    have "buf1 = take k (rx_stream (run_uart x) (run_regs x)) @ drop k buf" "n = k" "port_ok u r"
      "rx_stream u r = drop k (rx_stream (run_uart x) (run_regs x))"
      "tx_stream u r = tx_stream (run_uart x) (run_regs x)"
      by (auto simp: k_def)
    then show ?thesis using step_read(3) kl by (simp add: run_inv_def)
  qed
next
  case (step_write x buf written size1 u r w)
  have ok: "port_ok (run_uart x) (run_regs x)" using step_write by (simp add: run_inv_def)
  from uart_write_pass_spec [OF ok step_write.hyps(2,3) refl] step_write show ?case
    by (auto simp: run_inv_def)
qed

definition uart_start :: "uart_t \<Rightarrow> uart_regs \<Rightarrow> uart_run" where
  "uart_start u r = \<lparr>run_uart = u, run_regs = r, arrived = [], delivered = [], accepted = [], sent = []\<rparr>"

definition uart_no_buffers :: uart_t where
  "uart_no_buffers = \<lparr>uart_nr = 0, baud_rate = 115200, mode = UART_FULL, options = 1, rx_pin = 3, tx_pin = 1,
     rx_buffer = None, tx_buffer = None, callback = False\<rparr>"

definition regs_reset :: uart_regs where
  "regs_reset = \<lparr>RXF = [], TXF = [], USIS = 0, USIE = 0, USC0 = 0, USC1 = 0, USD = 0, hw_levels = 0, hw_inputs = 0\<rparr>"

lemma port_ok_reset [simp]: "port_ok uart_no_buffers regs_reset"
  by (simp add: port_ok_def regs_ok_def uart_no_buffers_def regs_reset_def)

lemma streams_reset [simp]: "rx_stream uart_no_buffers regs_reset = []" "tx_stream uart_no_buffers regs_reset = []"
  by (simp_all add: rx_stream_def tx_stream_def uart_no_buffers_def regs_reset_def)





text \<open>C19: A receive FIFO that holds all of its 128 bytes reads as empty, because the count is masked to seven bits:
  with no byte buffered, \<open>uart_rx_available\<close> is 0, \<open>uart_read\<close> returns 0 bytes, and the interrupt routine moves
  nothing and masks its own receive interrupts.\<close>

theorem uart_full_fifo_unread:
  assumes "port_ok u r" and "mode u \<noteq> UART_TX_ONLY" and "buf_bytes (rx_buffer u) = []" and "length (RXF r) = 128"
    and "0 < size1" and "size1 \<le> length buf"
  shows "uart_rx_available (Some u) r = 0
    \<and> (\<exists>u1 r1. uart_read (Some u) r (Some buf) size1 = Some (Some u1, r1, Some buf, 0))
    \<and> (\<exists>u1 r1. isr_rx u r = Some (u1, r1) \<and> RXF r1 = RXF r \<and> \<not> bit (USIE r1) UIFF \<and> \<not> bit (USIE r1) UITO)"
proof (intro conjI)
  have ok: "regs_ok r" and f: "fifo_ready r = 0" and c: "UART_RXCOUNT r = 0"
    using assms rxcount [of r] by (auto simp: port_ok_def fifo_ready_def)
  show "uart_rx_available (Some u) r = 0"
    using assms c sb_available by (auto simp: uart_rx_available_def uart_rx_enabled_def port_ok_def
        simp flip: length_sb_list split: option.splits)
  show "\<exists>u1 r1. uart_read (Some u) r (Some buf) size1 = Some (Some u1, r1, Some buf, 0)"
    using uart_read_spec [OF assms(1,2,5,6)] assms(3) f by (auto simp: rx_ready_def)
  show "\<exists>u1 r1. isr_rx u r = Some (u1, r1) \<and> RXF r1 = RXF r \<and> \<not> bit (USIE r1) UIFF \<and> \<not> bit (USIE r1) UITO"
  proof (cases "rx_buffer u")
    case None
    then show ?thesis by (simp add: isr_rx_def Let_def UIFF_def UITO_def bit_unset_bit_iff)
  next
    case (Some b)
    then show ?thesis
      using c by (cases "SerialBuffer_getFreeSpace b")
        (simp_all add: isr_rx_def Let_def UIFF_def UITO_def bit_unset_bit_iff)
  qed
qed

theorem uart_full_fifo_unread_witness:
  "uart_rx_available (Some uart_no_buffers) (regs_reset\<lparr>RXF := replicate 128 1\<rparr>) = 0
    \<and> (\<exists>u1 r1. uart_read (Some uart_no_buffers) (regs_reset\<lparr>RXF := replicate 128 1\<rparr>) (Some [0]) 1 =
        Some (Some u1, r1, Some [0], 0))
    \<and> (\<exists>u1 r1. isr_rx uart_no_buffers (regs_reset\<lparr>RXF := replicate 128 1\<rparr>) = Some (u1, r1)
        \<and> RXF r1 = RXF (regs_reset\<lparr>RXF := replicate 128 1\<rparr>) \<and> \<not> bit (USIE r1) UIFF \<and> \<not> bit (USIE r1) UITO)"
  by (rule uart_full_fifo_unread) (simp_all add: port_ok_def regs_ok_def uart_no_buffers_def regs_reset_def)

text \<open>C20: For every baud rate up to the clock, the divisor written to the hardware is at least 1, and the rate
  reported is at least the one asked for and exceeds it by less than one part in the divisor.\<close>

theorem uart_baudrate_close:
  assumes "nr = 0 \<or> nr = 1" and "0 < baud" and "baud \<le> ESP8266_CLOCK"
  shows "case uart_set_baudrate_reg nr r baud of (r1, actual) \<Rightarrow>
    1 \<le> USD r1 \<and> baud \<le> actual \<and> (actual - baud) * USD r1 < baud"
proof -
  define d where "d = ESP8266_CLOCK div baud"
  define a where "a = ESP8266_CLOCK div d"
  have d: "1 \<le> d" using assms(2,3) by (simp add: d_def Suc_le_eq div_greater_zero_iff)
  have "baud * d \<le> ESP8266_CLOCK" and up: "ESP8266_CLOCK < baud * (d + 1)"
    using assms(2) by (simp_all add: d_def dividend_less_times_div)
  then have "baud \<le> a" using d by (simp add: a_def less_eq_div_iff_mult_less_eq)
  moreover have "a * d \<le> ESP8266_CLOCK" unfolding a_def by (rule div_times_less_eq_dividend)
  then have "a * d < baud * d + baud" using up by (simp add: algebra_simps)
  then have "(a - baud) * d < baud" unfolding diff_mult_distrib using assms(2) by linarith
  moreover have "uart_set_baudrate_reg nr r baud = (r\<lparr>USD := d\<rparr>, a)"
    using assms(1,2) d by (auto simp: uart_set_baudrate_reg_def Let_def simp flip: d_def a_def)
  ultimately show ?thesis using d by simp
qed

theorem uart_baudrate_close_witness:
  "case uart_set_baudrate_reg 0 regs_reset 115200 of (r1, actual) \<Rightarrow>
    1 \<le> USD r1 \<and> 115200 \<le> actual \<and> (actual - 115200) * USD r1 < 115200"
  by (rule uart_baudrate_close) (simp_all add: ESP8266_CLOCK_def)

end
