(* ===== verification/UartSystemProps.thy ===== *)
theory UartSystemProps
  imports UartSystem UartProps
begin

text \<open>
  Initialisation, release and pin selection of the UARTs: a port that initialises is well formed,
  empty and has its interrupts enabled; a released port stays in the instance table; pins can be
  swapped and swapped back.
\<close>

section \<open>Initialisation\<close>

lemma realloc_buffer_new:
  assumes "new_block = None \<or> length (the new_block) = n" and "n < 2147483648"
  shows "\<exists>ob ok. realloc_buffer no new_block None n = Some (ob, ok) \<and>
    (ok \<longrightarrow> buf_ok ob \<and> buf_bytes ob = [] \<and> (case ob of None \<Rightarrow> n = 0 | Some b \<Rightarrow> sb_size b = n))"
proof (cases "n = 0 \<or> \<not> no \<or> new_block = None")
  case True
  then show ?thesis by (auto simp: realloc_buffer_def SerialBuffer_resize_def SerialBuffer_new_def)
next
  case False
  then obtain block where b: "new_block = Some block" "length block = n" using assms by auto
  have "SerialBuffer_available SerialBuffer_new = 0"
    by (simp add: SerialBuffer_available_def SerialBuffer_new_def s32_id to_u32_def)
  then have "SerialBuffer_resize SerialBuffer_new (Some block) n = Some (sb_fresh block, n)"
    using False b by (simp add: SerialBuffer_resize_def SerialBuffer_new_def sb_fresh_def)
  moreover have "sb_list (sb_fresh block) = []" by (simp add: sb_fresh_def sb_len_def flip: length_0_conv)
  moreover have "sb_wf (sb_fresh block)" using False b assms(2) by (simp add: sb_wf_fresh)
  ultimately show ?thesis using False b by (auto simp: realloc_buffer_def sb_fresh_def)
qed

lemma sb_clear_wf: "sb_wf b \<Longrightarrow> sb_wf (SerialBuffer_clear b) \<and> sb_list (SerialBuffer_clear b) = []"
  by (auto simp: sb_wf_def SerialBuffer_clear_def sb_len_def simp flip: length_0_conv)

text \<open>\<open>uart_flush\<close> leaves a well-formed port with nothing on its way in either direction.\<close>

lemma uart_flush_spec:
  assumes "buf_ok (rx_buffer u)" and "buf_ok (tx_buffer u)" and "hw_levels r = 0" and "hw_inputs r < 8"
  shows "\<exists>u1 r1. uart_flush (Some u) r = (Some u1, r1) \<and> port_ok u1 r1 \<and> rx_stream u1 r1 = [] \<and> tx_stream u1 r1 = []
    \<and> uart_nr u1 = uart_nr u \<and> mode u1 = mode u \<and> rx_pin u1 = rx_pin u \<and> tx_pin u1 = tx_pin u"
  using assms sb_clear_wf
  by (auto simp: uart_flush_def Let_def port_ok_def regs_ok_def rx_stream_def tx_stream_def buf_ok_def buf_bytes_def
      split: option.splits)

lemma uart_set_baudrate_keeps:
  "\<exists>u1 r1 b. uart_set_baudrate (Some u) r n = (Some u1, r1, b) \<and> rx_buffer u1 = rx_buffer u \<and> tx_buffer u1 = tx_buffer u
    \<and> uart_nr u1 = uart_nr u \<and> hw_levels r1 = hw_levels r \<and> hw_inputs r1 = hw_inputs r"
proof -
  obtain r1 b where "uart_set_baudrate_reg (int (uart_nr u)) r n = (r1, b)" by force
  moreover from this have "hw_levels r1 = hw_levels r" "hw_inputs r1 = hw_inputs r"
    by (auto simp: uart_set_baudrate_reg_def Let_def split: if_splits)
  ultimately show ?thesis by (simp add: uart_set_baudrate_def)
qed

lemma pinMode_simps [simp]:
  "us_regs (pinMode s p m) = us_regs s" "uartInstances (pinMode s p m) = uartInstances s"
  "us_heap (pinMode s p m) = us_heap s" "us_pins (pinMode s p m) = (us_pins s)(p := m)"
  "s_uart_debug_nr (pinMode s p m) = s_uart_debug_nr s" "IOSWAPU0 (pinMode s p m) = IOSWAPU0 s"
  "isrMask (pinMode s p m) = isrMask s"
  by (simp_all add: pinMode_def)

lemma us_regs_pinMode_if [simp]:
  "us_regs (if b then pinMode s p m else s) = us_regs s" "us_regs (if b then s else pinMode s p m) = us_regs s"
  by simp_all

lemma uart_restore_simps [simp]:
  "us_regs (uart_restore_interrupts s) = us_regs s" "uartInstances (uart_restore_interrupts s) = uartInstances s"
  "us_heap (uart_restore_interrupts s) = us_heap s" "isrMask (uart_restore_interrupts s) = isrMask s"
  "us_regs (uart_disable_interrupts s) = us_regs s" "uartInstances (uart_disable_interrupts s) = uartInstances s"
  "us_heap (uart_disable_interrupts s) = us_heap s" "isrMask (uart_disable_interrupts s) = isrMask s"
  by (simp_all add: uart_restore_interrupts_def uart_disable_interrupts_def)

lemma uart_detach_simps [simp]:
  "uartInstances (uart_detach nr s) = uartInstances s" "us_heap (uart_detach nr s) = us_heap s"
  "isrMask (uart_detach nr s) = unset_bit nr (isrMask s)"
  "hw_levels (us_regs (uart_detach nr s) i) = hw_levels (us_regs s i)"
  "hw_inputs (us_regs (uart_detach nr s) i) = hw_inputs (us_regs s i)"
  "USIE (us_regs (uart_detach nr s) nr) = 0"
  by (simp_all add: uart_detach_def Let_def upd_regs_def USIC_write_def)

lemma uart_start_isr_spec:
  assumes "uart_nr u < 2"
  shows "uartInstances (uart_start_isr (Some u) s) = uartInstances s" "us_heap (uart_start_isr (Some u) s) = us_heap s"
    "bit (isrMask (uart_start_isr (Some u) s)) (uart_nr u)"
    "port_ok v (us_regs (uart_start_isr (Some u) s) i) = port_ok v (us_regs s i)"
    "rx_stream v (us_regs (uart_start_isr (Some u) s) i) = rx_stream v (us_regs s i)"
    "tx_stream v (us_regs (uart_start_isr (Some u) s) i) = tx_stream v (us_regs s i)"
  using assms
  by (auto simp: uart_start_isr_def Let_def UART_COUNT_def upd_regs_def bit_set_bit_iff bit_exp_iff port_ok_def
      rx_stream_def tx_stream_def)

text \<open>What both hardware cases of \<open>uart_init_ex\<close> give when they succeed.\<close>

definition setup_ok :: "uart_config \<Rightarrow> uart_sys \<Rightarrow> uart_t \<times> uart_sys \<Rightarrow> bool" where
  "setup_ok cfg s = (\<lambda>(u, s1). buf_ok (rx_buffer u) \<and> buf_ok (tx_buffer u) \<and> uart_nr u = cfg_uart_nr cfg
     \<and> (\<forall>i. hw_levels (us_regs s1 i) = hw_levels (us_regs s i) \<and> hw_inputs (us_regs s1 i) = hw_inputs (us_regs s i)))"

definition alloc_sized :: "uart_alloc \<Rightarrow> uart_config \<Rightarrow> bool" where
  "alloc_sized m cfg \<longleftrightarrow> (new_rx_block m = None \<or> length (the (new_rx_block m)) = cfg_rx_size cfg)
     \<and> (new_tx_block m = None \<or> length (the (new_tx_block m)) = cfg_tx_size cfg)
     \<and> cfg_rx_size cfg < 2147483648 \<and> cfg_tx_size cfg < 2147483648"

lemma uart_init_uart0_spec:
  assumes m: "alloc_sized m cfg" and u: "rx_buffer u = None" "tx_buffer u = None" "uart_nr u = cfg_uart_nr cfg"
  shows "\<exists>x. uart_init_uart0 m cfg u s = Some x \<and> (\<forall>p. x = Some p \<longrightarrow> setup_ok cfg s p)"
proof -
  obtain rb rk where r: "realloc_buffer (new_rx m) (new_rx_block m) None (cfg_rx_size cfg) = Some (rb, rk)"
    "rk \<longrightarrow> buf_ok rb"
    using realloc_buffer_new [of "new_rx_block m" "cfg_rx_size cfg" "new_rx m"] m unfolding alloc_sized_def by blast
  obtain tb tk where t: "realloc_buffer (new_tx m) (new_tx_block m) None (cfg_tx_size cfg) = Some (tb, tk)"
    "tk \<longrightarrow> buf_ok tb"
    using realloc_buffer_new [of "new_tx_block m" "cfg_tx_size cfg" "new_tx m"] m unfolding alloc_sized_def by blast
  show ?thesis
    using r t u by (cases rk; cases tk; cases "uart_rx_enabled (Some u)"; cases "uart_tx_enabled (Some u)")
      (simp_all add: uart_init_uart0_def Let_def setup_ok_def)
qed

lemma uart_init_uart1_spec:
  assumes m: "alloc_sized m cfg" and u: "rx_buffer u = None" "tx_buffer u = None" "uart_nr u = cfg_uart_nr cfg"
  shows "\<exists>x. uart_init_uart1 m cfg u s = Some x \<and> (\<forall>p. x = Some p \<longrightarrow> setup_ok cfg s p)"
proof -
  obtain tb tk where t: "realloc_buffer (new_tx m) (new_tx_block m) None (cfg_tx_size cfg) = Some (tb, tk)"
    "tk \<longrightarrow> buf_ok tb"
    using realloc_buffer_new [of "new_tx_block m" "cfg_tx_size cfg" "new_tx m"] m unfolding alloc_sized_def by blast
  show ?thesis
    using t u by (cases tk; cases "cfg_tx_size cfg = 0") (simp_all add: uart_init_uart1_def Let_def setup_ok_def)
qed


definition sys_reset :: uart_sys where
  "sys_reset = \<lparr>us_regs = (\<lambda>_. regs_reset), us_heap = (\<lambda>_. None), uartInstances = (\<lambda>_. None), isrMask = 0,
     intr_enabled = False, us_pins = (\<lambda>_. INPUT), IOSWAPU0 = False, s_uart_debug_nr = 0, os_print = False\<rparr>"

definition cfg_example :: uart_config where
  "cfg_example = \<lparr>cfg_uart_nr = 0, cfg_tx_pin = 1, cfg_mode = UART_FULL, cfg_options = 1, cfg_baudrate = 115200,
     cfg_config = 0x1c, cfg_rx_size = 4, cfg_tx_size = 0\<rparr>"

definition alloc_example :: uart_alloc where
  "alloc_example = \<lparr>new_uart = Some 100, new_rx = True, new_rx_block = Some [0, 0, 0, 0], new_tx = True,
     new_tx_block = None\<rparr>"


section \<open>Release\<close>

lemma uart_set_debug_simps [simp]:
  "uartInstances (uart_set_debug n s) = uartInstances s" "us_heap (uart_set_debug n s) = us_heap s"
  by (simp_all add: uart_set_debug_def)

text \<open>C22: \<open>uart_uninit\<close> deletes the object of a registered port but leaves its pointer in \<open>uartInstances\<close>:
  \<open>uart_get_uart\<close> keeps returning the deleted object, and the port can never be initialised again, since every
  later \<open>uart_init_ex\<close> takes it for one in use and returns null.\<close>

theorem uart_uninit_leaves_instance:
  assumes "us_heap s a = Some u" and "uart_nr u < 2" and "uartInstances s (uart_nr u) = Some a"
  shows "\<exists>s1. uart_uninit (Some a) s = Some s1 \<and> us_heap s1 a = None \<and> uart_get_uart s1 (uart_nr u) = Some a \<and>
    (\<forall>m cfg. cfg_uart_nr cfg = uart_nr u \<longrightarrow> uart_init_ex m cfg s1 = Some (s1, None))"
  using assms
  by (auto simp: uart_uninit_def Let_def uart_stop_isr_def uart_get_uart_def UART_COUNT_def uart_init_ex_def)

theorem uart_uninit_leaves_instance_witness:
  "let s = sys_reset\<lparr>us_heap := [100 \<mapsto> uart_no_buffers], uartInstances := [0 \<mapsto> 100]\<rparr> in
    \<exists>s1. uart_uninit (Some 100) s = Some s1 \<and> us_heap s1 100 = None \<and>
      uart_get_uart s1 (uart_nr uart_no_buffers) = Some 100 \<and>
      (\<forall>m cfg. cfg_uart_nr cfg = uart_nr uart_no_buffers \<longrightarrow> uart_init_ex m cfg s1 = Some (s1, None))"
  unfolding Let_def by (rule uart_uninit_leaves_instance) (simp_all add: sys_reset_def uart_no_buffers_def)

section \<open>Pins\<close>

text \<open>Swapping the pins of UART0 and swapping back returns the object to its pins (the transmit pin as asked
  for), clears the swap bit, and leaves the alternate pins 13 and 15 as inputs.\<close>

theorem uart_swap_back:
  assumes "uart_nr u = 0" and "mode u = UART_FULL" and "rx_pin u = 3" and "tx_pin u = (if tx = 2 then 2 else 1)"
  shows "case uart_swap (Some u) 15 s of (uart1, s1) \<Rightarrow>
    uart1 = Some (u\<lparr>tx_pin := 15, rx_pin := 13\<rparr>) \<and> IOSWAPU0 s1 \<and>
    (case uart_swap uart1 tx s1 of (uart2, s2) \<Rightarrow>
      uart2 = Some u \<and> \<not> IOSWAPU0 s2 \<and> us_pins s2 13 = INPUT \<and> us_pins s2 15 = INPUT \<and> us_pins s2 3 = SPECIAL)"
  using assms by (cases u) (auto simp: uart_swap_def uart_tx_enabled_def uart_rx_enabled_def Let_def)

theorem uart_swap_back_witness:
  "case uart_swap (Some uart_no_buffers) 15 sys_reset of (uart1, s1) \<Rightarrow>
    uart1 = Some (uart_no_buffers\<lparr>tx_pin := 15, rx_pin := 13\<rparr>) \<and> IOSWAPU0 s1 \<and>
    (case uart_swap uart1 1 s1 of (uart2, s2) \<Rightarrow>
      uart2 = Some uart_no_buffers \<and> \<not> IOSWAPU0 s2 \<and> us_pins s2 13 = INPUT \<and> us_pins s2 15 = INPUT \<and>
      us_pins s2 3 = SPECIAL)"
  by (rule uart_swap_back) (simp_all add: uart_no_buffers_def)

end
