(* ===== verification/Printf.thy ===== *)
theory Printf
  imports StringConversion
begin

text \<open>
  The formatted output of \<open>system/m_printf.cpp\<close>: \<open>m_vsnprintf\<close> and \<open>m_printHex\<close>.

  A format is the characters before its terminator; looking at the character behind the
  terminator is undefined and yields \<open>None\<close>, as does an argument of the wrong type or a
  number that does not fit the local array \<open>tempNum\<close>. The argument list is a list of
  tagged values; a floating point argument carries the text \<open>dtostrf_p\<close> makes of it, as a
  function of width, precision and padding.
\<close>

datatype parg =
    ArgInt int
  | ArgUInt nat
  | ArgStr "char list option"
  | ArgDouble "int \<Rightarrow> int \<Rightarrow> char \<Rightarrow> char list"

section \<open>Directives\<close>

fun skip_atoi_loop :: "int \<Rightarrow> char list \<Rightarrow> int \<times> char list" where
  "skip_atoi_loop i [] = (i, [])"
| "skip_atoi_loop i (c # cs) =
     (if c_isdigit c then skip_atoi_loop (s32 (i * 10 + digit_val c)) cs else (i, c # cs))"

definition skip_atoi :: "char list \<Rightarrow> int \<times> char list" where
  "skip_atoi s = skip_atoi_loop 0 s"

fun skip_flags :: "bool \<Rightarrow> char list \<Rightarrow> bool \<times> char list" where
  "skip_flags mns [] = (mns, [])"
| "skip_flags mns (c # cs) =
     (if c = CHR ''-'' then skip_flags True cs
      else if c = CHR ''+'' \<or> c = CHR '' '' \<or> c = CHR ''#'' then skip_flags mns cs
      else (mns, c # cs))"

record fspec =
  f_minus :: bool
  f_pad :: char
  f_width :: int
  f_precision :: int

text \<open>Flags, padding, width, precision and length of a directive, up to its type character.\<close>

definition parse_spec :: "char list \<Rightarrow> fspec \<times> char list" where
  "parse_spec s =
     (let (mns, s1) = skip_flags False s;
          (pad, s2) = (case s1 of c # cs \<Rightarrow> if c = CHR ''0'' then (CHR ''0'', cs) else (CHR '' '', s1)
                                | [] \<Rightarrow> (CHR '' '', s1));
          (width, s3) = (case s2 of c # cs \<Rightarrow> if c_isdigit c then (case skip_atoi s2 of (i, r) \<Rightarrow> (s8 i, r)) else (0, s2)
                                  | [] \<Rightarrow> (0, s2));
          (precision, s4) = (case s3 of
              c # cs \<Rightarrow> if c = CHR ''.''
                then (case cs of d # ds \<Rightarrow> if c_isdigit d then (case skip_atoi cs of (i, r) \<Rightarrow> (s8 i, r)) else (-1, cs)
                               | [] \<Rightarrow> (-1, cs))
                else (-1, s3)
            | [] \<Rightarrow> (-1, s3));
          s5 = dropWhile (\<lambda>c. c = CHR ''l'' \<or> c = CHR ''h'' \<or> c = CHR ''L'') s4 in
      (\<lparr>f_minus = mns, f_pad = pad, f_width = width, f_precision = precision\<rparr>, s5))"

text \<open>The text of a \<open>%s\<close> directive.\<close>

definition string_text :: "fspec \<Rightarrow> char list option \<Rightarrow> char list" where
  "string_text sp arg =
     (let s = (case arg of None \<Rightarrow> ''(null)'' | Some s \<Rightarrow> cstr s);
          len = (if 0 \<le> f_precision sp \<and> f_precision sp < int (length s) then nat (f_precision sp) else length s);
          padding = nat (f_width sp - int len) in
      (if f_minus sp then [] else replicate padding CHR '' '') @ take len s @
      (if f_minus sp then replicate padding CHR '' '' else []))"

text \<open>A number goes through \<open>tempNum\<close>, which has room for 39 characters and the terminator.\<close>

definition temp_num :: "char list \<Rightarrow> char list option" where
  "temp_num s = (if length s < 40 then Some s else None)"

definition unsigned_text :: "fspec \<Rightarrow> nat \<Rightarrow> parg list \<Rightarrow> (char list \<times> parg list) option" where
  "unsigned_text sp ubase args = (case args of
     ArgUInt n # rest \<Rightarrow> map_option (\<lambda>t. (t, rest)) (temp_num (ultoa_wp n ubase (f_width sp) (f_pad sp)))
   | _ \<Rightarrow> None)"

text \<open>The type switch: the characters to add, and the arguments left.\<close>

definition directive_text :: "fspec \<Rightarrow> char \<Rightarrow> parg list \<Rightarrow> (char list \<times> parg list) option" where
  "directive_text sp f args =
     (if f = CHR ''%'' then Some (''%'', args)
      else if f = CHR ''c'' then
        (case args of ArgInt i # rest \<Rightarrow> Some ([char_of (nat (i mod 256))], rest) | _ \<Rightarrow> None)
      else if f = CHR ''s'' then
        (case args of ArgStr s # rest \<Rightarrow> Some (string_text sp s, rest) | _ \<Rightarrow> None)
      else if f = CHR ''p'' then
        (case args of ArgUInt n # rest \<Rightarrow> map_option (\<lambda>t. (t, rest)) (temp_num (ultoa n 16)) | _ \<Rightarrow> None)
      else if f = CHR ''d'' \<or> f = CHR ''i'' then
        (case args of ArgInt i # rest \<Rightarrow>
            map_option (\<lambda>t. (t, rest)) (temp_num (ltoa_wp i 10 (f_width sp) (f_pad sp)))
         | _ \<Rightarrow> None)
      else if f = CHR ''f'' then
        (case args of ArgDouble d # rest \<Rightarrow>
            map_option (\<lambda>t. (t, rest)) (temp_num (d (f_width sp) (f_precision sp) (f_pad sp)))
         | _ \<Rightarrow> None)
      else if f = CHR ''o'' then unsigned_text sp 8 args
      else if f = CHR ''x'' \<or> f = CHR ''X'' then unsigned_text sp 16 args
      else if f = CHR ''u'' then unsigned_text sp 10 args
      else Some ([CHR ''%'', f], args))"

section \<open>Formatting into a buffer\<close>

text \<open>The state of \<open>m_vsnprintf\<close>: the buffer, the index \<open>buf\<close> points to, and \<open>size\<close>.\<close>

type_synonym vsn_state = "char list \<times> nat \<times> nat"

fun vsn_add :: "nat \<Rightarrow> vsn_state \<Rightarrow> char \<Rightarrow> vsn_state option" where
  "vsn_add maxLen (b, p, sz) c =
     (if sz + 1 < maxLen then do { b1 \<leftarrow> wr b p c; Some (b1, p + 1, sz + 1) } else Some (b, p, sz + 1))"

fun vsn_add_all :: "nat \<Rightarrow> vsn_state \<Rightarrow> char list \<Rightarrow> vsn_state option" where
  "vsn_add_all maxLen st [] = Some st"
| "vsn_add_all maxLen st (c # cs) = do { st1 \<leftarrow> vsn_add maxLen st c; vsn_add_all maxLen st1 cs }"

lemma skip_atoi_loop_length: "length (snd (skip_atoi_loop i s)) \<le> length s"
  by (induction i s rule: skip_atoi_loop.induct) auto

lemma skip_flags_length: "length (snd (skip_flags m s)) \<le> length s"
  by (induction m s rule: skip_flags.induct) auto

lemma parse_spec_length: "parse_spec s = (sp, r) \<Longrightarrow> length r \<le> length s"
proof -
  assume p: "parse_spec s = (sp, r)"
  obtain m s1 where 1: "skip_flags False s = (m, s1)" by force
  obtain p2 s2 where 2: "(case s1 of c # cs \<Rightarrow> if c = CHR ''0'' then (CHR ''0'', cs) else (CHR '' '', s1)
      | [] \<Rightarrow> (CHR '' '', s1)) = (p2, s2)" by force
  obtain w s3 where 3: "(case s2 of c # cs \<Rightarrow> if c_isdigit c then (case skip_atoi s2 of (i, r) \<Rightarrow> (s8 i, r)) else (0, s2)
      | [] \<Rightarrow> (0, s2)) = (w, s3)" by force
  obtain q s4 where 4: "(case s3 of
      c # cs \<Rightarrow> if c = CHR ''.''
        then (case cs of d # ds \<Rightarrow> if c_isdigit d then (case skip_atoi cs of (i, r) \<Rightarrow> (s8 i, r)) else (-1, cs)
                       | [] \<Rightarrow> (-1, cs))
        else (-1, s3)
    | [] \<Rightarrow> (-1, s3)) = (q, s4)" by force
  have "length s1 \<le> length s" using skip_flags_length [of False s] 1 by simp
  moreover have "length s2 \<le> length s1" using 2 by (auto split: list.splits if_splits)
  moreover have "length s3 \<le> length s2"
    using 3 skip_atoi_loop_length [of 0 s2] by (auto simp: skip_atoi_def split: list.splits if_splits prod.splits)
  moreover have "length s4 \<le> length s3"
    using 4 skip_atoi_loop_length [of 0 "tl s3"]
    by (auto simp: skip_atoi_def split: list.splits if_splits prod.splits)
  moreover have "r = dropWhile (\<lambda>c. c = CHR ''l'' \<or> c = CHR ''h'' \<or> c = CHR ''L'') s4"
    using p 1 2 3 4 by (simp add: parse_spec_def Let_def)
  ultimately show ?thesis using length_dropWhile_le [of "\<lambda>c. c = CHR ''l'' \<or> c = CHR ''h'' \<or> c = CHR ''L''" s4] by simp
qed

function vsn_loop :: "nat \<Rightarrow> vsn_state \<Rightarrow> char list \<Rightarrow> parg list \<Rightarrow> vsn_state option" where
  "vsn_loop maxLen st [] args = Some st"
| "vsn_loop maxLen st (c # cs) args =
     (if c \<noteq> CHR ''%'' then do { st1 \<leftarrow> vsn_add maxLen st c; vsn_loop maxLen st1 cs args }
      else case parse_spec cs of (sp, r) \<Rightarrow>
        (case r of
           [] \<Rightarrow> None
         | f # fs \<Rightarrow> do {
             (t, args1) \<leftarrow> directive_text sp f args;
             st1 \<leftarrow> vsn_add_all maxLen st t;
             vsn_loop maxLen st1 fs args1 }))"
  by pat_completeness auto
termination
  by (relation "measure (\<lambda>(m, st, fmt, args). length fmt)") (auto dest: parse_spec_length [OF sym])

declare vsn_loop.simps [simp del]

definition m_vsnprintf :: "char list \<Rightarrow> nat \<Rightarrow> char list \<Rightarrow> parg list \<Rightarrow> (char list \<times> nat) option" where
  "m_vsnprintf buf maxLen fmt args = do {
     (b, p, sz) \<leftarrow> vsn_loop maxLen (buf, 0, 0) fmt args;
     b1 \<leftarrow> wr b p NUL;
     Some (b1, sz) }"

definition m_snprintf :: "char list \<Rightarrow> nat \<Rightarrow> char list \<Rightarrow> parg list \<Rightarrow> (char list \<times> nat) option" where
  "m_snprintf buf len fmt args = m_vsnprintf buf len fmt args"

text \<open>
  \<open>m_vprintf\<close> and \<open>m_printf\<close>: the characters handed to \<open>_puts_callback\<close>, if one is set. \<open>stack\<close> is
  what the uninitialised local buffer of 256 characters holds.
\<close>

definition m_vprintf :: "bool \<Rightarrow> char list \<Rightarrow> char list \<Rightarrow> parg list \<Rightarrow> (char list) option" where
  "m_vprintf puts_set stack fmt args =
     (if \<not> puts_set then Some []
      else do { (b, len) \<leftarrow> m_vsnprintf stack 256 fmt args; rdn b 0 (min len 256) })"

definition m_printf :: "bool \<Rightarrow> char list \<Rightarrow> char list option \<Rightarrow> parg list \<Rightarrow> (char list) option" where
  "m_printf puts_set stack fmt args = (case fmt of
     None \<Rightarrow> Some []
   | Some f \<Rightarrow> if \<not> puts_set then Some [] else m_vprintf puts_set stack f args)"

section \<open>Hexadecimal dump\<close>

definition is_print :: "nat \<Rightarrow> bool" where
  "is_print n \<longleftrightarrow> 32 \<le> n \<and> n \<le> 126"

text \<open>
  The characters \<open>m_printHex\<close> puts out; \<open>data\<close> holds byte values, \<open>addr_text\<close> is what
  \<open>m_printf("%08X ", addr)\<close> puts out.
\<close>

function hex_lines ::
  "(int \<Rightarrow> char list) \<Rightarrow> char list option \<Rightarrow> nat list \<Rightarrow> nat \<Rightarrow> int \<Rightarrow> nat \<Rightarrow> nat \<Rightarrow> char list option" where
  "hex_lines addr_text tag data len addr bytesPerLine offset =
     (if offset < len
      then
       let tagtext = (case tag of
              None \<Rightarrow> []
            | Some t \<Rightarrow> if cstr t = [] then []
                else (if offset = 0 then cstr t @ '':'' else replicate (length (cstr t) + 1) CHR '' '') @ '' '');
           addrtext = (if 0 \<le> addr then addr_text addr else []);
           n = (if bytesPerLine \<noteq> 0 \<and> bytesPerLine < len - offset then bytesPerLine else len - offset);
           spaces = 1 + (if bytesPerLine \<noteq> 0 then 3 * (bytesPerLine - n) else 0) in
       do {
         bytes \<leftarrow> rdn data offset n;
         rest \<leftarrow> hex_lines addr_text tag data len (if 0 \<le> addr then s32 (addr + int n) else addr) bytesPerLine (offset + n);
         Some (tagtext @ addrtext @ concat (map (\<lambda>x. [hexchar (x div 16), hexchar (x mod 16), CHR '' '']) bytes) @
               replicate spaces CHR '' '' @ map (\<lambda>x. if is_print x then char_of x else CHR ''.'') bytes @
               [CHR 0x0A] @ rest) }
      else Some [])"
  by pat_completeness auto
termination
  by (relation "measure (\<lambda>(a, t, d, len, ad, bpl, offset). len - offset)") (auto split: if_splits)

declare hex_lines.simps [simp del]

definition m_printHex :: "bool \<Rightarrow> char list option \<Rightarrow> nat list \<Rightarrow> nat \<Rightarrow> int \<Rightarrow> nat \<Rightarrow> char list option" where
  "m_printHex puts_set tag data len addr bytesPerLine = map_option (\<lambda>t. if puts_set then t else [])
     (hex_lines (\<lambda>a. ultoa_wp (to_u32 a) 16 8 CHR ''0'' @ '' '') tag data len addr bytesPerLine 0)"

end
