(* ===== verification/DateTime.thy ===== *)
theory DateTime
  imports Printf
begin

text \<open>
  Dates and times: \<open>SmingCore/DateTime.cpp\<close>. The fields are kept as integers truncated to the
  width of the C++ members; \<open>time_t\<close> is a 32-bit signed number. Texts are built in the
  64-character local buffer of \<open>format\<close> with \<open>m_snprintf\<close>; the returned \<open>String\<close> is its
  characters, its memory being available.
\<close>

record datetime =
  Hour :: int
  Minute :: int
  Second :: int
  Milliseconds :: int
  Day :: int
  DayofWeek :: int
  DayofYear :: int
  Month :: int
  Year :: int

definition LEAP_YEAR :: "int \<Rightarrow> bool" where
  "LEAP_YEAR year \<longleftrightarrow> c_mod year 4 = 0"

definition monthDays :: "nat list" where
  "monthDays = [31, 28, 31, 30, 31, 30, 31, 31, 30, 31, 30, 31]"

text \<open>The two parameters are \<open>uint8_t\<close>; an index outside the table is undefined.\<close>

definition getMonthDays :: "nat \<Rightarrow> nat \<Rightarrow> nat option" where
  "getMonthDays month year =
     (if month = 1 \<and> LEAP_YEAR (int year) then Some 29 else rd monthDays month)"

section \<open>Unix time\<close>

definition year_days :: "nat \<Rightarrow> nat" where
  "year_days year = (if LEAP_YEAR (int year) then 366 else 365)"

lemma year_days_pos [simp]: "0 < year_days y"
  by (simp add: year_days_def)

function year_loop :: "nat \<Rightarrow> nat \<Rightarrow> nat \<Rightarrow> nat \<times> nat" where
  "year_loop year days epoch =
     (let d = days + year_days year in if d \<le> epoch then year_loop (year + 1) d epoch else (year, d))"
  by pat_completeness auto
termination
proof (relation "measure (\<lambda>(year, days, epoch). epoch + 1 - days)", goal_cases)
  case (2 year days epoch d)
  then show ?case by simp (insert year_days_pos [of year], linarith)
qed simp

declare year_loop.simps [simp del]

function month_loop :: "nat \<Rightarrow> nat \<Rightarrow> nat \<Rightarrow> (nat \<times> nat) option" where
  "month_loop month year epoch =
     (if month < 12
      then do {
        md \<leftarrow> getMonthDays month (u8 year);
        if md \<le> epoch then month_loop (month + 1) year (epoch - md) else Some (month, epoch) }
      else Some (month, epoch))"
  by pat_completeness auto
termination
  by (relation "measure (\<lambda>(month, year, epoch). 12 - month)") auto

declare month_loop.simps [simp del]

text \<open>The result holds second, minute, hour, day, week day, month and year.\<close>

definition fromUnixTime :: "int \<Rightarrow> (int \<times> int \<times> int \<times> int \<times> int \<times> int \<times> int) option" where
  "fromUnixTime timep =
     (let epoch = to_u32 timep;
          sec = s8 (int (epoch mod 60)); epoch1 = epoch div 60;
          mi = s8 (int (epoch1 mod 60)); epoch2 = epoch1 div 60;
          hour = s8 (int (epoch2 mod 24)); epoch3 = epoch2 div 24;
          wday = s8 (int ((epoch3 + 4) mod 7));
          (year, days) = year_loop 70 0 epoch3;
          epoch4 = epoch3 - (days - year_days year) in do {
        (month, epoch5) \<leftarrow> month_loop 0 year epoch4;
        Some (sec, mi, hour, s8 (int epoch5 + 1), wday, s8 (int month), s16 (int year + 1900)) })"

function leap_loop :: "int \<Rightarrow> int \<Rightarrow> int \<Rightarrow> int" where
  "leap_loop i year seconds =
     (if i < year then leap_loop (i + 1) year (if LEAP_YEAR i then s32 (seconds + 86400) else seconds) else seconds)"
  by pat_completeness auto
termination
  by (relation "measure (\<lambda>(i, year, seconds). nat (year - i))") auto

declare leap_loop.simps [simp del]

function month_seconds :: "int \<Rightarrow> int \<Rightarrow> int \<Rightarrow> int \<Rightarrow> int option" where
  "month_seconds i month year seconds =
     (if i < month
      then do {
        md \<leftarrow> getMonthDays (nat (i mod 256)) (nat (year mod 256));
        month_seconds (i + 1) month year (s32 (seconds + 86400 * int md)) }
      else Some seconds)"
  by pat_completeness auto
termination
  by (relation "measure (\<lambda>(i, month, year, seconds). nat (month - i))") auto

declare month_seconds.simps [simp del]

definition toUnixTime :: "int \<Rightarrow> int \<Rightarrow> int \<Rightarrow> int \<Rightarrow> int \<Rightarrow> int \<Rightarrow> int option" where
  "toUnixTime sec mi hour day month year =
     (let year1 = (if year < 69 then s16 (year + 2000) else year);
          seconds = s32 ((year1 - 1970) * (86400 * 365));
          seconds1 = leap_loop 1970 year1 seconds in do {
        seconds2 \<leftarrow> month_seconds 0 month year1 seconds1;
        let seconds3 = s32 (seconds2 + (day - 1) * 86400);
        let seconds4 = s32 (seconds3 + hour * 3600);
        let seconds5 = s32 (seconds4 + mi * 60);
        Some (s32 (seconds5 + sec)) })"

section \<open>The object\<close>

fun dayOfYear_loop :: "int \<Rightarrow> nat list \<Rightarrow> int \<Rightarrow> int" where
  "dayOfYear_loop year [] d = d"
| "dayOfYear_loop year (i # is) d = dayOfYear_loop year is
     (s16 (d + (if i = 8 \<or> i = 3 \<or> i = 5 \<or> i = 10 then 30
                else if i = 1 then (if LEAP_YEAR year then 29 else 28) else 31)))"

text \<open>\<open>i < Month\<close> compares unsigned: a negative month would make the loop run for 2\<open>^\<close>32 steps.\<close>

definition calcDayOfYear :: "datetime \<Rightarrow> datetime" where
  "calcDayOfYear d = d\<lparr>DayofYear := s16 (dayOfYear_loop (Year d) [0..<to_u32 (Month d)] 0 + Day d)\<rparr>"

definition DateTime_setTime :: "datetime \<Rightarrow> int \<Rightarrow> datetime option" where
  "DateTime_setTime d time = do {
     (sec, mi, hour, day, wday, month, year) \<leftarrow> fromUnixTime time;
     Some (calcDayOfYear (d\<lparr>Second := sec, Minute := mi, Hour := hour, Day := day, DayofWeek := wday,
       Month := month, Year := year, Milliseconds := 0\<rparr>)) }"

definition DateTime_setFields :: "datetime \<Rightarrow> int \<Rightarrow> int \<Rightarrow> int \<Rightarrow> int \<Rightarrow> int \<Rightarrow> int \<Rightarrow> datetime" where
  "DateTime_setFields d sec mi hour day month year =
     calcDayOfYear (d\<lparr>Second := sec, Minute := mi, Hour := hour, Day := day, Month := month, Year := year,
       Milliseconds := 0\<rparr>)"

definition DateTime_isNull :: "datetime \<Rightarrow> bool" where
  "DateTime_isNull d \<longleftrightarrow> Second d = 0 \<and> Minute d = 0 \<and> Hour d = 0 \<and> Day d = 0 \<and> Month d = 0 \<and> Year d = 0 \<and>
     DayofWeek d = 0 \<and> Milliseconds d = 0"

definition DateTime_toUnixTime :: "datetime \<Rightarrow> int option" where
  "DateTime_toUnixTime d =
     toUnixTime (s8 (Second d + c_div (Milliseconds d) 1000)) (Minute d) (Hour d) (Day d) (Month d) (Year d)"

definition DateTime_addMilliseconds :: "datetime \<Rightarrow> int \<Rightarrow> datetime option" where
  "DateTime_addMilliseconds d add = do {
     let ms = s32 (Milliseconds d + add);
     cur \<leftarrow> DateTime_toUnixTime d;
     d1 \<leftarrow> DateTime_setTime d (s32 (cur + c_div ms 1000));
     Some (d1\<lparr>Milliseconds := s16 (c_mod ms 1000)\<rparr>) }"

definition calcWeek :: "datetime \<Rightarrow> int \<Rightarrow> int" where
  "calcWeek d firstDay =
     (let startOfWeek = s16 (DayofYear d - DayofWeek d + firstDay);
          r = s8 (c_mod startOfWeek 7);
          firstDayofWeek = (if r < 0 then s8 (r + 7) else r) in
      (c_div (startOfWeek + 7 - firstDayofWeek) 7) mod 256)"

section \<open>Texts\<close>

definition LOCALE_MONTH_NAMES :: "char list list" where
  "LOCALE_MONTH_NAMES = [''January'', ''February'', ''March'', ''April'', ''May'', ''June'', ''July'', ''August'',
     ''September'', ''October'', ''November'', ''December'']"

definition LOCALE_DAY_NAMES :: "char list list" where
  "LOCALE_DAY_NAMES = [''Sunday'', ''Monday'', ''Tuesday'', ''Wednesday'', ''Thursday'', ''Friday'', ''Saturday'']"

definition LOCALE_DATE :: "char list" where "LOCALE_DATE = ''%d/%m/%Y''"
definition LOCALE_TIME :: "char list" where "LOCALE_TIME = ''%H:%M:%S''"
definition LOCALE_DATE_TIME :: "char list" where "LOCALE_DATE_TIME = ''%a %d %b %Y %X''"

text \<open>The name at an index, null when there is none.\<close>

definition name_at :: "char list list \<Rightarrow> int \<Rightarrow> char list option" where
  "name_at names i = (if 0 \<le> i \<and> i < int (length names) then Some (names ! nat i) else None)"

text \<open>\<open>m_snprintf\<close> into the local buffer, and the string it then holds.\<close>

definition buf_printf :: "nat \<Rightarrow> char list \<Rightarrow> parg list \<Rightarrow> char list option" where
  "buf_printf n fmt args = do { (b, _) \<leftarrow> m_snprintf (replicate 64 NUL) n fmt args; Some (cstr b) }"

definition buf_int :: "char list \<Rightarrow> int \<Rightarrow> char list option" where
  "buf_int fmt i = buf_printf 64 fmt [ArgInt i]"

definition buf_str :: "nat \<Rightarrow> char list option \<Rightarrow> char list option" where
  "buf_str n s = buf_printf n ''%s'' [ArgStr s]"

text \<open>
  The switch of \<open>format\<close>; \<open>sub\<close> stands for the recursive calls. The inner option is empty for
  the \<open>default\<close> case.
\<close>

definition date_directive ::
  "(char list \<Rightarrow> char list option) \<Rightarrow> datetime \<Rightarrow> char \<Rightarrow> char list option option" where
  "date_directive sub d c =
    (let nested = (\<lambda>f. case sub f of None \<Rightarrow> None | Some t \<Rightarrow> map_option Some (buf_str 64 (Some t)));
         num = (\<lambda>f i. map_option Some (buf_int f i));
         str = (\<lambda>n s. map_option Some (buf_str n s)) in
     if c = CHR ''Y'' then num ''%04d'' (Year d)
     else if c = CHR ''y'' then num ''%02d'' (c_mod (Year d) 100)
     else if c = CHR ''C'' then num ''%02d'' (c_div (Year d) 100)
     else if c = CHR ''b'' \<or> c = CHR ''h'' then str 4 (name_at LOCALE_MONTH_NAMES (Month d))
     else if c = CHR ''B'' then str 64 (name_at LOCALE_MONTH_NAMES (Month d))
     else if c = CHR ''m'' then num ''%02d'' (Month d + 1)
     else if c = CHR ''U'' then num ''%02d'' (calcWeek d 0)
     else if c = CHR ''V'' then num ''%02d'' (calcWeek d 1 + 1)
     else if c = CHR ''W'' then num ''%02d'' (calcWeek d 1)
     else if c = CHR ''x'' then nested LOCALE_DATE
     else if c = CHR ''X'' then nested LOCALE_TIME
     else if c = CHR ''j'' then num ''%03d'' (DayofYear d)
     else if c = CHR ''d'' then num ''%02d'' (Day d)
     else if c = CHR ''e'' then num ''% 2d'' (Day d)
     else if c = CHR ''w'' then num ''%d'' (DayofWeek d)
     else if c = CHR ''a'' then str 4 (name_at LOCALE_DAY_NAMES (DayofWeek d))
     else if c = CHR ''A'' then str 64 (name_at LOCALE_DAY_NAMES (DayofWeek d))
     else if c = CHR ''u'' then num ''%d'' (if DayofWeek d = 0 then 7 else DayofWeek d)
     else if c = CHR ''H'' then num ''%02d'' (Hour d)
     else if c = CHR ''I'' then num ''%02d'' (if Hour d \<noteq> 0 then if 12 < Hour d then Hour d - 12 else Hour d else 12)
     else if c = CHR ''M'' then num ''%02d'' (Minute d)
     else if c = CHR ''S'' then num ''%02d'' (Second d)
     else if c = CHR ''c'' then nested LOCALE_DATE_TIME
     else if c = CHR ''D'' then nested ''%m/%d/%y''
     else if c = CHR ''F'' then nested ''%Y-%m-%d''
     else if c = CHR ''r'' then nested ''%I:%M:%S %p''
     else if c = CHR ''R'' then map_option Some (buf_printf 64 ''%02d:%02d'' [ArgInt (Hour d), ArgInt (Minute d)])
     else if c = CHR ''T'' then nested ''%H:%M:%S''
     else if c = CHR ''p'' then str 64 (Some (if Hour d < 12 then ''AM'' else ''PM''))
     else if c = CHR ''%'' then str 64 (Some ''%'')
     else if c = CHR ''n'' then str 64 (Some [CHR 0x0A])
     else if c = CHR ''t'' then str 64 (Some [CHR 0x09])
     else Some None)"

fun format_loop :: "(char list \<Rightarrow> char list option) \<Rightarrow> datetime \<Rightarrow> char list \<Rightarrow> char list option" where
  "format_loop sub d [] = Some []"
| "format_loop sub d [c] = Some (if c = CHR ''%'' then [] else [c])"
| "format_loop sub d (c # f # cs) =
     (if c = CHR ''%''
      then do {
        t \<leftarrow> date_directive sub d f;
        case t of
          Some text \<Rightarrow> map_option (\<lambda>r. text @ r) (format_loop sub d cs)
        | None \<Rightarrow> format_loop sub d (f # cs) }
      else map_option (\<lambda>r. c # r) (format_loop sub d (f # cs)))"

text \<open>
  \<open>format\<close> calls itself on constant formats only; the deepest chain is \<open>%c\<close>, then \<open>%X\<close>, then
  directives that call nothing.
\<close>

fun format_depth :: "nat \<Rightarrow> datetime \<Rightarrow> char list \<Rightarrow> char list option" where
  "format_depth 0 d f = None"
| "format_depth (Suc n) d f = format_loop (format_depth n d) d f"

definition DateTime_format :: "datetime \<Rightarrow> char list \<Rightarrow> char list option" where
  "DateTime_format d f = format_depth 3 d f"

definition toShortDateString :: "datetime \<Rightarrow> char list option" where
  "toShortDateString d = DateTime_format d ''%d.%m.%Y''"

definition toShortTimeString :: "datetime \<Rightarrow> bool \<Rightarrow> char list option" where
  "toShortTimeString d includeSeconds = DateTime_format d (if includeSeconds then ''%T'' else ''%r'')"

definition toFullDateTimeString :: "datetime \<Rightarrow> char list option" where
  "toFullDateTimeString d = DateTime_format d ''%x %T''"

definition toISO8601 :: "datetime \<Rightarrow> char list option" where
  "toISO8601 d = DateTime_format d ''%FT%TZ''"

definition toHTTPDate :: "datetime \<Rightarrow> char list option" where
  "toHTTPDate d = DateTime_format d ''%a, %d %b %Y %T GMT''"

section \<open>Parsing\<close>

text \<open>\<open>strncmp(a, b, 3) == 0\<close> and the search for a name by its first three letters.\<close>

definition same3 :: "char list \<Rightarrow> char list \<Rightarrow> bool" where
  "same3 a b \<longleftrightarrow> take 3 (cstr a) = take 3 (cstr b)"

fun find_name :: "char list list \<Rightarrow> char list \<Rightarrow> nat" where
  "find_name [] s = 0"
| "find_name (n # ns) s = (if same3 n s then 0 else Suc (find_name ns s))"

text \<open>\<open>parseNumber\<close>: the value and the new pointer.\<close>

definition parseNumber :: "char list \<Rightarrow> nat \<Rightarrow> (int \<times> nat) option" where
  "parseNumber b p =
     (if p < length b then case c_strtol10 (cstr (drop p b)) of (v, n) \<Rightarrow> Some (v, p + n) else None)"

text \<open>The time behind the date: hour, minute, second; \<open>None\<close> inside for a missing colon.\<close>

definition parse_clock :: "char list \<Rightarrow> nat \<Rightarrow> datetime \<Rightarrow> (datetime \<times> bool) option" where
  "parse_clock b p d = do {
     (h, p1) \<leftarrow> parseNumber b p;
     let d1 = d\<lparr>Hour := s8 h\<rparr>;
     c1 \<leftarrow> rd b p1;
     if c1 \<noteq> CHR '':'' then Some (d1, False)
     else do {
       (m, p2) \<leftarrow> parseNumber b (p1 + 1);
       let d2 = d1\<lparr>Minute := s8 m\<rparr>;
       c2 \<leftarrow> rd b p2;
       if c2 \<noteq> CHR '':'' then Some (d2, False)
       else do {
         (s, _) \<leftarrow> parseNumber b (p2 + 1);
         Some (calcDayOfYear (d2\<lparr>Second := s8 s, Milliseconds := 0\<rparr>), True) } } }"

definition DateTime_fromHttpDate :: "datetime \<Rightarrow> char list \<Rightarrow> (datetime \<times> bool) option" where
  "DateTime_fromHttpDate d httpDate =
     (case c_memchr httpDate CHR '','' of
        None \<Rightarrow> Some (d, False)
      | Some comma \<Rightarrow>
         (if length httpDate - comma < 20 then Some (d, False)
          else let b = httpDate @ [NUL] in do {
            dayName \<leftarrow> rdn b 0 3;
            let wd = find_name LOCALE_DAY_NAMES dayName;
            let d1 = d\<lparr>DayofWeek := int wd\<rparr>;
            if 6 < wd then Some (d1, False)
            else do {
              (day, p) \<leftarrow> parseNumber b (comma + 2);
              let d2 = d1\<lparr>Day := s8 day\<rparr>;
              c \<leftarrow> rd b p;
              if c = NUL then Some (d2, False)
              else do {
                monthName \<leftarrow> rdn b (p + 1) 3;
                let m = find_name LOCALE_MONTH_NAMES monthName;
                let d3 = d2\<lparr>Month := int m\<rparr>;
                if 11 < m then Some (d3, False)
                else do {
                  (y, p2) \<leftarrow> parseNumber b (p + 5);
                  let year = s16 y;
                  c2 \<leftarrow> rd b p2;
                  if c2 = NUL then Some (d3\<lparr>Year := year\<rparr>, False)
                  else parse_clock b p2 (d3\<lparr>Year :=
                    if year < 70 then s16 (year + 2000) else if year < 100 then s16 (year + 1900) else year\<rparr>) } } } }))"

end
