(* ===== verification/PrintfProps.thy ===== *)
theory PrintfProps
  imports Printf
begin

text \<open>
  \<open>m_vsnprintf\<close> against the text the format stands for: within the given size it stores the
  longest prefix that leaves room for the terminator, and returns the length of the whole text.
\<close>

text \<open>The text of a format, with no buffer involved.\<close>

function fmt_text :: "char list \<Rightarrow> parg list \<Rightarrow> char list option" where
  "fmt_text [] args = Some []"
| "fmt_text (c # cs) args =
     (if c \<noteq> CHR ''%'' then map_option (\<lambda>t. c # t) (fmt_text cs args)
      else case parse_spec cs of (sp, r) \<Rightarrow>
        (case r of
           [] \<Rightarrow> None
         | f # fs \<Rightarrow> do {
             (t, args1) \<leftarrow> directive_text sp f args;
             rest \<leftarrow> fmt_text fs args1;
             Some (t @ rest) }))"
  by pat_completeness auto
termination
  by (relation "measure (\<lambda>(fmt, args). length fmt)") (auto dest: parse_spec_length [OF sym])

declare fmt_text.simps [simp del]

text \<open>The state of the loop after the text \<open>t\<close> was added to the buffer \<open>b0\<close>.\<close>

definition vsn_at :: "nat \<Rightarrow> char list \<Rightarrow> char list \<Rightarrow> vsn_state" where
  "vsn_at maxLen b0 t = (let k = min (length t) (maxLen - 1) in (take k t @ drop k b0, k, length t))"

lemma vsn_add_at:
  assumes "0 < maxLen" and "maxLen \<le> length b0"
  shows "vsn_add maxLen (vsn_at maxLen b0 t) c = Some (vsn_at maxLen b0 (t @ [c]))"
proof (cases "length t + 1 < maxLen")
  case True
  then have "(t @ drop (length t) b0)[length t := c] = t @ c # drop (Suc (length t)) b0"
    using assms(2) by (simp add: list_update_append Cons_nth_drop_Suc [symmetric])
  with True assms show ?thesis by (simp add: vsn_at_def Let_def min_def wr_def)
next
  case False
  then have "min (length t) (maxLen - 1) = maxLen - 1" "min (length (t @ [c])) (maxLen - 1) = maxLen - 1"
    "maxLen - 1 \<le> length t"
    by auto
  with False show ?thesis by (simp add: vsn_at_def Let_def)
qed

lemma vsn_add_all_at:
  assumes "0 < maxLen" and "maxLen \<le> length b0"
  shows "vsn_add_all maxLen (vsn_at maxLen b0 t) cs = Some (vsn_at maxLen b0 (t @ cs))"
proof (induction cs arbitrary: t)
  case (Cons c cs)
  show ?case using vsn_add_at [OF assms, of t c] Cons [of "t @ [c]"] by simp
qed simp

lemma vsn_loop_at:
  assumes "0 < maxLen" and "maxLen \<le> length b0"
  shows "vsn_loop maxLen (vsn_at maxLen b0 t) fmt args =
    map_option (\<lambda>u. vsn_at maxLen b0 (t @ u)) (fmt_text fmt args)"
proof (induction fmt args arbitrary: t rule: fmt_text.induct)
  case (1 args)
  then show ?case by (simp add: vsn_loop.simps fmt_text.simps)
next
  case (2 c cs args)
  show ?case
  proof (cases "c = CHR ''%''")
    case False
    with "2.IH"(1) [OF False, of "t @ [c]"] show ?thesis
      using vsn_add_at [OF assms, of t c]
      by (simp add: vsn_loop.simps fmt_text.simps option.map_comp o_def)
  next
    case True
    obtain sp r where p: "parse_spec cs = (sp, r)" by force
    show ?thesis
    proof (cases r)
      case Nil
      then show ?thesis using True p by (simp add: vsn_loop.simps fmt_text.simps)
    next
      case (Cons f fs)
      show ?thesis
      proof (cases "directive_text sp f args")
        case None
        then show ?thesis using True p Cons by (simp add: vsn_loop.simps fmt_text.simps)
      next
        case (Some ta)
        obtain tx args1 where ta: "ta = (tx, args1)" by force
        have "vsn_loop maxLen (vsn_at maxLen b0 (t @ tx)) fs args1 =
            map_option (\<lambda>u. vsn_at maxLen b0 ((t @ tx) @ u)) (fmt_text fs args1)"
          using True Some ta by (intro "2.IH"(2) [OF _ p [symmetric] Cons]) auto
        then show ?thesis
          using True p Cons Some ta vsn_add_all_at [OF assms, of t tx]
          by (cases "fmt_text fs args1") (simp_all add: vsn_loop.simps fmt_text.simps)
      qed
    qed
  qed
qed

lemma m_vsnprintf_text:
  assumes "0 < maxLen" and "maxLen \<le> length buf"
  shows "m_vsnprintf buf maxLen fmt args = map_option
    (\<lambda>t. let k = min (length t) (maxLen - 1) in (take k t @ NUL # drop (Suc k) buf, length t)) (fmt_text fmt args)"
proof (cases "fmt_text fmt args")
  case None
  have "vsn_at maxLen buf [] = (buf, 0, 0)" by (simp add: vsn_at_def)
  with vsn_loop_at [OF assms, of "[]" fmt args] None show ?thesis by (simp add: m_vsnprintf_def)
next
  case (Some t)
  define k where "k = min (length t) (maxLen - 1)"
  have "vsn_at maxLen buf [] = (buf, 0, 0)" by (simp add: vsn_at_def)
  with vsn_loop_at [OF assms, of "[]" fmt args] Some
  have "vsn_loop maxLen (buf, 0, 0) fmt args = Some (take k t @ drop k buf, k, length t)"
    by (simp add: vsn_at_def Let_def k_def)
  moreover have kl: "k < length buf" "k \<le> length t" using assms by (auto simp: k_def)
  then have "wr (take k t @ drop k buf) k NUL = Some (take k t @ NUL # drop (Suc k) buf)"
    by (simp add: wr_def list_update_append Cons_nth_drop_Suc [symmetric])
  ultimately show ?thesis using Some by (simp add: m_vsnprintf_def Let_def k_def)
qed

text \<open>C23: \<open>m_vsnprintf\<close> with a size \<open>maxLen\<close> of at least one never writes outside the first \<open>maxLen\<close> characters:
  whenever the format has a text, it stores the longest prefix of it that leaves room for the terminator, leaves the
  rest of the buffer alone, and returns the length of the whole text.\<close>

theorem m_vsnprintf_truncates:
  assumes "0 < maxLen" and "maxLen \<le> length buf" and "fmt_text fmt args = Some t"
  shows "\<exists>k. k = min (length t) (maxLen - 1) \<and>
    m_vsnprintf buf maxLen fmt args = Some (take k t @ NUL # drop (Suc k) buf, length t)"
  using m_vsnprintf_text [OF assms(1,2), of fmt args] assms(3) by (simp add: Let_def)

theorem m_vsnprintf_truncates_witness:
  "\<exists>k. k = min (length ''x=07'') (4 - 1) \<and>
    m_vsnprintf ''......'' 4 ''x=%02d'' [ArgInt 7] = Some (take k ''x=07'' @ NUL # drop (Suc k) ''......'', length ''x=07'')"
  by (rule m_vsnprintf_truncates) (simp, simp, code_simp)



end
