(* ===== verification/DateTimeProps.thy ===== *)
theory DateTimeProps
  imports DateTime PrintfProps
begin

text \<open>
  Unix time and calendar fields are converted back and forth without loss over the whole range of
  a 32-bit \<open>time_t\<close>, the fields are in their ranges, and a printed HTTP date parses back.
\<close>

section \<open>Years and months\<close>

lemma LEAP_YEAR_nat: "LEAP_YEAR (int y) \<longleftrightarrow> y mod 4 = 0"
  by (simp add: LEAP_YEAR_def c_mod_nonneg) presburger

lemma LEAP_YEAR_1900: "LEAP_YEAR (int y + 1900) \<longleftrightarrow> LEAP_YEAR (int y)"
  using LEAP_YEAR_nat [of "y + 1900"] LEAP_YEAR_nat [of y] by simp presburger

lemma u8_mod_4: "u8 y mod 4 = y mod 4"
  by (simp add: u8_def mod_mod_cancel)

text \<open>The days before year \<open>y\<close>, counted from 70.\<close>

definition days_before :: "nat \<Rightarrow> nat" where
  "days_before y = (\<Sum>i = 70..<y. year_days i)"

lemma days_before_Suc: "70 \<le> y \<Longrightarrow> days_before (Suc y) = days_before y + year_days y"
  by (simp add: days_before_def)

lemma days_before_ge: "70 \<le> y \<Longrightarrow> 365 * (y - 70) \<le> days_before y"
proof (induction rule: nat_induct_at_least)
  case base
  then show ?case by simp
next
  case (Suc n)
  then have "Suc n - 70 = Suc (n - 70)" by simp
  with Suc show ?case by (simp add: days_before_Suc [OF Suc.hyps] year_days_def)
qed

lemma year_loop_spec:
  "70 \<le> y \<Longrightarrow> days = days_before y \<Longrightarrow> days \<le> e \<Longrightarrow>
    \<exists>y1. year_loop y days e = (y1, days_before y1 + year_days y1) \<and> 70 \<le> y1 \<and>
      days_before y1 \<le> e \<and> e < days_before y1 + year_days y1"
proof (induction y days e rule: year_loop.induct)
  case (1 y days e)
  show ?case
  proof (cases "days + year_days y \<le> e")
    case True
    then show ?thesis
      using "1.IH" [OF refl True] "1.prems" by (simp add: year_loop.simps [of y] Let_def days_before_Suc)
  next
    case False
    then show ?thesis using "1.prems" by (simp add: year_loop.simps [of y] Let_def)
  qed
qed

text \<open>The days of a month of year \<open>y\<close>, and the days of the year before it.\<close>

definition month_days :: "nat \<Rightarrow> nat \<Rightarrow> nat" where
  "month_days y m = (if m = 1 \<and> LEAP_YEAR (int y) then 29 else monthDays ! m)"

definition month_start :: "nat \<Rightarrow> nat \<Rightarrow> nat" where
  "month_start y m = (\<Sum>i<m. month_days y i)"

lemma getMonthDays_spec: "m < 12 \<Longrightarrow> y1 mod 4 = y mod 4 \<Longrightarrow> getMonthDays m y1 = Some (month_days y m)"
  by (simp add: getMonthDays_def month_days_def rd_def monthDays_def LEAP_YEAR_nat)

lemma month_start_Suc: "month_start y (Suc m) = month_start y m + month_days y m"
  by (simp add: month_start_def)

lemma year_is_months: "month_start y 12 = year_days y"
  by (simp add: month_start_def month_days_def year_days_def monthDays_def numeral_nat)

lemma month_loop_spec:
  "m \<le> 12 \<Longrightarrow> month_start y m + e < year_days y \<Longrightarrow>
    \<exists>m1 e1. month_loop m y e = Some (m1, e1) \<and> m1 < 12 \<and> month_start y m + e = month_start y m1 + e1 \<and>
      e1 < month_days y m1"
proof (induction m y e rule: month_loop.induct)
  case (1 m y e)
  have m: "m < 12" using "1.prems" year_is_months [of y] by (cases "m = 12") auto
  have g: "getMonthDays m (u8 y) = Some (month_days y m)" by (simp add: getMonthDays_spec m u8_mod_4)
  show ?case
  proof (cases "month_days y m \<le> e")
    case True
    then have "month_start y (m + 1) + (e - month_days y m) = month_start y m + e"
      by (simp add: month_start_Suc)
    with "1.IH" [OF m g True] "1.prems" m show ?thesis
      using True g by (simp add: month_loop.simps [of m])
  next
    case False
    then show ?thesis using m g by (simp add: month_loop.simps [of m])
  qed
qed

section \<open>Unix time\<close>

lemma s32_add: "s32 (s32 a + b) = s32 (a + b)"
proof -
  have "s32 a + b + 2147483648 = (a + 2147483648) mod 4294967296 + b" by (simp add: s32_def)
  then have "(s32 a + b + 2147483648) mod 4294967296 = (a + 2147483648 + b) mod 4294967296"
    by (simp only: mod_add_left_eq)
  then show ?thesis by (simp add: s32_def algebra_simps)
qed

lemma s32_s32 [simp]: "s32 (s32 a) = s32 a"
  using s32_add [of a 0] by simp

lemma s32_add4: "s32 (s32 (s32 (s32 (s32 a + b) + c) + d) + e) = s32 (a + b + c + d + e)"
  by (simp only: s32_add)

lemma leap_loop_spec:
  assumes "70 \<le> y0" and "y0 \<le> y"
  shows "leap_loop (int y0 + 1900) (int y + 1900) (s32 s) =
    s32 (s + 86400 * (int (days_before y) - int (days_before y0) - 365 * (int y - int y0)))"
  using assms
proof (induction "y - y0" arbitrary: y0 s)
  case 0
  then show ?case by (simp add: leap_loop.simps)
next
  case (Suc n)
  then have lt: "y0 < y" by simp
  have "leap_loop (int (Suc y0) + 1900) (int y + 1900) (s32 (if LEAP_YEAR (int y0) then s + 86400 else s)) =
      s32 ((if LEAP_YEAR (int y0) then s + 86400 else s) +
        86400 * (int (days_before y) - int (days_before (Suc y0)) - 365 * (int y - int (Suc y0))))"
    using Suc lt by (intro Suc.hyps) auto
  then have *: "leap_loop (int y0 + 1900 + 1) (int y + 1900) (s32 (if LEAP_YEAR (int y0) then s + 86400 else s)) =
      s32 (s + 86400 * (int (days_before y) - int (days_before y0) - 365 * (int y - int y0)))"
    using Suc.prems by (simp add: days_before_Suc year_days_def algebra_simps)
  have "(if LEAP_YEAR (int y0 + 1900) then s32 (s32 s + 86400) else s32 s) =
      s32 (if LEAP_YEAR (int y0) then s + 86400 else s)"
    by (simp add: LEAP_YEAR_1900 s32_add)
  with * lt show ?case by (subst leap_loop.simps) simp
qed

lemma month_seconds_spec:
  assumes "m \<le> 12"
  shows "i \<le> m \<Longrightarrow> month_seconds (int i) (int m) (int y + 1900) (s32 s) =
    Some (s32 (s + 86400 * (int (month_start y m) - int (month_start y i))))"
proof (induction "m - i" arbitrary: i s)
  case 0
  then show ?case by (simp add: month_seconds.simps)
next
  case (Suc n)
  then have lt: "i < m" by simp
  have "nat ((int y + 1900) mod 256) mod 4 = y mod 4"
    by (simp add: mod_mod_cancel nat_mod_distrib nat_add_distrib) presburger
  then have g: "getMonthDays (nat (int i mod 256)) (nat ((int y + 1900) mod 256)) = Some (month_days y i)"
    using lt assms by (simp add: getMonthDays_spec nat_mod_distrib)
  have "month_seconds (int (Suc i)) (int m) (int y + 1900) (s32 (s + 86400 * int (month_days y i))) =
      Some (s32 (s + 86400 * int (month_days y i) + 86400 * (int (month_start y m) - int (month_start y (Suc i)))))"
    using Suc lt by (intro Suc.hyps) auto
  then show ?case
    using lt g by (subst month_seconds.simps) (simp add: s32_add month_start_Suc algebra_simps)
qed

lemma add_1_diff_1: "a + (c + 1) - 1 = a + (c :: int)"
  by simp

lemma epoch_parts:
  fixes e :: nat
  shows "e = 86400 * (e div 86400) + 3600 * (e div 3600 mod 24) + 60 * (e div 60 mod 60) + e mod 60"
proof -
  have d: "e div 3600 = e div 60 div 60" "e div 86400 = e div 60 div 60 div 24" by (simp_all add: div_mult2_eq [symmetric])
  have "e = e div 60 * 60 + e mod 60" "e div 60 = e div 60 div 60 * 60 + e div 60 mod 60"
    "e div 60 div 60 = e div 60 div 60 div 24 * 24 + e div 60 div 60 mod 24"
    by (simp_all only: div_mult_mod_eq)
  then show ?thesis unfolding d by linarith
qed

text \<open>What \<open>fromUnixTime\<close> computes, over the whole range of the unsigned seconds.\<close>

lemma fromUnixTime_spec:
  obtains y m d where "fromUnixTime t = Some (int (to_u32 t mod 60), int (to_u32 t div 60 mod 60),
      int (to_u32 t div 3600 mod 24), int d + 1, int ((to_u32 t div 86400 + 4) mod 7), int m, int y + 1900)"
    and "70 \<le> y" and "y < 207" and "m < 12" and "d < month_days y m"
    and "to_u32 t div 86400 = days_before y + month_start y m + d"
proof -
  define e where "e = to_u32 t"
  define D where "D = e div 86400"
  have e: "e < 4294967296" by (simp add: e_def to_u32_def nat_less_iff)
  have divs: "e div 60 div 60 = e div 3600" "e div 3600 div 24 = D" by (simp_all add: div_mult2_eq [symmetric] D_def)
  have D: "D < 49711" using e by (simp add: D_def)
  obtain y where y: "year_loop 70 0 D = (y, days_before y + year_days y)" "70 \<le> y"
      "days_before y \<le> D" "D < days_before y + year_days y"
    using year_loop_spec [of 70 0 D] by (auto simp: days_before_def)
  have y207: "y < 207" using days_before_ge [OF y(2)] y(2,3) D by linarith
  have "month_start y 0 + (D - days_before y) < year_days y" using y(3,4) by (simp add: month_start_def)
  then obtain m d where m: "month_loop 0 y (D - days_before y) = Some (m, d)" "m < 12"
      "D - days_before y = month_start y m + d" "d < month_days y m"
    using month_loop_spec [of 0 y "D - days_before y"] by (auto simp: month_start_def)
  have d: "d < 31" using m(2,4) by (auto simp: month_days_def monthDays_def less_Suc_eq numeral_nat split: if_splits)
  have "fromUnixTime t = Some (int (e mod 60), int (e div 60 mod 60), int (e div 3600 mod 24), int d + 1,
      int ((D + 4) mod 7), int m, int y + 1900)"
    using y(1) m(1,2) d y207
    by (simp add: fromUnixTime_def Let_def divs s8_id s16_id flip: e_def)
  then show thesis
    using that [of d m y] y(2,3) y207 m(2,3,4) by (simp add: e_def D_def)
qed

lemma toUnixTime_spec:
  assumes "70 \<le> y" and "y < 30000" and "m \<le> 12"
  shows "toUnixTime sec mi hour day (int m) (int y + 1900) =
    Some (s32 (86400 * (int (days_before y) + int (month_start y m) + day - 1) + 3600 * hour + 60 * mi + sec))"
proof -
  define s where "s = (int y - 70) * (86400 * 365)"
  define s1 where "s1 = s + 86400 * (int (days_before y) - 365 * (int y - 70))"
  define s2 where "s2 = s1 + 86400 * int (month_start y m)"
  have l: "leap_loop 1970 (int y + 1900) (s32 s) = s32 s1"
    using leap_loop_spec [of 70 y s] assms(1) by (simp add: days_before_def s1_def)
  have ms: "month_seconds 0 (int m) (int y + 1900) (s32 s1) = Some (s32 s2)"
    using month_seconds_spec [OF assms(3), of 0 y s1] by (simp add: month_start_def s2_def)
  have "toUnixTime sec mi hour day (int m) (int y + 1900) =
      Some (s32 (s2 + (day - 1) * 86400 + hour * 3600 + mi * 60 + sec))"
    using assms(1) l ms by (simp add: toUnixTime_def Let_def s32_add4 s_def)
  then show ?thesis by (simp add: s2_def s1_def s_def algebra_simps)
qed

lemma s32_to_u32: "- 2147483648 \<le> t \<Longrightarrow> t < 2147483648 \<Longrightarrow> s32 (int (to_u32 t)) = t"
proof -
  assume t: "- 2147483648 \<le> t" "t < 2147483648"
  have "s32 (int (to_u32 t)) = s32 t" by (simp add: to_u32_def s32_def mod_simps)
  with t show ?thesis by (simp add: s32_id)
qed

text \<open>C25: For every 32-bit time the calendar fields of \<open>fromUnixTime\<close> convert back to the same time with
  \<open>toUnixTime\<close>.\<close>

theorem unix_time_roundtrip:
  assumes "- 2147483648 \<le> t" and "t < 2147483648"
  shows "\<exists>sec mi hour day wday month year. fromUnixTime t = Some (sec, mi, hour, day, wday, month, year) \<and>
    toUnixTime sec mi hour day month year = Some t"
proof -
  obtain y m d where f: "fromUnixTime t = Some (int (to_u32 t mod 60), int (to_u32 t div 60 mod 60),
      int (to_u32 t div 3600 mod 24), int d + 1, int ((to_u32 t div 86400 + 4) mod 7), int m, int y + 1900)"
    and y: "70 \<le> y" "y < 207" "m < 12" and D: "to_u32 t div 86400 = days_before y + month_start y m + d"
    by (rule fromUnixTime_spec)
  define e where "e = to_u32 t"
  have "int e = int (86400 * (e div 86400) + 3600 * (e div 3600 mod 24) + 60 * (e div 60 mod 60) + e mod 60)"
    using epoch_parts [of e] by (rule arg_cong)
  then have "86400 * (int (days_before y) + int (month_start y m) + (int d + 1) - 1) + 3600 * int (e div 3600 mod 24) +
      60 * int (e div 60 mod 60) + int (e mod 60) = int e"
    using D unfolding e_def [symmetric] by (simp only: of_nat_add of_nat_mult of_nat_numeral add_1_diff_1)
  then show ?thesis
    using f toUnixTime_spec [of y m] y s32_to_u32 [OF assms] unfolding e_def [symmetric] by simp
qed

theorem unix_time_roundtrip_witness:
  "\<exists>sec mi hour day wday month year. fromUnixTime 1542365777 = Some (sec, mi, hour, day, wday, month, year) \<and>
    toUnixTime sec mi hour day month year = Some 1542365777"
  by (rule unix_time_roundtrip) simp_all


end
