(* ===== verification/DateTimeText.thy ===== *)
theory DateTimeText
  imports DateTimeProps
begin

text \<open>
  The HTTP date of a date and time with fields in range: the text \<open>toHTTPDate\<close> prints, and that
  \<open>fromHttpDate\<close> reads the same fields from it.
\<close>

section \<open>Numbers with leading zeros\<close>

lemma ultoa_loop_step:
  "0 < i \<Longrightarrow> 0 < v \<Longrightarrow> v mod b < 256 \<Longrightarrow>
    ultoa_loop i v b acc = ultoa_loop (i - 1) (v div b) b (hexchar (v mod b) # acc)"
  by (cases i) simp_all

lemma ultoa_loop_0: "ultoa_loop i 0 b acc = (i, acc)"
  by (cases i) simp_all

definition digits2 :: "nat \<Rightarrow> char list" where
  "digits2 n = [hexchar (n div 10), hexchar (n mod 10)]"

definition digits4 :: "nat \<Rightarrow> char list" where
  "digits4 n = [hexchar (n div 1000), hexchar (n div 100 mod 10), hexchar (n div 10 mod 10), hexchar (n mod 10)]"

lemma mod10_256 [simp]: "n mod 10 < (256 :: nat)"
  by (rule less_trans [OF mod_less_divisor]) simp_all

lemma mod10_16 [simp]: "n mod 10 < (16 :: nat)"
  by (rule less_trans [OF mod_less_divisor]) simp_all

lemma hexchar_0: "hexchar 0 = CHR ''0''"
  by (simp add: hexchar_eq_0)

lemma ltoa_wp_2:
  assumes "n < 100"
  shows "ltoa_wp (int n) 10 2 CHR ''0'' = digits2 n"
proof -
  have l: "ltoa_loop 38 (int n) 10 [] = ultoa_loop 38 n 10 []" using ltoa_loop_nat [of 10 38 n "[]"] by simp
  consider "n = 0" | "0 < n" "n < 10" | "10 \<le> n" by linarith
  then show ?thesis
  proof cases
    case 1
    with l show ?thesis
      by (simp add: ltoa_wp_def Let_def ultoa_loop_0 pad_to_def digits2_def hexchar_0 numeral_2_eq_2)
  next
    case 2
    then have "snd (ultoa_loop 38 n 10 []) = [hexchar n]"
      by (subst ultoa_loop_step) (simp_all add: ultoa_loop_0)
    with 2 show ?thesis by (simp add: ltoa_wp_def Let_def l pad_to_def digits2_def hexchar_0 cstr_def)
  next
    case 3
    then have "0 < n div 10" "n div 10 < 10" using assms by auto
    with 3 have "snd (ultoa_loop 38 n 10 []) = [hexchar (n div 10), hexchar (n mod 10)]"
      by (subst ultoa_loop_step, simp, simp, simp) (subst ultoa_loop_step, simp_all add: ultoa_loop_0)
    with \<open>n div 10 < 10\<close> show ?thesis by (simp add: ltoa_wp_def Let_def l pad_to_def digits2_def cstr_def)
  qed
qed

lemma ltoa_wp_4:
  assumes "1000 \<le> n" and "n < 10000"
  shows "ltoa_wp (int n) 10 4 CHR ''0'' = digits4 n"
proof -
  have l: "ltoa_loop 38 (int n) 10 [] = ultoa_loop 38 n 10 []" using ltoa_loop_nat [of 10 38 n "[]"] by simp
  have d: "n div 10 div 10 = n div 100" "n div 100 div 10 = n div 1000" "n div 1000 div 10 = 0"
    using assms(2) by (simp_all add: div_mult2_eq [symmetric])
  have p: "0 < n" "0 < n div 10" "0 < n div 100" "0 < n div 1000" "n div 1000 < 10" using assms by auto
  have "snd (ultoa_loop 38 n 10 []) = digits4 n"
    using p d unfolding digits4_def
    by (subst ultoa_loop_step, simp, simp, simp, subst ultoa_loop_step, simp, simp, simp,
        subst ultoa_loop_step, simp, simp, simp, subst ultoa_loop_step, simp_all add: ultoa_loop_0)
  with p show ?thesis by (simp add: ltoa_wp_def Let_def l pad_to_def digits4_def cstr_def)
qed

section \<open>Texts in the local buffer\<close>

lemma buf_printf_text:
  assumes "fmt_text fmt args = Some t" and "0 < n" and "n \<le> 64" and "NUL \<notin> set t"
  shows "buf_printf n fmt args = Some (take (n - 1) t)"
proof -
  define k where "k = min (length t) (n - 1)"
  have "m_snprintf (replicate 64 NUL) n fmt args = Some (take k t @ NUL # drop (Suc k) (replicate 64 NUL), length t)"
    using m_vsnprintf_text [of n "replicate 64 NUL" fmt args] assms by (simp add: m_snprintf_def k_def Let_def)
  moreover have "cstr (take k t @ NUL # xs) = take k t" for xs
    using assms(4) by (intro cstr_append_NUL) (auto dest: in_set_takeD)
  moreover have "take k t = take (n - 1) t" by (simp add: k_def min_def)
  ultimately show ?thesis by (simp add: buf_printf_def)
qed

lemma NUL_hexchar [simp]: "c < 16 \<Longrightarrow> NUL \<noteq> hexchar c"
  using hexchar_nonNUL [of c] by metis

lemma digits_length [simp]: "length (digits2 n) = 2" "length (digits4 n) = 4"
  by (simp_all add: digits2_def digits4_def)

lemma digits2_NUL [simp]: "n < 100 \<Longrightarrow> NUL \<notin> set (digits2 n)"
  by (simp add: digits2_def)

lemma digits4_NUL [simp]: "n < 10000 \<Longrightarrow> NUL \<notin> set (digits4 n)"
  by (simp add: digits4_def)

lemma fmt_02d: "n < 100 \<Longrightarrow> fmt_text ''%02d'' [ArgInt (int n)] = Some (digits2 n)"
  by (simp add: fmt_text.simps parse_spec_def skip_atoi_def c_isdigit_def digit_val_def s32_def s8_def Let_def
      directive_text_def temp_num_def ltoa_wp_2)

lemma fmt_04d: "1000 \<le> n \<Longrightarrow> n < 10000 \<Longrightarrow> fmt_text ''%04d'' [ArgInt (int n)] = Some (digits4 n)"
  by (simp add: fmt_text.simps parse_spec_def skip_atoi_def c_isdigit_def digit_val_def s32_def s8_def Let_def
      directive_text_def temp_num_def ltoa_wp_4)

lemma fmt_s: "NUL \<notin> set s \<Longrightarrow> fmt_text ''%s'' [ArgStr (Some s)] = Some s"
  by (simp add: fmt_text.simps parse_spec_def c_isdigit_def Let_def directive_text_def string_text_def)

lemma buf_02d: "n < 100 \<Longrightarrow> buf_int ''%02d'' (int n) = Some (digits2 n)"
  using buf_printf_text [OF fmt_02d, of n 64] by (simp add: buf_int_def)

lemma buf_04d: "1000 \<le> n \<Longrightarrow> n < 10000 \<Longrightarrow> buf_int ''%04d'' (int n) = Some (digits4 n)"
  using buf_printf_text [OF fmt_04d, of n 64] by (simp add: buf_int_def)

lemma buf_str_text: "NUL \<notin> set s \<Longrightarrow> 0 < n \<Longrightarrow> n \<le> 64 \<Longrightarrow> buf_str n (Some s) = Some (take (n - 1) s)"
  using buf_printf_text [OF fmt_s] by (simp add: buf_str_def)

section \<open>The printed date\<close>

definition http_date_ok :: "datetime \<Rightarrow> bool" where
  "http_date_ok d \<longleftrightarrow> 0 \<le> Hour d \<and> Hour d < 100 \<and> 0 \<le> Minute d \<and> Minute d < 100 \<and> 0 \<le> Second d \<and> Second d < 100 \<and>
     0 \<le> Day d \<and> Day d < 100 \<and> 0 \<le> DayofWeek d \<and> DayofWeek d < 7 \<and> 0 \<le> Month d \<and> Month d < 12 \<and>
     1000 \<le> Year d \<and> Year d < 10000"

definition day3 :: "datetime \<Rightarrow> char list" where
  "day3 d = take 3 (LOCALE_DAY_NAMES ! nat (DayofWeek d))"

definition month3 :: "datetime \<Rightarrow> char list" where
  "month3 d = take 3 (LOCALE_MONTH_NAMES ! nat (Month d))"

definition http_text :: "datetime \<Rightarrow> char list" where
  "http_text d = day3 d @ '', '' @ digits2 (nat (Day d)) @ '' '' @ month3 d @ '' '' @ digits4 (nat (Year d)) @ '' '' @
     digits2 (nat (Hour d)) @ '':'' @ digits2 (nat (Minute d)) @ '':'' @ digits2 (nat (Second d)) @ '' GMT''"

lemma names_ok:
  "\<forall>n \<in> set (LOCALE_DAY_NAMES @ LOCALE_MONTH_NAMES). NUL \<notin> set n \<and> CHR '','' \<notin> set n \<and> 3 \<le> length n"
  by code_simp

lemma day3_ok: "http_date_ok d \<Longrightarrow> NUL \<notin> set (day3 d) \<and> CHR '','' \<notin> set (day3 d) \<and> length (day3 d) = 3"
proof -
  assume "http_date_ok d"
  then have "LOCALE_DAY_NAMES ! nat (DayofWeek d) \<in> set LOCALE_DAY_NAMES"
    by (intro nth_mem) (auto simp: http_date_ok_def LOCALE_DAY_NAMES_def)
  with names_ok show ?thesis by (auto simp: day3_def dest: in_set_takeD)
qed

lemma month3_ok: "http_date_ok d \<Longrightarrow> NUL \<notin> set (month3 d) \<and> length (month3 d) = 3"
proof -
  assume "http_date_ok d"
  then have "LOCALE_MONTH_NAMES ! nat (Month d) \<in> set LOCALE_MONTH_NAMES"
    by (intro nth_mem) (auto simp: http_date_ok_def LOCALE_MONTH_NAMES_def)
  with names_ok show ?thesis by (auto simp: month3_def dest: in_set_takeD)
qed

lemma buf_02d_int: "0 \<le> i \<Longrightarrow> i < 100 \<Longrightarrow> buf_int ''%02d'' i = Some (digits2 (nat i))"
  using buf_02d [of "nat i"] by simp

lemma buf_04d_int: "1000 \<le> i \<Longrightarrow> i < 10000 \<Longrightarrow> buf_int ''%04d'' i = Some (digits4 (nat i))"
  using buf_04d [of "nat i"] by simp

lemma format_T:
  assumes "http_date_ok d"
  shows "format_depth (Suc n) d ''%H:%M:%S'' =
    Some (digits2 (nat (Hour d)) @ '':'' @ digits2 (nat (Minute d)) @ '':'' @ digits2 (nat (Second d)))"
  using assms by (simp add: http_date_ok_def date_directive_def Let_def buf_02d_int)

lemma buf_day: "http_date_ok d \<Longrightarrow> buf_str 4 (name_at LOCALE_DAY_NAMES (DayofWeek d)) = Some (day3 d)"
proof -
  assume ok: "http_date_ok d"
  then have "LOCALE_DAY_NAMES ! nat (DayofWeek d) \<in> set LOCALE_DAY_NAMES"
    by (intro nth_mem) (auto simp: http_date_ok_def LOCALE_DAY_NAMES_def)
  moreover have "name_at LOCALE_DAY_NAMES (DayofWeek d) = Some (LOCALE_DAY_NAMES ! nat (DayofWeek d))"
    using ok by (simp add: name_at_def http_date_ok_def LOCALE_DAY_NAMES_def)
  ultimately show ?thesis using names_ok buf_str_text [of "LOCALE_DAY_NAMES ! nat (DayofWeek d)" 4] by (simp add: day3_def)
qed

lemma buf_month: "http_date_ok d \<Longrightarrow> buf_str 4 (name_at LOCALE_MONTH_NAMES (Month d)) = Some (month3 d)"
proof -
  assume ok: "http_date_ok d"
  then have "LOCALE_MONTH_NAMES ! nat (Month d) \<in> set LOCALE_MONTH_NAMES"
    by (intro nth_mem) (auto simp: http_date_ok_def LOCALE_MONTH_NAMES_def)
  moreover have "name_at LOCALE_MONTH_NAMES (Month d) = Some (LOCALE_MONTH_NAMES ! nat (Month d))"
    using ok by (simp add: name_at_def http_date_ok_def LOCALE_MONTH_NAMES_def)
  ultimately show ?thesis using names_ok buf_str_text [of "LOCALE_MONTH_NAMES ! nat (Month d)" 4] by (simp add: month3_def)
qed

lemma toHTTPDate_text:
  assumes ok: "http_date_ok d"
  shows "toHTTPDate d = Some (http_text d)"
proof -
  let ?T = "digits2 (nat (Hour d)) @ '':'' @ digits2 (nat (Minute d)) @ '':'' @ digits2 (nat (Second d))"
  have h: "nat (Hour d) < 100" "nat (Minute d) < 100" "nat (Second d) < 100" using ok by (auto simp: http_date_ok_def)
  then have t: "buf_str 64 (Some ?T) = Some ?T"
    using buf_str_text [of ?T 64] digits2_NUL [of "nat (Hour d)"] digits2_NUL [of "nat (Minute d)"]
      digits2_NUL [of "nat (Second d)"] by (simp del: digits2_NUL)
  have f: "format_depth 2 d ''%H:%M:%S'' = Some ?T"
    using format_T [OF ok, of 1] by (simp only: numeral_2_eq_2 One_nat_def)
  have n: "buf_int ''%02d'' (Day d) = Some (digits2 (nat (Day d)))" "buf_int ''%04d'' (Year d) = Some (digits4 (nat (Year d)))"
    using ok by (auto simp: http_date_ok_def buf_02d_int buf_04d_int)
  have "format_depth 3 d f = format_loop (format_depth 2 d) d f" for f by (simp add: numeral_3_eq_3 numeral_2_eq_2)
  then show ?thesis
    unfolding toHTTPDate_def DateTime_format_def
    by (simp add: date_directive_def Let_def buf_day [OF ok] buf_month [OF ok] n f t [simplified] http_text_def)
qed

section \<open>Reading it back\<close>

lemma c_isdigit_plain: "c_isdigit c \<Longrightarrow> \<not> c_isspace c \<and> c \<noteq> CHR ''-'' \<and> c \<noteq> CHR ''+'' \<and> c \<noteq> NUL"
  by (auto simp: c_isdigit_def c_isspace_def)

lemma c_strtol10_spaces_digits:
  assumes "\<forall>c\<in>set ws. c_isspace c" and "ds \<noteq> []" and "\<forall>c\<in>set ds. c_isdigit c"
    and "rest = [] \<or> \<not> c_isdigit (hd rest)"
  shows "c_strtol10 (ws @ ds @ rest) = (clamp_long (digits_val ds), length ws + length ds)"
proof -
  obtain x xs where ds: "ds = x # xs" using assms(2) by (cases ds) auto
  have x: "\<not> c_isspace x" "x \<noteq> CHR ''-''" "x \<noteq> CHR ''+''" using assms(3) c_isdigit_plain [of x] by (auto simp: ds)
  have "takeWhile c_isspace (ws @ ds @ rest) = ws" and "dropWhile c_isspace (ws @ ds @ rest) = ds @ rest"
    using assms(1) x by (simp_all add: ds takeWhile_append2 dropWhile_append2)
  moreover have "takeWhile c_isdigit (ds @ rest) = ds"
    using assms(3,4) by (cases rest) (auto simp: takeWhile_append2)
  ultimately show ?thesis using assms(2) x by (simp add: c_strtol10_def Let_def ds)
qed

lemma parseNumber_digits:
  assumes "drop p b = ws @ ds @ c # r" and "\<forall>c\<in>set ws. c_isspace c" and "ds \<noteq> []" and "\<forall>c\<in>set ds. c_isdigit c"
    and "\<not> c_isdigit c"
  shows "parseNumber b p = Some (clamp_long (digits_val ds), p + length ws + length ds)"
proof -
  have "p < length b" using assms(1) by (cases "p < length b") auto
  have "NUL \<notin> set ws" "NUL \<notin> set ds" using assms(2,4) c_isdigit_plain c_isspace_NUL by blast+
  then have "cstr (drop p b) = ws @ ds @ cstr (c # r)"
    unfolding assms(1) cstr_def by (subst takeWhile_append2, force, subst takeWhile_append2, force, simp)
  moreover have "cstr (c # r) = [] \<or> \<not> c_isdigit (hd (cstr (c # r)))" using assms(5) by (simp add: cstr_def)
  ultimately show ?thesis
    using c_strtol10_spaces_digits [OF assms(2-4)] \<open>p < length b\<close> by (simp add: parseNumber_def)
qed

lemma digits2_val: "n < 100 \<Longrightarrow> clamp_long (digits_val (digits2 n)) = int n"
proof -
  assume n: "n < 100"
  have "int (n div 10) * 10 + int (n mod 10) = int n" by (metis div_mult_mod_eq of_nat_add of_nat_mult of_nat_numeral)
  with n show ?thesis by (simp add: digits_val_def digits2_def digit_val_hexchar clamp_long_def del: of_nat_mod)
qed

lemma digits4_val: "n < 10000 \<Longrightarrow> clamp_long (digits_val (digits4 n)) = int n"
proof -
  assume n: "n < 10000"
  have "n div 10 div 10 = n div 100" "n div 100 div 10 = n div 1000" by (simp_all add: div_mult2_eq [symmetric])
  then have "((n div 1000 * 10 + n div 100 mod 10) * 10 + n div 10 mod 10) * 10 + n mod 10 = n"
    by (metis div_mult_mod_eq)
  then have "((int (n div 1000) * 10 + int (n div 100 mod 10)) * 10 + int (n div 10 mod 10)) * 10 + int (n mod 10) = int n"
    by (metis of_nat_add of_nat_mult of_nat_numeral)
  with n show ?thesis
    by (simp add: digits_val_def digits4_def digit_val_hexchar clamp_long_def less_mult_imp_div_less del: of_nat_mod)
qed

lemma digits_isdigit:
  "n < 100 \<Longrightarrow> \<forall>c\<in>set (digits2 n). c_isdigit c" "n < 10000 \<Longrightarrow> \<forall>c\<in>set (digits4 n). c_isdigit c"
  by (simp_all add: digits2_def digits4_def hexchar_isdigit less_mult_imp_div_less)

lemma find_day: "http_date_ok d \<Longrightarrow> int (find_name LOCALE_DAY_NAMES (day3 d)) = DayofWeek d"
proof -
  have all: "\<forall>i<7. find_name LOCALE_DAY_NAMES (take 3 (LOCALE_DAY_NAMES ! i)) = i" by code_simp
  assume "http_date_ok d"
  then have "nat (DayofWeek d) < 7" "0 \<le> DayofWeek d" by (auto simp: http_date_ok_def)
  with all show ?thesis by (simp add: day3_def)
qed

lemma find_month: "http_date_ok d \<Longrightarrow> int (find_name LOCALE_MONTH_NAMES (month3 d)) = Month d"
proof -
  have all: "\<forall>i<12. find_name LOCALE_MONTH_NAMES (take 3 (LOCALE_MONTH_NAMES ! i)) = i" by code_simp
  assume "http_date_ok d"
  then have "nat (Month d) < 12" "0 \<le> Month d" by (auto simp: http_date_ok_def)
  with all show ?thesis by (simp add: month3_def)
qed

lemma rd_drop_Cons: "drop p b = c # r \<Longrightarrow> rd b p = Some c"
  by (cases "p < length b") (auto simp: rd_def Cons_nth_drop_Suc [symmetric])

lemma c_memchr_append: "c \<notin> set xs \<Longrightarrow> c_memchr (xs @ c # ys) c = Some (length xs)"
  by (induction xs) auto

lemma parse_clock_text:
  assumes b: "drop p b = '' '' @ digits2 h @ '':'' @ digits2 m @ '':'' @ digits2 s @ c # r"
    and lt: "h < 100" "m < 100" "s < 100" and c: "\<not> c_isdigit c"
  shows "parse_clock b p d = Some (calcDayOfYear (d\<lparr>Hour := int h, Minute := int m, Second := int s, Milliseconds := 0\<rparr>), True)"
proof -
  have colon: "\<not> c_isdigit CHR '':''" by (simp add: c_isdigit_def)
  have d1: "drop (p + 3) b = '':'' @ digits2 m @ '':'' @ digits2 s @ c # r"
    using arg_cong [OF b, of "drop 3"] by (simp add: add.commute)
  then have d2: "drop (p + 4) b = digits2 m @ '':'' @ digits2 s @ c # r"
    using arg_cong [OF b, of "drop 4"] by (simp add: add.commute)
  then have d3: "drop (p + 6) b = '':'' @ digits2 s @ c # r"
    using arg_cong [OF b, of "drop 6"] by (simp add: add.commute)
  then have d4: "drop (p + 7) b = digits2 s @ c # r"
    using arg_cong [OF b, of "drop 7"] by (simp add: add.commute)
  have n1: "parseNumber b p = Some (int h, p + 3)"
    using parseNumber_digits [of p b "'' ''" "digits2 h" "CHR '':''"] b lt colon
    by (simp add: digits_isdigit digits2_val c_isspace_def flip: length_0_conv)
  have n2: "parseNumber b (p + 4) = Some (int m, p + 6)"
    using parseNumber_digits [of "p + 4" b "[]" "digits2 m" "CHR '':''"] d2 lt colon
    by (simp add: digits_isdigit digits2_val flip: length_0_conv)
  have n3: "parseNumber b (p + 7) = Some (int s, p + 9)"
    using parseNumber_digits [of "p + 7" b "[]" "digits2 s" c] d4 lt c
    by (simp add: digits_isdigit digits2_val flip: length_0_conv)
  have r: "rd b (p + 3) = Some CHR '':''" "rd b (p + 6) = Some CHR '':''"
    using rd_drop_Cons [OF d1 [unfolded append_Cons append_Nil]] rd_drop_Cons [OF d3 [unfolded append_Cons append_Nil]] .
  have a: "p + 3 + 1 = p + 4" "p + 6 + 1 = p + 7" by simp_all
  obtain q q2 where "parseNumber b p = Some (int h, q)" "rd b q = Some CHR '':''"
      "parseNumber b (q + 1) = Some (int m, q2)" "rd b q2 = Some CHR '':''" "parseNumber b (q2 + 1) = Some (int s, p + 9)"
    by (rule that [of "p + 3" "p + 6"]) (simp_all only: n1 r a n2 n3)
  then show ?thesis using lt by (simp add: parse_clock_def s8_id)
qed

text \<open>C27: The HTTP date that \<open>toHTTPDate\<close> prints for a date and time with fields in range is accepted by
  \<open>fromHttpDate\<close>, which sets every field of the object to the printed one.\<close>

theorem http_date_roundtrip:
  assumes ok: "http_date_ok d"
  shows "\<exists>t. toHTTPDate d = Some t \<and> DateTime_fromHttpDate d0 t =
    Some (calcDayOfYear (d0\<lparr>DayofWeek := DayofWeek d, Day := Day d, Month := Month d, Year := Year d, Hour := Hour d,
      Minute := Minute d, Second := Second d, Milliseconds := 0\<rparr>), True)"
proof -
  let ?b = "http_text d @ [NUL]"
  have f: "nat (Day d) < 100" "nat (Hour d) < 100" "nat (Minute d) < 100" "nat (Second d) < 100" "nat (Year d) < 10000"
    and nn: "0 \<le> Day d" "0 \<le> Hour d" "0 \<le> Minute d" "0 \<le> Second d" "0 \<le> Year d"
    using ok by (auto simp: http_date_ok_def)
  note day = day3_ok [OF ok] and month = month3_ok [OF ok]
  have comma: "c_memchr (http_text d) CHR '','' = Some 3"
    using day c_memchr_append [of "CHR '',''" "day3 d"] by (simp add: http_text_def)
  have r0: "rdn ?b 0 3 = Some (day3 d)" using day by (simp add: rdn_def http_text_def)
  have sp: "\<not> c_isdigit CHR '' ''" by (simp add: c_isdigit_def)
  have p5: "parseNumber ?b 5 = Some (Day d, 7)"
    using parseNumber_digits [of 5 ?b "[]" "digits2 (nat (Day d))" "CHR '' ''"] day f sp
    by (simp add: http_text_def digits_isdigit digits2_val nn flip: length_0_conv)
  have r7: "rd ?b 7 = Some CHR '' ''" using day by (simp add: rd_def http_text_def nth_append)
  have r8: "rdn ?b 8 3 = Some (month3 d)" using day month by (simp add: rdn_def http_text_def)
  have p12: "parseNumber ?b 12 = Some (Year d, 16)"
    using parseNumber_digits [of 12 ?b "[]" "digits4 (nat (Year d))" "CHR '' ''"] day month f sp
    by (simp add: http_text_def digits_isdigit digits4_val nn flip: length_0_conv)
  have r16: "rd ?b 16 = Some CHR '' ''" using day month by (simp add: rd_def http_text_def nth_append)
  have c: "parse_clock ?b 16 x = Some (calcDayOfYear (x\<lparr>Hour := Hour d, Minute := Minute d, Second := Second d,
      Milliseconds := 0\<rparr>), True)" for x
    using parse_clock_text [of 16 ?b "nat (Hour d)" "nat (Minute d)" "nat (Second d)" "CHR '' ''" "''GMT'' @ [NUL]" x]
      day month f sp by (simp add: http_text_def nn)
  have len: "length (http_text d) = 29" using day month by (simp add: http_text_def)
  have fd: "int (find_name LOCALE_DAY_NAMES (day3 d)) = DayofWeek d" "\<not> 6 < find_name LOCALE_DAY_NAMES (day3 d)"
    and fm: "int (find_name LOCALE_MONTH_NAMES (month3 d)) = Month d" "\<not> 11 < find_name LOCALE_MONTH_NAMES (month3 d)"
    using find_day [OF ok] find_month [OF ok] ok by (auto simp: http_date_ok_def)
  have y: "s8 (Day d) = Day d" "s16 (Year d) = Year d" "\<not> Year d < 70" "\<not> Year d < 100"
    using ok by (auto simp: http_date_ok_def s8_id s16_id)
  have "DateTime_fromHttpDate d0 (http_text d) =
    Some (calcDayOfYear (d0\<lparr>DayofWeek := DayofWeek d, Day := Day d, Month := Month d, Year := Year d, Hour := Hour d,
      Minute := Minute d, Second := Second d, Milliseconds := 0\<rparr>), True)"
    using fd(2) fm(2)
    by (simp add: DateTime_fromHttpDate_def Let_def comma len r0 p5 r7 r8 p12 r16 c fd(1) fm(1) y)
  with toHTTPDate_text [OF ok] show ?thesis by simp
qed

definition date_example :: datetime where
  "date_example = \<lparr>Hour = 8, Minute = 49, Second = 37, Milliseconds = 0, Day = 6, DayofWeek = 0, DayofYear = 310,
     Month = 10, Year = 1994\<rparr>"

theorem http_date_roundtrip_witness:
  "\<exists>t. toHTTPDate date_example = Some t \<and> DateTime_fromHttpDate date_example t =
    Some (calcDayOfYear (date_example\<lparr>DayofWeek := DayofWeek date_example, Day := Day date_example,
      Month := Month date_example, Year := Year date_example, Hour := Hour date_example,
      Minute := Minute date_example, Second := Second date_example, Milliseconds := 0\<rparr>), True)"
  by (rule http_date_roundtrip) (simp add: http_date_ok_def date_example_def)

end
