(* ===== verification/Base64.thy ===== *)
theory Base64
  imports WString
begin

text \<open>
  Base64: the block encoder and decoder of \<open>Services/libb64\<close> and the one-shot functions of
  \<open>Services/WebHelpers/base64.cpp\<close>. Bytes are numbers below 256; the masks and shifts of the
  source select bit fields that do not overlap and are written with \<open>div\<close>, \<open>mod\<close> and \<open>+\<close>.
  Output goes to a block, outside of which a store is undefined. Whether plain \<open>char\<close> is signed
  is left to the implementation by the language; the decoder depends on it and takes it as the
  parameter \<open>signed_char\<close>.
\<close>

section \<open>Encoder\<close>

datatype base64_encodestep = step_A | step_B | step_C

record base64_encodestate =
  es_step :: base64_encodestep
  es_result :: nat
  es_stepcount :: nat
  es_steps_per_line :: nat

definition base64_init_encodestate :: "nat \<Rightarrow> base64_encodestate" where
  "base64_init_encodestate chars_per_line =
     \<lparr>es_step = step_A, es_result = 0, es_stepcount = 0, es_steps_per_line = chars_per_line div 4\<rparr>"

definition base64_alphabet :: "char list" where
  "base64_alphabet = ''ABCDEFGHIJKLMNOPQRSTUVWXYZabcdefghijklmnopqrstuvwxyz0123456789+/''"

definition base64_encode_value :: "nat \<Rightarrow> char" where
  "base64_encode_value v = (if 63 < v then CHR ''='' else base64_alphabet ! v)"

text \<open>
  The loop of \<open>base64_encode_block\<close>, entered at the step of the state: the arguments are the
  remaining input, the output block and the index \<open>codechar\<close>. The bits that \<open>|=\<close> joins are disjoint
  (the result left by a step has its low bits clear), so that the operation is an addition.
\<close>

fun encode_loop ::
  "base64_encodestate \<Rightarrow> nat list \<Rightarrow> char list \<Rightarrow> nat \<Rightarrow> (base64_encodestate \<times> char list \<times> nat) option" where
  "encode_loop s [] out p = Some (s, out, p)"
| "encode_loop s (x # xs) out p = (case es_step s of
     step_A \<Rightarrow> do {
       out1 \<leftarrow> wr out p (base64_encode_value ((x div 4) mod 64));
       encode_loop (s\<lparr>es_step := step_B, es_result := (x mod 4) * 16\<rparr>) xs out1 (p + 1) }
   | step_B \<Rightarrow> do {
       out1 \<leftarrow> wr out p (base64_encode_value (es_result s + (x div 16) mod 16));
       encode_loop (s\<lparr>es_step := step_C, es_result := (x mod 16) * 4\<rparr>) xs out1 (p + 1) }
   | step_C \<Rightarrow> do {
       out1 \<leftarrow> wr out p (base64_encode_value (es_result s + (x div 64) mod 4));
       out2 \<leftarrow> wr out1 (p + 1) (base64_encode_value (x mod 64));
       if u32 (es_stepcount s + 1) = es_steps_per_line s
       then do {
         out3 \<leftarrow> wr out2 (p + 2) (CHR 0x0A);
         encode_loop (s\<lparr>es_step := step_A, es_result := x mod 64, es_stepcount := 0\<rparr>) xs out3 (p + 3) }
       else encode_loop (s\<lparr>es_step := step_A, es_result := x mod 64, es_stepcount := u32 (es_stepcount s + 1)\<rparr>)
              xs out2 (p + 2) })"

definition base64_encode_block ::
  "nat list \<Rightarrow> char list \<Rightarrow> nat \<Rightarrow> base64_encodestate \<Rightarrow> (base64_encodestate \<times> char list \<times> nat) option" where
  "base64_encode_block plaintext out p s = do {
     (s1, out1, q) \<leftarrow> encode_loop s plaintext out p;
     Some (s1, out1, q - p) }"

definition base64_encode_blockend ::
  "char list \<Rightarrow> nat \<Rightarrow> base64_encodestate \<Rightarrow> (char list \<times> nat) option" where
  "base64_encode_blockend out p s = (case es_step s of
     step_B \<Rightarrow> do {
       out1 \<leftarrow> wr out p (base64_encode_value (es_result s));
       out2 \<leftarrow> wr out1 (p + 1) CHR ''='';
       out3 \<leftarrow> wr out2 (p + 2) CHR ''='';
       Some (out3, 3) }
   | step_C \<Rightarrow> do {
       out1 \<leftarrow> wr out p (base64_encode_value (es_result s));
       out2 \<leftarrow> wr out1 (p + 1) CHR ''='';
       Some (out2, 2) }
   | step_A \<Rightarrow> Some (out, 0))"

section \<open>Decoder\<close>

datatype base64_decodestep = step_a | step_b | step_c | step_d

record base64_decodestate =
  ds_step :: base64_decodestep
  ds_plainchar :: nat

definition base64_init_decodestate :: base64_decodestate where
  "base64_init_decodestate = \<lparr>ds_step = step_a, ds_plainchar = 0\<rparr>"

text \<open>The value of a plain \<open>char\<close>.\<close>

definition plain_char :: "bool \<Rightarrow> int \<Rightarrow> int" where
  "plain_char signed_char i = (if signed_char then s8 i else i mod 256)"

definition base64_decoding :: "int list" where
  "base64_decoding = [62,-1,-1,-1,63,52,53,54,55,56,57,58,59,60,61,-1,-1,-1,-2,-1,-1,-1,0,1,2,3,4,5,6,7,8,9,10,11,
     12,13,14,15,16,17,18,19,20,21,22,23,24,25,-1,-1,-1,-1,-1,-1,26,27,28,29,30,31,32,33,34,35,36,37,38,39,40,41,42,
     43,44,45,46,47,48,49,50,51]"

definition base64_decode_value :: "bool \<Rightarrow> char \<Rightarrow> int" where
  "base64_decode_value signed_char c =
     (let v = plain_char signed_char (int (of_char c) - 43) in
      if v < 0 \<or> int (length base64_decoding) \<le> v then -1 else plain_char signed_char (base64_decoding ! nat v))"

text \<open>The inner \<open>do\<close> loops: the next fragment that is not negative, and the input behind it.\<close>

fun next_fragment :: "bool \<Rightarrow> char list \<Rightarrow> (nat \<times> char list) option" where
  "next_fragment signed_char [] = None"
| "next_fragment signed_char (c # cs) =
     (let fragment = plain_char signed_char (base64_decode_value signed_char c) in
      if fragment < 0 then next_fragment signed_char cs else Some (nat fragment, cs))"

lemma next_fragment_length: "next_fragment signed_char cs = Some (f, r) \<Longrightarrow> length r < length cs"
  by (induction signed_char cs rule: next_fragment.induct) (auto simp: Let_def split: if_splits)

text \<open>The loop of \<open>base64_decode_block\<close>: the result is the step, the block and the index \<open>plainchar\<close>.\<close>

function decode_loop ::
  "bool \<Rightarrow> base64_decodestep \<Rightarrow> char list \<Rightarrow> nat list \<Rightarrow> nat \<Rightarrow> (base64_decodestep \<times> nat list \<times> nat) option" where
  "decode_loop signed_char st code out p = (case next_fragment signed_char code of
     None \<Rightarrow> Some (st, out, p)
   | Some (f, r) \<Rightarrow> (case st of
       step_a \<Rightarrow> do {
         out1 \<leftarrow> wr out p ((f mod 64) * 4);
         decode_loop signed_char step_b r out1 p }
     | step_b \<Rightarrow> do {
         x \<leftarrow> rd out p;
         out1 \<leftarrow> wr out p (x + (f div 16) mod 4);
         out2 \<leftarrow> wr out1 (p + 1) ((f mod 16) * 16);
         decode_loop signed_char step_c r out2 (p + 1) }
     | step_c \<Rightarrow> do {
         x \<leftarrow> rd out p;
         out1 \<leftarrow> wr out p (x + (f div 4) mod 16);
         out2 \<leftarrow> wr out1 (p + 1) ((f mod 4) * 64);
         decode_loop signed_char step_d r out2 (p + 1) }
     | step_d \<Rightarrow> do {
         x \<leftarrow> rd out p;
         out1 \<leftarrow> wr out p (x + f mod 64);
         decode_loop signed_char step_a r out1 (p + 1) }))"
  by pat_completeness auto
termination
  by (relation "measure (\<lambda>(signed_char, st, code, out, p). length code)") (auto dest: next_fragment_length)

declare decode_loop.simps [simp del]

definition base64_decode_block ::
  "bool \<Rightarrow> char list \<Rightarrow> nat list \<Rightarrow> base64_decodestate \<Rightarrow> (base64_decodestate \<times> nat list \<times> nat) option" where
  "base64_decode_block signed_char code out s = do {
     out0 \<leftarrow> wr out 0 (ds_plainchar s);
     (st, out1, p) \<leftarrow> decode_loop signed_char (ds_step s) code out0 0;
     x \<leftarrow> rd out1 p;
     Some (\<lparr>ds_step = st, ds_plainchar = x\<rparr>, out1, p) }"

section \<open>One shot\<close>

definition MIN_ENCODE_LEN :: "nat \<Rightarrow> nat" where
  "MIN_ENCODE_LEN n = u32 (n * 3 + 1) div 2"

definition MIN_DECODE_LEN :: "nat \<Rightarrow> nat" where
  "MIN_DECODE_LEN n = u32 (n * 2 + 2) div 3"

text \<open>\<open>base64_encode(in_len, in, out_len, out)\<close>: the block behind \<open>out\<close> and the result.\<close>

definition base64_encode :: "nat list \<Rightarrow> nat \<Rightarrow> char list \<Rightarrow> (char list \<times> int) option" where
  "base64_encode inp out_len out =
     (if out_len < MIN_ENCODE_LEN (length inp) then Some (out, -1)
      else do {
        (s, out1, n) \<leftarrow> base64_encode_block inp out 0 (base64_init_encodestate 0);
        (out2, m) \<leftarrow> base64_encode_blockend out1 n s;
        Some (out2, int (n + m)) })"

definition base64_decode :: "bool \<Rightarrow> char list \<Rightarrow> nat \<Rightarrow> nat list \<Rightarrow> (nat list \<times> int) option" where
  "base64_decode signed_char code out_len out =
     (if out_len < MIN_DECODE_LEN (length code) then Some (out, -1)
      else do {
        (s, out1, n) \<leftarrow> base64_decode_block signed_char code out base64_init_decodestate;
        Some (out1, int n) })"

text \<open>
  The overload that returns a \<open>String\<close>: the text goes to the buffer of a \<open>String\<close> of length
  \<open>MIN_ENCODE_LEN\<close>, which has one more byte for its terminator.
\<close>

definition base64_encode_String :: "alloc_env \<Rightarrow> nat list \<Rightarrow> wstring option" where
  "base64_encode_String e inp = do {
     (s, ok) \<leftarrow> String_setLength e String_null (MIN_ENCODE_LEN (length inp));
     if \<not> ok then Some String_null
     else do {
       (b, len) \<leftarrow> base64_encode inp (str_len s) (block_of (str_buffer s));
       if len < 0 then Some String_null
       else map_option fst (String_setLength e (s\<lparr>str_buffer := Some b\<rparr>) (nat len)) } }"

definition base64_decode_String :: "bool \<Rightarrow> alloc_env \<Rightarrow> char list \<Rightarrow> wstring option" where
  "base64_decode_String signed_char e code = do {
     (s, ok) \<leftarrow> String_setLength e String_null (MIN_DECODE_LEN (length code));
     if \<not> ok then Some String_null
     else do {
       (b, len) \<leftarrow> base64_decode signed_char code (str_len s) (map of_char (block_of (str_buffer s)));
       if len < 0 then Some String_null
       else map_option fst (String_setLength e (s\<lparr>str_buffer := Some (map char_of b)\<rparr>) (nat len)) } }"

end
