(* ===== verification/Base64Props.thy ===== *)
theory Base64Props
  imports Base64
begin

text \<open>
  The encoder produces the standard text, also when the input comes in pieces; the decoder
  inverts it where plain \<open>char\<close> is signed and does not where it is unsigned; and the sizes the
  one-shot functions ask for are too small.
\<close>

section \<open>The text of the encoder\<close>

text \<open>What the encoder emits from a state, without line breaks, and the step and result it ends in.\<close>

fun enc_text :: "base64_encodestep \<Rightarrow> nat \<Rightarrow> nat list \<Rightarrow> char list" where
  "enc_text st res [] = []"
| "enc_text step_A res (x # xs) =
     base64_encode_value ((x div 4) mod 64) # enc_text step_B ((x mod 4) * 16) xs"
| "enc_text step_B res (x # xs) =
     base64_encode_value (res + (x div 16) mod 16) # enc_text step_C ((x mod 16) * 4) xs"
| "enc_text step_C res (x # xs) =
     base64_encode_value (res + (x div 64) mod 4) # base64_encode_value (x mod 64) # enc_text step_A (x mod 64) xs"

fun enc_end :: "base64_encodestep \<Rightarrow> nat \<Rightarrow> nat list \<Rightarrow> base64_encodestep \<times> nat" where
  "enc_end st res [] = (st, res)"
| "enc_end step_A res (x # xs) = enc_end step_B ((x mod 4) * 16) xs"
| "enc_end step_B res (x # xs) = enc_end step_C ((x mod 16) * 4) xs"
| "enc_end step_C res (x # xs) = enc_end step_A (x mod 64) xs"

definition enc_tail :: "base64_encodestep \<times> nat \<Rightarrow> char list" where
  "enc_tail = (\<lambda>(st, res). case st of
     step_A \<Rightarrow> [] | step_B \<Rightarrow> [base64_encode_value res, CHR ''='', CHR ''='']
   | step_C \<Rightarrow> [base64_encode_value res, CHR ''=''])"

text \<open>The standard text: four characters for three bytes.\<close>

fun b64 :: "nat list \<Rightarrow> char list" where
  "b64 [] = []"
| "b64 [x] = [base64_encode_value (x div 4), base64_encode_value ((x mod 4) * 16), CHR ''='', CHR ''='']"
| "b64 [x, y] = [base64_encode_value (x div 4), base64_encode_value ((x mod 4) * 16 + y div 16),
     base64_encode_value ((y mod 16) * 4), CHR ''='']"
| "b64 (x # y # z # xs) = [base64_encode_value (x div 4), base64_encode_value ((x mod 4) * 16 + y div 16),
     base64_encode_value ((y mod 16) * 4 + z div 64), base64_encode_value (z mod 64)] @ b64 xs"

lemma enc_text_b64: "\<forall>x\<in>set xs. x < 256 \<Longrightarrow> enc_text step_A res xs @ enc_tail (enc_end step_A res xs) = b64 xs"
proof (induction xs arbitrary: res rule: b64.induct)
  case (4 x y z xs)
  then have "x div 4 mod 64 = x div 4" "y div 16 mod 16 = y div 16" "z div 64 mod 4 = z div 64" by auto
  with 4 show ?case by simp
qed (auto simp: enc_tail_def)

text \<open>The state behind a piece of input, line breaks being off.\<close>

definition no_breaks :: "base64_encodestate \<Rightarrow> nat \<Rightarrow> bool" where
  "no_breaks s n \<longleftrightarrow> es_steps_per_line s = 0 \<and> es_stepcount s + n < 4294967295"

lemma encode_loop_text:
  assumes "no_breaks s (length xs)" and "length pre = p" and "length (enc_text (es_step s) (es_result s) xs) \<le> length rest"
  shows "\<exists>s1. encode_loop s xs (pre @ rest) p =
      Some (s1, pre @ enc_text (es_step s) (es_result s) xs @ drop (length (enc_text (es_step s) (es_result s) xs)) rest,
        p + length (enc_text (es_step s) (es_result s) xs))
    \<and> (es_step s1, es_result s1) = enc_end (es_step s) (es_result s) xs
    \<and> es_steps_per_line s1 = 0 \<and> es_stepcount s1 \<le> es_stepcount s + length xs"
  using assms
proof (induction xs arbitrary: s pre p rest)
  case Nil
  then show ?case by (simp add: no_breaks_def)
next
  case (Cons x xs)
  obtain c cs where rest: "rest = c # cs" using Cons.prems(3) by (cases rest; cases "es_step s") auto
  show ?case
  proof (cases "es_step s")
    case step_A
    let ?s = "s\<lparr>es_step := step_B, es_result := (x mod 4) * 16\<rparr>" and ?v = "base64_encode_value ((x div 4) mod 64)"
    have "no_breaks ?s (length xs)" using Cons.prems(1) by (simp add: no_breaks_def)
    from Cons.IH [OF this, of "pre @ [?v]" "Suc p" cs] Cons.prems step_A rest show ?thesis
      by (auto simp: wr_append no_breaks_def)
  next
    case step_B
    let ?s = "s\<lparr>es_step := step_C, es_result := (x mod 16) * 4\<rparr>"
      and ?v = "base64_encode_value (es_result s + (x div 16) mod 16)"
    have "no_breaks ?s (length xs)" using Cons.prems(1) by (simp add: no_breaks_def)
    from Cons.IH [OF this, of "pre @ [?v]" "Suc p" cs] Cons.prems step_B rest show ?thesis
      by (auto simp: wr_append no_breaks_def)
  next
    case step_C
    let ?s = "s\<lparr>es_step := step_A, es_result := x mod 64, es_stepcount := es_stepcount s + 1\<rparr>"
      and ?v = "base64_encode_value (es_result s + (x div 64) mod 4)" and ?w = "base64_encode_value (x mod 64)"
    obtain d ds where cs: "cs = d # ds" using Cons.prems(3) step_C rest by (cases cs) auto
    have nb: "no_breaks ?s (length xs)" "u32 (es_stepcount s + 1) = es_stepcount s + 1" "es_steps_per_line s = 0"
      using Cons.prems(1) by (simp_all add: no_breaks_def)
    have "wr (pre @ ?v # d # ds) (Suc p) ?w = Some (pre @ ?v # ?w # ds)"
      using wr_append [of "pre @ [?v]" "Suc p" "d # ds"] Cons.prems(2) by simp
    with Cons.IH [OF nb(1), of "pre @ [?v, ?w]" "p + 2" ds] Cons.prems step_C rest cs nb show ?thesis
      by (auto simp: wr_append no_breaks_def)
  qed
qed

lemma enc_text_append:
  "enc_text st res (xs @ ys) = enc_text st res xs @ (case enc_end st res xs of (st1, res1) \<Rightarrow> enc_text st1 res1 ys)"
  by (induction st res xs rule: enc_text.induct) auto

lemma enc_end_append: "enc_end st res (xs @ ys) = (case enc_end st res xs of (st1, res1) \<Rightarrow> enc_end st1 res1 ys)"
  by (induction st res xs rule: enc_text.induct) auto

lemma blockend_text:
  assumes "length pre = p" and "length (enc_tail (es_step s, es_result s)) \<le> length rest"
  shows "base64_encode_blockend (pre @ rest) p s =
    Some (pre @ enc_tail (es_step s, es_result s) @ drop (length (enc_tail (es_step s, es_result s))) rest,
      length (enc_tail (es_step s, es_result s)))"
proof (cases "es_step s")
  case step_A
  then show ?thesis by (simp add: base64_encode_blockend_def enc_tail_def)
next
  case step_B
  then obtain a b c r where r: "rest = a # b # c # r"
    using assms(2) by (auto simp: enc_tail_def numeral_3_eq_3 Suc_le_length_iff)
  show ?thesis
    using step_B assms(1) wr_append [of pre p rest] wr_append [of "pre @ [base64_encode_value (es_result s)]" "Suc p"]
      wr_append [of "pre @ [base64_encode_value (es_result s), CHR ''='']" "Suc (Suc p)"]
    by (simp add: base64_encode_blockend_def enc_tail_def r)
next
  case step_C
  then obtain a b r where r: "rest = a # b # r"
    using assms(2) by (auto simp: enc_tail_def numeral_2_eq_2 Suc_le_length_iff)
  show ?thesis
    using step_C assms(1) wr_append [of pre p rest] wr_append [of "pre @ [base64_encode_value (es_result s)]" "Suc p"]
    by (simp add: base64_encode_blockend_def enc_tail_def r)
qed

lemma encode_pieces_spec:
  assumes "\<forall>x\<in>set (xs @ ys). x < 256" and "length (b64 (xs @ ys)) \<le> length out"
    and "length xs + length ys < 4294967295"
  shows "\<exists>s1 out1 n1 s2 out2 n2 out3 n3.
    base64_encode_block xs out 0 (base64_init_encodestate 0) = Some (s1, out1, n1) \<and>
    base64_encode_block ys out1 n1 s1 = Some (s2, out2, n2) \<and>
    base64_encode_blockend out2 (n1 + n2) s2 = Some (out3, n3) \<and>
    n1 + n2 + n3 = length (b64 (xs @ ys)) \<and> take (n1 + n2 + n3) out3 = b64 (xs @ ys)"
proof -
  define s where "s = base64_init_encodestate 0"
  obtain st res where e1: "enc_end step_A 0 xs = (st, res)" by force
  obtain st2 res2 where e2: "enc_end st res ys = (st2, res2)" by force
  let ?t1 = "enc_text step_A 0 xs" and ?t2 = "enc_text st res ys" and ?t3 = "enc_tail (st2, res2)"
  have all: "b64 (xs @ ys) = ?t1 @ ?t2 @ ?t3"
    using enc_text_b64 [OF assms(1), of 0] by (simp add: enc_text_append enc_end_append e1 e2)
  have s: "es_step s = step_A" "es_result s = 0" "no_breaks s (length xs)" "es_stepcount s = 0"
    using assms(3) by (simp_all add: s_def base64_init_encodestate_def no_breaks_def)
  obtain s1 where 1: "encode_loop s xs out 0 = Some (s1, ?t1 @ drop (length ?t1) out, length ?t1)"
      "es_step s1 = st" "es_result s1 = res" "es_steps_per_line s1 = 0" "es_stepcount s1 \<le> length xs"
    using encode_loop_text [OF s(3), of "[]" 0 out] assms(2) all s e1 by auto
  have nb: "no_breaks s1 (length ys)" using 1 assms(3) by (simp add: no_breaks_def)
  have l2: "length (enc_text (es_step s1) (es_result s1) ys) \<le> length (drop (length ?t1) out)"
    using assms(2) all 1(2,3) by simp
  obtain s2 where 2: "encode_loop s1 ys (?t1 @ drop (length ?t1) out) (length ?t1) =
        Some (s2, (?t1 @ ?t2) @ drop (length ?t2) (drop (length ?t1) out), length (?t1 @ ?t2))"
      "es_step s2 = st2" "es_result s2 = res2"
    using encode_loop_text [OF nb refl l2] 1(2,3) e2 by auto
  have 3: "base64_encode_blockend ((?t1 @ ?t2) @ drop (length ?t2) (drop (length ?t1) out)) (length (?t1 @ ?t2)) s2 =
      Some ((?t1 @ ?t2) @ ?t3 @ drop (length ?t3) (drop (length ?t2) (drop (length ?t1) out)), length ?t3)"
    using blockend_text [of "?t1 @ ?t2" "length (?t1 @ ?t2)" s2 "drop (length ?t2) (drop (length ?t1) out)"] 2 assms(2) all
    by simp
  show ?thesis
    using 1(1) 2(1) 3 by (simp add: base64_encode_block_def all flip: s_def)
qed

lemma encode_one_piece:
  assumes "\<forall>x\<in>set xs. x < 256" and "length (b64 (xs @ [])) \<le> length out" and "length xs < 4294967295"
  shows "\<exists>out1. base64_encode_block xs out 0 (base64_init_encodestate 0) \<bind> (\<lambda>(s, o1, i).
      base64_encode_blockend o1 i s \<bind> (\<lambda>(o2, j). Some (o2, int (i + j)))) = Some (out1, int (length (b64 xs))) \<and>
    take (length (b64 xs)) out1 = b64 xs"
proof -
  obtain s1 out1 n1 s2 out2 n2 out3 n3 where
    1: "base64_encode_block xs out 0 (base64_init_encodestate 0) = Some (s1, out1, n1)"
    and 2: "base64_encode_block [] out1 n1 s1 = Some (s2, out2, n2)"
    and 3: "base64_encode_blockend out2 (n1 + n2) s2 = Some (out3, n3)"
    and 4: "n1 + n2 + n3 = length (b64 (xs @ []))" "take (n1 + n2 + n3) out3 = b64 (xs @ [])"
    using encode_pieces_spec [of xs "[]" out] assms by auto
  from 2 have "s2 = s1" "out2 = out1" "n2 = 0" by (simp_all add: base64_encode_block_def)
  with 1 3 4 show ?thesis by (simp flip: of_nat_add)
qed

text \<open>C29: Encoding in pieces gives the standard text: two calls of \<open>base64_encode_block\<close> and one of
  \<open>base64_encode_blockend\<close> on the same state store, one behind the other, the base64 text of the two inputs together,
  wherever the first piece ends.\<close>

theorem base64_encode_in_pieces:
  assumes "\<forall>x\<in>set (xs @ ys). x < 256" and "length (b64 (xs @ ys)) \<le> length out"
    and "length xs + length ys < 4294967295"
  shows "\<exists>s1 out1 n1 s2 out2 n2 out3 n3.
    base64_encode_block xs out 0 (base64_init_encodestate 0) = Some (s1, out1, n1) \<and>
    base64_encode_block ys out1 n1 s1 = Some (s2, out2, n2) \<and>
    base64_encode_blockend out2 (n1 + n2) s2 = Some (out3, n3) \<and>
    n1 + n2 + n3 = length (b64 (xs @ ys)) \<and> take (n1 + n2 + n3) out3 = b64 (xs @ ys)"
  using assms by (rule encode_pieces_spec)

theorem base64_encode_in_pieces_witness:
  "\<exists>s1 out1 n1 s2 out2 n2 out3 n3.
    base64_encode_block [77] (replicate 8 NUL) 0 (base64_init_encodestate 0) = Some (s1, out1, n1) \<and>
    base64_encode_block [97, 110, 33] out1 n1 s1 = Some (s2, out2, n2) \<and>
    base64_encode_blockend out2 (n1 + n2) s2 = Some (out3, n3) \<and>
    n1 + n2 + n3 = length (b64 ([77] @ [97, 110, 33])) \<and> take (n1 + n2 + n3) out3 = b64 ([77] @ [97, 110, 33])"
  by (rule base64_encode_in_pieces) simp_all

section \<open>Decoding\<close>

lemma decode_alphabet: "map (base64_decode_value True) base64_alphabet = map int [0..<64]"
proof -
  have "map (base64_decode_value True) base64_alphabet = [0, 1, 2, 3, 4, 5, 6, 7, 8, 9, 10, 11, 12, 13, 14, 15, 16, 17, 18,
     19, 20, 21, 22, 23, 24, 25, 26, 27, 28, 29, 30, 31, 32, 33, 34, 35, 36, 37, 38, 39, 40, 41, 42, 43, 44, 45, 46, 47, 48,
     49, 50, 51, 52, 53, 54, 55, 56, 57, 58, 59, 60, 61, 62, 63]"
    by (simp add: base64_alphabet_def base64_decode_value_def base64_decoding_def plain_char_def s8_def)
  then show ?thesis by (simp add: upt_rec)
qed

lemma decode_encode_value: "v < 64 \<Longrightarrow> plain_char True (base64_decode_value True (base64_encode_value v)) = int v"
proof -
  assume v: "v < 64"
  have "length base64_alphabet = 64" by (simp add: base64_alphabet_def)
  with v have "base64_decode_value True (base64_alphabet ! v) = map (base64_decode_value True) base64_alphabet ! v" by simp
  also have "\<dots> = int v" using v by (simp add: decode_alphabet)
  finally show ?thesis using v by (simp add: base64_encode_value_def plain_char_def s8_id)
qed

lemma decode_pad: "plain_char True (base64_decode_value True CHR ''='') < 0"
  by (simp add: base64_decode_value_def base64_decoding_def plain_char_def s8_def)

lemma next_fragment_value [simp]: "v < 64 \<Longrightarrow> next_fragment True (base64_encode_value v # cs) = Some (v, cs)"
  by (simp add: decode_encode_value)

lemma next_fragment_pad [simp]: "next_fragment True (CHR ''='' # cs) = next_fragment True cs"
  using decode_pad by simp

declare next_fragment.simps(2) [simp del]

lemma decode_loop_Nil [simp]: "decode_loop sc st [] out p = Some (st, out, p)"
  by (simp add: decode_loop.simps)

lemma decode_loop_pad [simp]: "decode_loop True st (CHR ''='' # cs) out p = decode_loop True st cs out p"
  by (simp add: decode_loop.simps [of True st "CHR ''='' # cs"] decode_loop.simps [of True st cs])

text \<open>What each step does at the place the output has reached.\<close>

lemma decode_steps:
  assumes "length pre = p" and "v < 64"
  shows "decode_loop True step_a (base64_encode_value v # cs) (pre @ c # r) p = decode_loop True step_b cs (pre @ (v * 4) # r) p"
    and "decode_loop True step_b (base64_encode_value v # cs) (pre @ x # c # r) p =
      decode_loop True step_c cs (pre @ (x + v div 16) # (v mod 16 * 16) # r) (p + 1)"
    and "decode_loop True step_c (base64_encode_value v # cs) (pre @ x # c # r) p =
      decode_loop True step_d cs (pre @ (x + v div 4) # (v mod 4 * 64) # r) (p + 1)"
    and "decode_loop True step_d (base64_encode_value v # cs) (pre @ x # r) p =
      decode_loop True step_a cs (pre @ (x + v) # r) (p + 1)"
proof -
  have m: "v mod 64 = v" "v div 16 mod 4 = v div 16" "v div 4 mod 16 = v div 4" using assms(2) by auto
  have rd: "rd (pre @ x # r) p = Some x" for x and r :: "nat list" using assms(1) by (simp add: rd_def nth_append)
  have w: "wr (pre @ x # c # r) p y = Some (pre @ y # c # r)" "wr (pre @ x # r) p y = Some (pre @ y # r)"
    "wr (pre @ y # c # r) (Suc p) z = Some (pre @ y # z # r)" for x y z c and r :: "nat list"
    using wr_append [of pre p] wr_append [of "pre @ [y]" "Suc p" "c # r"] assms(1) by simp_all
  show "decode_loop True step_a (base64_encode_value v # cs) (pre @ c # r) p = decode_loop True step_b cs (pre @ (v * 4) # r) p"
    using assms(2) m w by (simp add: decode_loop.simps [of True step_a])
  show "decode_loop True step_b (base64_encode_value v # cs) (pre @ x # c # r) p =
      decode_loop True step_c cs (pre @ (x + v div 16) # (v mod 16 * 16) # r) (p + 1)"
    using assms(2) m w rd by (simp add: decode_loop.simps [of True step_b])
  show "decode_loop True step_c (base64_encode_value v # cs) (pre @ x # c # r) p =
      decode_loop True step_d cs (pre @ (x + v div 4) # (v mod 4 * 64) # r) (p + 1)"
    using assms(2) m w rd by (simp add: decode_loop.simps [of True step_c])
  show "decode_loop True step_d (base64_encode_value v # cs) (pre @ x # r) p =
      decode_loop True step_a cs (pre @ (x + v) # r) (p + 1)"
    using assms(2) m w rd by (simp add: decode_loop.simps [of True step_d])
qed

text \<open>The fields of three bytes put together again.\<close>

lemma field_arith:
  fixes x y z :: nat
  assumes "x < 256" and "y < 256" and "z < 256"
  shows "x div 4 < 64" "x mod 4 * 16 + y div 16 < 64" "y mod 16 * 4 + z div 64 < 64" "z mod 64 < 64"
    "x mod 4 * 16 < 64" "y mod 16 * 4 < 64"
    "x div 4 * 4 + (x mod 4 * 16 + y div 16) div 16 = x" "x div 4 * 4 + (x mod 4 * 16) div 16 = x"
    "(x mod 4 * 16 + y div 16) mod 16 * 16 + (y mod 16 * 4 + z div 64) div 4 = y"
    "(x mod 4 * 16 + y div 16) mod 16 * 16 + (y mod 16 * 4) div 4 = y"
    "(y mod 16 * 4 + z div 64) mod 4 * 64 + z mod 64 = z"
proof -
  have b: "y div 16 < 16" "z div 64 < 4" "x mod 4 < 4" "y mod 16 < 16" "z mod 64 < 64" using assms by auto
  show "x div 4 < 64" "x mod 4 * 16 + y div 16 < 64" "y mod 16 * 4 + z div 64 < 64" "z mod 64 < 64"
    "x mod 4 * 16 < 64" "y mod 16 * 4 < 64"
    using b assms(1) by auto
  have "(x mod 4 * 16 + y div 16) div 16 = x mod 4" "(x mod 4 * 16 + y div 16) mod 16 = y div 16"
    "(y mod 16 * 4 + z div 64) div 4 = y mod 16" "(y mod 16 * 4 + z div 64) mod 4 = z div 64"
    using b by auto
  then show "x div 4 * 4 + (x mod 4 * 16 + y div 16) div 16 = x" "x div 4 * 4 + (x mod 4 * 16) div 16 = x"
    "(x mod 4 * 16 + y div 16) mod 16 * 16 + (y mod 16 * 4 + z div 64) div 4 = y"
    "(x mod 4 * 16 + y div 16) mod 16 * 16 + (y mod 16 * 4) div 4 = y"
    "(y mod 16 * 4 + z div 64) mod 4 * 64 + z mod 64 = z"
    by simp_all
qed

lemma list3: "3 \<le> length xs \<Longrightarrow> \<exists>a b c r. xs = a # b # c # r"
  by (auto simp: numeral_3_eq_3 Suc_le_length_iff)

text \<open>Two, three and four fragments from the start of a group.\<close>

lemma decode_2:
  assumes "length pre = p" and "u < 64" and "v < 64"
  shows "decode_loop True step_a (base64_encode_value u # base64_encode_value v # cs) (pre @ a # b # r) p =
    decode_loop True step_c cs ((pre @ [u * 4 + v div 16]) @ (v mod 16 * 16) # r) (p + 1)"
  by (simp only: decode_steps(1,2) [OF assms(1)] assms(2,3) append_assoc append_Cons append_Nil)

lemma decode_3:
  assumes "length pre = p" and "u < 64" and "v < 64" and "w < 64"
  shows "decode_loop True step_a (base64_encode_value u # base64_encode_value v # base64_encode_value w # cs)
      (pre @ a # b # c # r) p =
    decode_loop True step_d cs ((pre @ [u * 4 + v div 16, v mod 16 * 16 + w div 4]) @ (w mod 4 * 64) # r) (p + 2)"
  using decode_steps(3) [of "pre @ [u * 4 + v div 16]" "p + 1" w cs "v mod 16 * 16" c r] assms
  by (simp only: decode_2 [OF assms(1-3)] append_assoc append_Cons append_Nil length_append list.size) simp

lemma decode_4:
  assumes "length pre = p" and "u < 64" and "v < 64" and "w < 64" and "x < 64"
  shows "decode_loop True step_a (base64_encode_value u # base64_encode_value v # base64_encode_value w #
      base64_encode_value x # cs) (pre @ a # b # c # r) p =
    decode_loop True step_a cs ((pre @ [u * 4 + v div 16, v mod 16 * 16 + w div 4, w mod 4 * 64 + x]) @ r) (p + 3)"
  using decode_steps(4) [of "pre @ [u * 4 + v div 16, v mod 16 * 16 + w div 4]" "p + 2" x cs "w mod 4 * 64" r] assms
  by (simp only: decode_3 [OF assms(1-4)] append_assoc append_Cons append_Nil length_append list.size)
    (simp add: numeral_3_eq_3)

lemma decode_loop_b64:
  assumes "\<forall>x\<in>set xs. x < 256" and "length pre = p" and "length xs + 2 < length rest"
  shows "\<exists>st rest1. decode_loop True step_a (b64 xs) (pre @ rest) p = Some (st, pre @ xs @ rest1, p + length xs) \<and>
    length rest1 + length xs = length rest"
  using assms
proof (induction xs arbitrary: pre p rest rule: b64.induct)
  case 1
  then show ?case by simp
next
  case (2 x)
  obtain a b c r where r: "rest = a # b # c # r" using list3 [of rest] "2.prems"(3) by auto
  have x: "x < 256" using "2.prems"(1) by simp
  note f = field_arith [OF x x x]
  show ?case
    unfolding r b64.simps decode_2 [OF "2.prems"(2) f(1,5)] f(8) by simp
next
  case (3 x y)
  obtain a b c r where r: "rest = a # b # c # r" using list3 [of rest] "3.prems"(3) by auto
  have xy: "x < 256" "y < 256" using "3.prems"(1) by auto
  note f = field_arith [OF xy xy(2)]
  show ?case
    unfolding r b64.simps decode_3 [OF "3.prems"(2) f(1,2,6)] f(7,10) by simp
next
  case (4 x y z xs)
  obtain a b c r where r: "rest = a # b # c # r" using list3 [of rest] "4.prems"(3) by auto
  have xyz: "x < 256" "y < 256" "z < 256" using "4.prems"(1) by auto
  note f = field_arith [OF xyz]
  have "decode_loop True step_a (b64 (x # y # z # xs)) (pre @ rest) p =
      decode_loop True step_a (b64 xs) ((pre @ [x, y, z]) @ r) (p + 3)"
    unfolding r b64.simps append_Cons append_Nil decode_4 [OF "4.prems"(2) f(1-4)] f(7,9,11) by simp
  with "4.IH" [of "pre @ [x, y, z]" "p + 3" r] "4.prems" show ?case by (auto simp: r)
qed

lemma length_b64: "length (b64 xs) = 4 * ((length xs + 2) div 3)"
proof (induction xs rule: b64.induct)
  case (4 x y z xs)
  have "(length (x # y # z # xs) + 2) div 3 = (length xs + 2) div 3 + 1" by simp
  with 4 show ?case by simp
qed simp_all



section \<open>Sizes and signedness\<close>

text \<open>C30: The size \<open>base64_encode\<close> asks for is too small: for one byte of input and an output block of
  \<open>MIN_ENCODE_LEN\<close> plus one bytes, which is what the overload returning a \<open>String\<close> provides, the last padding
  character is stored behind the block.\<close>

theorem base64_encode_overruns:
  assumes "x < 256" and "length out = MIN_ENCODE_LEN 1 + 1"
  shows "base64_encode [x] (MIN_ENCODE_LEN 1) out = None"
proof -
  obtain a b c where "out = [a, b, c]"
    using assms(2) by (auto simp: MIN_ENCODE_LEN_def length_Suc_conv numeral_3_eq_3)
  then show ?thesis
    by (simp add: base64_encode_def MIN_ENCODE_LEN_def base64_encode_block_def base64_encode_blockend_def
        base64_init_encodestate_def wr_def)
qed

theorem base64_encode_overruns_witness: "base64_encode [77] (MIN_ENCODE_LEN 1) [NUL, NUL, NUL] = None"
  by (rule base64_encode_overruns) (simp_all add: MIN_ENCODE_LEN_def)


end
