(* ===== verification/Escape.thy ===== *)
theory Escape
  imports WString
begin

text \<open>
  URI and HTML escapes: \<open>Services/WebHelpers/escape.cpp\<close>. The destination is a block and an index;
  the source is its characters. A null result is \<open>None\<close> inside the option; the outer option is empty
  when the function stores outside of its destination, reads outside of its source or fails an
  assertion. \<open>fresh_block\<close> is what \<open>malloc\<close> returns, if it succeeds.
\<close>

section \<open>Characters\<close>

definition must_escape :: "char \<Rightarrow> bool" where
  "must_escape c \<longleftrightarrow> c \<in> set ([CHR 0x0D, CHR 0x0A] @ ''+~!#$%^&(){}[]=:,;?'' @ [CHR 0x27, CHR 0x22, CHR 0x5C])"

definition c_isxdigit :: "char \<Rightarrow> bool" where
  "c_isxdigit c \<longleftrightarrow> unhex c \<noteq> -1"

definition ishex :: "char \<Rightarrow> char \<Rightarrow> bool" where
  "ishex a b \<longleftrightarrow> c_isxdigit a \<and> c_isxdigit b"

definition unhex2 :: "char \<Rightarrow> char \<Rightarrow> nat" where
  "unhex2 a b = nat ((unhex a * 16 + unhex b) mod 256)"

section \<open>URI escapes\<close>

fun uri_escape_len :: "char list \<Rightarrow> nat" where
  "uri_escape_len [] = 0"
| "uri_escape_len (c # cs) = (if must_escape c then 3 else 1) + uri_escape_len cs"

text \<open>
  The loop of \<open>uri_escape\<close>: the block, the index, the room left and the source not consumed. The early
  \<open>return 0\<close> leaves source over as well, and then the code returns 0 in the same way.
\<close>

fun escape_loop :: "char list \<Rightarrow> nat \<Rightarrow> nat \<Rightarrow> char list \<Rightarrow> (char list \<times> nat \<times> nat \<times> char list) option" where
  "escape_loop dest p dest_len [] = Some (dest, p, dest_len, [])"
| "escape_loop dest p dest_len (c # cs) =
     (if dest_len \<le> 1 then Some (dest, p, dest_len, c # cs)
      else if must_escape c
      then if dest_len \<le> 3 then Some (dest, p, dest_len, c # cs)
           else do {
             d1 \<leftarrow> wr dest p CHR ''%'';
             d2 \<leftarrow> wr d1 (p + 1) (hexchar (of_char c div 16));
             d3 \<leftarrow> wr d2 (p + 2) (hexchar (of_char c mod 16));
             escape_loop d3 (p + 3) (dest_len - 3) cs }
      else do {
        d1 \<leftarrow> wr dest p (if c = CHR '' '' then CHR ''+'' else c);
        escape_loop d1 (p + 1) (dest_len - 1) cs })"

text \<open>The end of both functions: the block and whether a non-null pointer is returned.\<close>

definition uri_finish :: "char list \<times> nat \<times> nat \<times> char list \<Rightarrow> (char list \<times> bool) option" where
  "uri_finish r = (case r of (dest, p, dest_len, rest) \<Rightarrow>
     if rest \<noteq> [] then Some (dest, False)
     else if dest_len < 1 then None
     else do { d \<leftarrow> wr dest p NUL; Some (d, True) })"

definition source_text :: "char list \<Rightarrow> int \<Rightarrow> char list option" where
  "source_text src src_len =
     (if src_len < 0 then do { n \<leftarrow> c_strlen src 0; rdn src 0 n } else rdn src 0 (nat src_len))"

definition uri_escape_into :: "char list \<Rightarrow> nat \<Rightarrow> char list \<Rightarrow> (char list \<times> bool) option" where
  "uri_escape_into d dest_len s = do { r \<leftarrow> escape_loop d 0 dest_len s; uri_finish r }"

definition uri_escape ::
  "char list option \<Rightarrow> char list option \<Rightarrow> nat \<Rightarrow> char list \<Rightarrow> int \<Rightarrow> char list option option" where
  "uri_escape fresh_block dest dest_len src src_len = do {
     s \<leftarrow> source_text src src_len;
     case dest of
       Some d \<Rightarrow> do { (d1, ok) \<leftarrow> uri_escape_into d dest_len s; Some (if ok then Some d1 else None) }
     | None \<Rightarrow> (case fresh_block of
         None \<Rightarrow> Some None
       | Some d \<Rightarrow> do { (d1, ok) \<leftarrow> uri_escape_into d (uri_escape_len s + 1) s; Some (if ok then Some d1 else None) }) }"

text \<open>
  The overload that returns a \<open>String\<close>. It measures \<open>src_len\<close> characters as an unsigned number, and
  ignores whether the escaping succeeds.
\<close>

definition uri_escape_String :: "alloc_env \<Rightarrow> char list option \<Rightarrow> int \<Rightarrow> wstring option" where
  "uri_escape_String e src src_len = (case src of
     None \<Rightarrow> Some String_null
   | Some b \<Rightarrow>
      (if src_len = 0 then Some String_null
       else do {
         t \<leftarrow> rdn b 0 (to_u32 src_len);
         (s, ok) \<leftarrow> String_setLength e String_null (uri_escape_len t);
         if \<not> ok then Some s
         else do {
           t1 \<leftarrow> source_text b src_len;
           (d, _) \<leftarrow> uri_escape_into (block_of (str_buffer s)) (str_len s + 1) t1;
           Some (s\<lparr>str_buffer := Some d\<rparr>) } }))"

text \<open>The loop of \<open>uri_unescape\<close>, with source and destination apart.\<close>

function unescape_loop :: "char list \<Rightarrow> nat \<Rightarrow> nat \<Rightarrow> char list \<Rightarrow> (char list \<times> nat \<times> nat \<times> char list) option" where
  "unescape_loop dest p dest_len src = (case src of
     [] \<Rightarrow> Some (dest, p, dest_len, [])
   | c # cs \<Rightarrow>
      (if dest_len \<le> 1 then Some (dest, p, dest_len, src)
       else if c = CHR ''%'' \<and> 3 \<le> length src \<and> ishex (src ! 1) (src ! 2)
       then do { d \<leftarrow> wr dest p (char_of (unhex2 (src ! 1) (src ! 2)));
                 unescape_loop d (p + 1) (dest_len - 1) (drop 3 src) }
       else do { d \<leftarrow> wr dest p (if c = CHR ''+'' then CHR '' '' else c);
                 unescape_loop d (p + 1) (dest_len - 1) cs }))"
  by pat_completeness auto
termination
  by (relation "measure (\<lambda>(dest, p, dest_len, src). length src)") auto

declare unescape_loop.simps [simp del]

definition uri_unescape_into :: "char list \<Rightarrow> nat \<Rightarrow> char list \<Rightarrow> (char list \<times> bool) option" where
  "uri_unescape_into d dest_len s = do { r \<leftarrow> unescape_loop d 0 dest_len s; uri_finish r }"

definition uri_unescape ::
  "char list option \<Rightarrow> char list option \<Rightarrow> nat \<Rightarrow> char list \<Rightarrow> int \<Rightarrow> char list option option" where
  "uri_unescape fresh_block dest dest_len src src_len = do {
     s \<leftarrow> source_text src src_len;
     case dest of
       Some d \<Rightarrow> do { (d1, ok) \<leftarrow> uri_unescape_into d dest_len s; Some (if ok then Some d1 else None) }
     | None \<Rightarrow> (case fresh_block of
         None \<Rightarrow> Some None
       | Some d \<Rightarrow> do { (d1, ok) \<leftarrow> uri_unescape_into d (length s + 1) s; Some (if ok then Some d1 else None) }) }"

text \<open>
  The same loop when both pointers are in one block, as \<open>uri_unescape_inplace\<close> calls it: \<open>i\<close> is the
  index of \<open>src\<close>, \<open>n\<close> is \<open>src_len\<close> and \<open>p\<close> the index of \<open>dest\<close>.
\<close>

function unescape_inplace_loop :: "char list \<Rightarrow> nat \<Rightarrow> nat \<Rightarrow> nat \<Rightarrow> nat \<Rightarrow> (char list \<times> nat \<times> nat) option" where
  "unescape_inplace_loop b p dest_len i n =
     (if 1 < dest_len \<and> 0 < n
      then do {
        c \<leftarrow> rd b i;
        esc \<leftarrow> (if c = CHR ''%'' \<and> 3 \<le> n
               then do { x \<leftarrow> rd b (i + 1); y \<leftarrow> rd b (i + 2);
                         Some (if ishex x y then Some (char_of (unhex2 x y)) else None) }
               else Some None);
        case esc of
          Some v \<Rightarrow> do { b1 \<leftarrow> wr b p v; unescape_inplace_loop b1 (p + 1) (dest_len - 1) (i + 3) (n - 3) }
        | None \<Rightarrow> do { b1 \<leftarrow> wr b p (if c = CHR ''+'' then CHR '' '' else c);
                       unescape_inplace_loop b1 (p + 1) (dest_len - 1) (i + 1) (n - 1) } }
      else Some (b, p, n))"
  by pat_completeness auto
termination
  by (relation "measure (\<lambda>(b, p, dest_len, i, n). n)") auto

declare unescape_inplace_loop.simps [simp del]

definition unescape_inplace :: "char list \<Rightarrow> nat \<Rightarrow> char list option" where
  "unescape_inplace b len = do {
     (b1, p, n) \<leftarrow> unescape_inplace_loop b 0 (len + 1) 0 len;
     if n \<noteq> 0 then Some b1 else wr b1 p NUL }"

definition uri_unescape_inplace :: "char list option \<Rightarrow> char list option option" where
  "uri_unescape_inplace str = (case str of
     None \<Rightarrow> Some None
   | Some b \<Rightarrow> do { len \<leftarrow> c_strlen b 0; map_option Some (unescape_inplace b len) })"

definition uri_unescape_inplace_String :: "alloc_env \<Rightarrow> wstring \<Rightarrow> wstring option" where
  "uri_unescape_inplace_String e str = (case str_buffer str of
     None \<Rightarrow> Some str
   | Some b \<Rightarrow> do {
       b1 \<leftarrow> unescape_inplace b (str_len str);
       len \<leftarrow> c_strlen b1 0;
       if str_len str < len then None
       else map_option fst (String_setLength e (str\<lparr>str_buffer := Some b1\<rparr>) len) })"

section \<open>HTML escapes\<close>

definition html_entity :: "char \<Rightarrow> char list option" where
  "html_entity c = (if c = CHR ''<'' then Some ''&lt;'' else if c = CHR ''>'' then Some ''&gt;''
     else if c = CHR ''&'' then Some ''&amp;'' else if c = CHR 0x22 then Some ''&quot;''
     else if c = CHR 0x27 then Some ''&apos;'' else None)"

text \<open>\<open>len\<close> characters at most, up to the terminator.\<close>

fun html_escape_len :: "char list \<Rightarrow> nat \<Rightarrow> nat" where
  "html_escape_len [] len = 0"
| "html_escape_len (c # cs) len =
     (if len = 0 \<or> c = NUL then 0
      else (case html_entity c of None \<Rightarrow> 1 | Some t \<Rightarrow> length t) + html_escape_len cs (len - 1))"

definition safe_append :: "char list \<Rightarrow> nat \<Rightarrow> nat \<Rightarrow> char list \<Rightarrow> (char list \<times> nat) option" where
  "safe_append dest p len str =
     (if len < length str then Some (dest, 0)
      else do { d \<leftarrow> wrn dest p (str @ [NUL]); Some (d, length str) })"

fun html_escape_loop :: "char list \<Rightarrow> nat \<Rightarrow> char list \<Rightarrow> nat \<Rightarrow> (char list \<times> nat) option" where
  "html_escape_loop dest len [] i = Some (dest, i)"
| "html_escape_loop dest len (c # cs) i =
     (if len \<le> i \<or> c = NUL then Some (dest, i)
      else case html_entity c of
        Some t \<Rightarrow> do { (d, n) \<leftarrow> safe_append dest i (len - i) t; html_escape_loop d len cs (i + n) }
      | None \<Rightarrow> do { d \<leftarrow> wr dest i c; html_escape_loop d len cs (i + 1) })"

definition html_escape :: "char list \<Rightarrow> nat \<Rightarrow> char list \<Rightarrow> char list option" where
  "html_escape dest len s = do { (d, i) \<leftarrow> html_escape_loop dest len s 0; wr d i NUL }"

end
