(* ===== verification/EscapeProps.thy ===== *)
theory EscapeProps
  imports Escape
begin

text \<open>
  Escaping and unescaping a URI are inverse, the length functions are exact, unescaping in place is
  the same as unescaping into another buffer, and HTML escaping writes the entities' text.
\<close>

section \<open>Texts\<close>

definition esc_char :: "char \<Rightarrow> char list" where
  "esc_char c = (if must_escape c then [CHR ''%'', hexchar (of_char c div 16), hexchar (of_char c mod 16)]
     else [if c = CHR '' '' then CHR ''+'' else c])"

definition esc_text :: "char list \<Rightarrow> char list" where
  "esc_text s = concat (map esc_char s)"

lemma esc_text_simps [simp]: "esc_text [] = []" "esc_text (c # cs) = esc_char c @ esc_text cs"
  by (simp_all add: esc_text_def)

lemma uri_escape_len_text: "uri_escape_len s = length (esc_text s)"
  by (induction s) (simp_all add: esc_char_def)

function unesc_text :: "char list \<Rightarrow> char list" where
  "unesc_text s = (case s of
     [] \<Rightarrow> []
   | c # cs \<Rightarrow> if c = CHR ''%'' \<and> 3 \<le> length s \<and> ishex (s ! 1) (s ! 2)
       then char_of (unhex2 (s ! 1) (s ! 2)) # unesc_text (drop 3 s)
       else (if c = CHR ''+'' then CHR '' '' else c) # unesc_text cs)"
  by pat_completeness auto
termination
  by (relation "measure length") auto

declare unesc_text.simps [simp del]

lemma unesc_text_Nil [simp]: "unesc_text [] = []"
  by (simp add: unesc_text.simps)

text \<open>One step of unescaping a text that is not empty: the character and the rest.\<close>

definition unesc_next :: "char list \<Rightarrow> char \<times> char list" where
  "unesc_next s = (if hd s = CHR ''%'' \<and> 3 \<le> length s \<and> ishex (s ! 1) (s ! 2)
     then (char_of (unhex2 (s ! 1) (s ! 2)), drop 3 s)
     else (if hd s = CHR ''+'' then CHR '' '' else hd s, tl s))"

lemma unesc_next_length: "s \<noteq> [] \<Longrightarrow> unesc_next s = (v, s1) \<Longrightarrow> length s1 < length s"
  by (cases s) (auto simp: unesc_next_def split: if_splits)

lemma unesc_text_step: "s \<noteq> [] \<Longrightarrow> unesc_next s = (v, s1) \<Longrightarrow> unesc_text s = v # unesc_text s1"
  by (subst unesc_text.simps, cases s) (auto simp: unesc_next_def split: if_splits)

lemma unescape_loop_step:
  "s \<noteq> [] \<Longrightarrow> unesc_next s = (v, s1) \<Longrightarrow> 1 < n \<Longrightarrow>
    unescape_loop dest p n s = do { d \<leftarrow> wr dest p v; unescape_loop d (p + 1) (n - 1) s1 }"
  by (subst unescape_loop.simps, cases s) (auto simp: unesc_next_def split: if_splits)

lemma length_unesc_text: "length (unesc_text s) \<le> length s"
proof (induction s rule: length_induct)
  case (1 s)
  show ?case
  proof (cases "s = []")
    case False
    obtain v s1 where n: "unesc_next s = (v, s1)" by force
    have "length s1 < length s" using unesc_next_length [OF False n] .
    with 1 have "length (unesc_text s1) \<le> length s1" by blast
    with \<open>length s1 < length s\<close> unesc_text_step [OF False n] show ?thesis by simp
  qed simp
qed

lemma unhex2_hexchar: "n < 256 \<Longrightarrow> unhex2 (hexchar (n div 16)) (hexchar (n mod 16)) = n"
proof -
  assume n: "n < 256"
  then have "n div 16 < 16" "n mod 16 < 16" by auto
  moreover have "int (n div 16) * 16 + int (n mod 16) = int n" by (metis div_mult_mod_eq of_nat_add of_nat_mult of_nat_numeral)
  ultimately show ?thesis using n by (simp add: unhex2_def del: of_nat_mod)
qed

lemma ishex_hexchar: "m < 16 \<Longrightarrow> n < 16 \<Longrightarrow> ishex (hexchar m) (hexchar n)"
  by (simp add: ishex_def c_isxdigit_def)

lemma unesc_esc_char: "unesc_text (esc_char c @ s) = c # unesc_text s"
proof (cases "must_escape c")
  case True
  have "(of_char c :: nat) div 16 < 16" using of_char_nat_less [of c] by (simp add: less_mult_imp_div_less)
  then show ?thesis
    using True by (simp add: esc_char_def unesc_text.simps [of "CHR ''%'' # _"] ishex_hexchar unhex2_hexchar)
next
  case False
  then have "c \<noteq> CHR ''%''" "c \<noteq> CHR ''+''" by (auto simp: must_escape_def)
  with False show ?thesis by (simp add: esc_char_def unesc_text.simps [of "_ # s"])
qed

lemma unesc_esc: "unesc_text (esc_text s) = s"
  by (induction s) (simp_all add: unesc_esc_char)

section \<open>The loops\<close>

lemma wr_at1: "length pre = p \<Longrightarrow> wr (pre @ a # x # r) (p + 1) c = Some (pre @ a # c # r)"
  using wr_at [of "pre @ [a]" "p + 1" x r c] by simp

lemma wr_at2: "length pre = p \<Longrightarrow> wr (pre @ a # b # x # r) (p + 2) c = Some (pre @ a # b # c # r)"
  using wr_at [of "pre @ [a, b]" "p + 2" x r c] by simp

lemma escape_loop_text:
  "length pre = p \<Longrightarrow> length (esc_text s) < n \<Longrightarrow> n \<le> length rest \<Longrightarrow>
    escape_loop (pre @ rest) p n s =
      Some (pre @ esc_text s @ drop (length (esc_text s)) rest, p + length (esc_text s), n - length (esc_text s), [])"
proof (induction s arbitrary: pre p n rest)
  case Nil
  then show ?case by simp
next
  case (Cons c cs)
  show ?case
  proof (cases "must_escape c")
    case True
    let ?h = "hexchar (of_char c div 16)" and ?l = "hexchar (of_char c mod 16)"
    have len: "length (esc_text (c # cs)) = 3 + length (esc_text cs)" using True by (simp add: esc_char_def)
    obtain x y z r where r: "rest = x # y # z # r"
      using Cons.prems len by (cases rest; cases "tl rest"; cases "tl (tl rest)") auto
    have n: "\<not> n \<le> 1" "\<not> n \<le> 3" using Cons.prems(2) len by auto
    have "escape_loop (pre @ rest) p n (c # cs) = escape_loop ((pre @ [CHR ''%'', ?h, ?l]) @ r) (p + 3) (n - 3) cs"
      using True n wr_at [OF Cons.prems(1)] wr_at1 [OF Cons.prems(1)] wr_at2 [OF Cons.prems(1)] by (simp add: r)
    with Cons.IH [of "pre @ [CHR ''%'', ?h, ?l]" "p + 3" "n - 3" r] Cons.prems len True show ?thesis
      by (simp add: r esc_char_def)
  next
    case False
    obtain x r where r: "rest = x # r" using Cons.prems by (cases rest) (auto simp: esc_char_def)
    have n: "\<not> n \<le> 1" using Cons.prems(2) False by (simp add: esc_char_def)
    let ?d = "if c = CHR '' '' then CHR ''+'' else c"
    have "escape_loop (pre @ rest) p n (c # cs) = escape_loop ((pre @ [?d]) @ r) (p + 1) (n - 1) cs"
      using False n wr_at [OF Cons.prems(1)] by (simp add: r)
    with Cons.IH [of "pre @ [?d]" "p + 1" "n - 1" r] Cons.prems False show ?thesis
      by (simp add: r esc_char_def)
  qed
qed

lemma unescape_loop_text:
  "length pre = p \<Longrightarrow> length (unesc_text s) < n \<Longrightarrow> n \<le> length rest \<Longrightarrow>
    unescape_loop (pre @ rest) p n s =
      Some (pre @ unesc_text s @ drop (length (unesc_text s)) rest, p + length (unesc_text s), n - length (unesc_text s), [])"
proof (induction s arbitrary: pre p n rest rule: length_induct)
  case (1 s)
  show ?case
  proof (cases "s = []")
    case True
    then show ?thesis by (simp add: unescape_loop.simps)
  next
    case False
    obtain v s1 where nx: "unesc_next s = (v, s1)" by force
    note u = unesc_text_step [OF False nx]
    obtain x r where r: "rest = x # r" using "1.prems" u by (cases rest) auto
    have n: "1 < n" using "1.prems"(2) u by simp
    have "unescape_loop ((pre @ [v]) @ r) (p + 1) (n - 1) s1 =
        Some ((pre @ [v]) @ unesc_text s1 @ drop (length (unesc_text s1)) r, p + 1 + length (unesc_text s1),
          n - 1 - length (unesc_text s1), [])"
      using "1.IH" [rule_format, OF unesc_next_length [OF False nx], of "pre @ [v]" "p + 1" "n - 1" r] "1.prems" u r by auto
    then show ?thesis
      using unescape_loop_step [OF False nx n] wr_at [OF "1.prems"(1)] by (simp add: u r)
  qed
qed

text \<open>
  In place: the text read so far has been replaced by \<open>pre\<close>, \<open>junk\<close> is what lies between the two
  pointers and \<open>s\<close> is the text still to read.
\<close>

lemma unescape_inplace_step:
  assumes "s \<noteq> []" and "unesc_next s = (v, s1)" and "1 < m" and "p \<le> i" and "drop i b = s @ r"
  shows "unescape_inplace_loop b p m i (length s) = do {
      b1 \<leftarrow> wr b p v; unescape_inplace_loop b1 (p + 1) (m - 1) (i + (length s - length s1)) (length s1) }"
proof -
  obtain c cs where s: "s = c # cs" using assms(1) by (cases s) auto
  have il: "i < length b" using assms(1,5) by (cases "i < length b") auto
  have rd: "rd b (i + k) = Some (s ! k)" if "k < length s" for k
  proof -
    have "rd b (i + k) = rd (drop i b) k" using il by (auto simp: rd_def)
    with that show ?thesis by (simp add: assms(5) rd_def nth_append)
  qed
  have r0: "rd b i = Some c" using rd [of 0] s by simp
  show ?thesis
  proof (cases "c = CHR ''%'' \<and> 3 \<le> length s")
    case True
    then have "rd b (i + 1) = Some (s ! 1)" "rd b (i + 2) = Some (s ! 2)" using rd [of 1] rd [of 2] by auto
    with True r0 assms(1-3) s show ?thesis
      by (subst unescape_inplace_loop.simps) (auto simp: unesc_next_def split: if_splits)
  next
    case False
    with r0 assms(1-3) s show ?thesis
      by (subst unescape_inplace_loop.simps) (auto simp: unesc_next_def split: if_splits)
  qed
qed

lemma unescape_inplace_text:
  "length pre = p \<Longrightarrow> length s < m \<Longrightarrow>
    \<exists>tail. unescape_inplace_loop (pre @ junk @ s @ x # r) p m (p + length junk) (length s) =
      Some (pre @ unesc_text s @ tail, p + length (unesc_text s), 0) \<and>
      length (unesc_text s) + length tail = length (junk @ s @ x # r)"
proof (induction s arbitrary: pre p m junk rule: length_induct)
  case (1 s)
  show ?case
  proof (cases "s = []")
    case True
    then show ?thesis by (simp add: unescape_inplace_loop.simps)
  next
    case False
    obtain v s1 where nx: "unesc_next s = (v, s1)" by force
    have l1: "length s1 < length s" by (rule unesc_next_length [OF False nx])
    define k where "k = length s - length s1"
    have s1: "s1 = drop k s" using nx l1 by (auto simp: unesc_next_def k_def drop_Suc split: if_splits)
    define t where "t = take k s"
    have "k \<le> length s" by (simp add: k_def)
    then have ts: "s = t @ s1" "length t = k" by (simp add: t_def s1, simp add: t_def)
    have "0 < k" using l1 by (simp add: k_def)
    then obtain y jk where jk: "junk @ t = y # jk" using ts by (cases "junk @ t") auto
    have d: "drop (p + length junk) (pre @ junk @ s @ x # r) = s @ x # r" using "1.prems"(1) by simp
    have st: "unescape_inplace_loop (pre @ junk @ s @ x # r) p m (p + length junk) (length s) = do {
        b1 \<leftarrow> wr (pre @ junk @ s @ x # r) p v; unescape_inplace_loop b1 (p + 1) (m - 1) (p + length junk + k) (length s1) }"
      unfolding k_def by (rule unescape_inplace_step [OF False nx _ le_add1 d]) (use "1.prems"(2) False in \<open>cases s; simp\<close>)
    have "junk @ s @ x # r = (junk @ t) @ s1 @ x # r" using ts(1) by simp
    then have "pre @ junk @ s @ x # r = pre @ y # jk @ s1 @ x # r" by (simp only: jk append_Cons)
    then have w: "wr (pre @ junk @ s @ x # r) p v = Some ((pre @ [v]) @ jk @ s1 @ x # r)"
      using wr_at [OF "1.prems"(1), of y "jk @ s1 @ x # r" v] by (simp only: append_assoc append_Cons append_Nil)
    have jl: "length jk + 1 = length junk + k" using arg_cong [OF jk, of length] ts(2) by simp
    then have pos: "p + length junk + k = p + 1 + length jk" by simp
    have m1: "length s1 < m - 1" using l1 "1.prems"(2) by linarith
    obtain tail where "unescape_inplace_loop ((pre @ [v]) @ jk @ s1 @ x # r) (p + 1) (m - 1) (p + 1 + length jk) (length s1) =
        Some ((pre @ [v]) @ unesc_text s1 @ tail, p + 1 + length (unesc_text s1), 0)"
      "length (unesc_text s1) + length tail = length (jk @ s1 @ x # r)"
      using "1.IH" [rule_format, OF l1, of "pre @ [v]" "p + 1" "m - 1" jk] "1.prems" m1 by auto
    then show ?thesis
      unfolding st w pos unesc_text_step [OF False nx] using jl ts by (intro exI [of _ tail]) auto
  qed
qed

text \<open>The HTML loop: \<open>pre\<close> is what has been stored so far.\<close>

definition html_text :: "char list \<Rightarrow> char list" where
  "html_text s = concat (map (\<lambda>c. case html_entity c of None \<Rightarrow> [c] | Some t \<Rightarrow> t) s)"

lemma html_text_simps [simp]:
  "html_text [] = []"
  "html_text (c # cs) = (case html_entity c of None \<Rightarrow> [c] | Some t \<Rightarrow> t) @ html_text cs"
  by (simp_all add: html_text_def)

lemma html_entity_length: "html_entity c = Some t \<Longrightarrow> 0 < length t"
  by (auto simp: html_entity_def split: if_splits)

lemma html_escape_len_text: "NUL \<notin> set s \<Longrightarrow> html_escape_len s (length s) = length (html_text s)"
  by (induction s) (auto split: option.splits)

lemma html_escape_loop_text:
  "length pre = i \<Longrightarrow> i + length (html_text s) \<le> len \<Longrightarrow> len < i + length rest \<Longrightarrow> NUL \<notin> set s \<Longrightarrow>
    \<exists>rest1. html_escape_loop (pre @ rest) len s i = Some (pre @ html_text s @ rest1, i + length (html_text s)) \<and>
      length rest1 + length (html_text s) = length rest"
proof (induction s arbitrary: pre i rest)
  case Nil
  then show ?case by simp
next
  case (Cons c cs)
  show ?case
  proof (cases "html_entity c")
    case None
    obtain x r where r: "rest = x # r" using Cons.prems(2,3) by (cases rest) auto
    have "html_escape_loop (pre @ rest) len (c # cs) i = html_escape_loop ((pre @ [c]) @ r) len cs (i + 1)"
      using None Cons.prems wr_at [OF Cons.prems(1), of x r c] by (auto simp: r)
    with Cons.IH [of "pre @ [c]" "i + 1" r] Cons.prems None show ?thesis by (auto simp: r)
  next
    case (Some t)
    have tl: "0 < length t" by (rule html_entity_length [OF Some])
    define r where "r = NUL # drop (length t + 1) rest"
    have le: "length (t @ [NUL]) \<le> length rest" using Cons.prems Some by simp
    have "\<not> len - i < length t" using Cons.prems(2) Some by simp
    then have "safe_append (pre @ rest) i (len - i) t = Some ((pre @ t) @ r, length t)"
      using Cons.prems Some wrn_at [OF Cons.prems(1) le] by (simp add: safe_append_def r_def)
    moreover have "i < len" using Cons.prems(2) Some tl by (cases t) auto
    moreover have "c \<noteq> NUL" using Cons.prems(4) by auto
    ultimately have "html_escape_loop (pre @ rest) len (c # cs) i = html_escape_loop ((pre @ t) @ r) len cs (i + length t)"
      using Some by simp
    moreover have "length r + length t = length rest" using le by (simp add: r_def)
    ultimately show ?thesis
      using Cons.IH [of "pre @ t" "i + length t" r] Cons.prems Some by auto
  qed
qed

section \<open>Properties\<close>

text \<open>C32: Escaping a text into a buffer with room for \<open>uri_escape_len\<close> characters and a terminator succeeds, and
  unescaping what was stored, into a buffer with room for it, gives the text back.\<close>

theorem uri_escape_roundtrip:
  assumes "uri_escape_len s < n" and "n \<le> length dest" and "length s < m" and "m \<le> length buf"
  shows "\<exists>d b. uri_escape None (Some dest) n s (int (length s)) = Some (Some (d @ [NUL] @ drop (length d + 1) dest)) \<and>
    length d = uri_escape_len s \<and>
    uri_unescape None (Some buf) m d (int (length d)) = Some (Some b) \<and> take (length s + 1) b = s @ [NUL]"
proof -
  have "escape_loop dest 0 n s = Some (esc_text s @ drop (length (esc_text s)) dest, length (esc_text s),
      n - length (esc_text s), [])"
    using escape_loop_text [of "[]" 0 s n dest] assms(1,2) by (simp add: uri_escape_len_text)
  moreover obtain x r where "drop (length (esc_text s)) dest = x # r"
    using assms(1,2) by (cases "drop (length (esc_text s)) dest") (auto simp: uri_escape_len_text)
  moreover from this have "r = drop (length (esc_text s) + 1) dest" by (metis drop_Suc Suc_eq_plus1 tl_drop list.sel(3))
  ultimately have e: "uri_escape None (Some dest) n s (int (length s)) =
      Some (Some (esc_text s @ [NUL] @ drop (length (esc_text s) + 1) dest))"
    using assms(1) wr_at [of "esc_text s" "length (esc_text s)" x r NUL]
    by (simp add: uri_escape_def uri_escape_into_def source_text_def rdn_def uri_finish_def uri_escape_len_text)
  have "unescape_loop buf 0 m (esc_text s) = Some (s @ drop (length s) buf, length s, m - length s, [])"
    using unescape_loop_text [of "[]" 0 "esc_text s" m buf] assms(3,4) by (simp add: unesc_esc)
  moreover obtain y t where "drop (length s) buf = y # t" using assms(3,4) by (cases "drop (length s) buf") auto
  ultimately have "uri_unescape None (Some buf) m (esc_text s) (int (length (esc_text s))) = Some (Some (s @ NUL # t))"
    using assms(3) wr_at [of s "length s" y t NUL] by (simp add: uri_unescape_def uri_unescape_into_def source_text_def rdn_def uri_finish_def)
  with e show ?thesis by (intro exI [of _ "esc_text s"] exI [of _ "s @ NUL # t"]) (simp add: uri_escape_len_text)
qed

theorem uri_escape_roundtrip_witness:
  "\<exists>d b. uri_escape None (Some (replicate 8 NUL)) 8 ''a b=c'' (int (length ''a b=c'')) =
      Some (Some (d @ [NUL] @ drop (length d + 1) (replicate 8 NUL))) \<and> length d = uri_escape_len ''a b=c'' \<and>
    uri_unescape None (Some (replicate 6 NUL)) 6 d (int (length d)) = Some (Some b) \<and>
    take (length ''a b=c'' + 1) b = ''a b=c'' @ [NUL]"
  by (rule uri_escape_roundtrip) (simp_all add: must_escape_def)

text \<open>C33: Unescaping a string in place, where the stores go to the block the text is read from, stores what
  unescaping into a separate buffer does, and never needs more room than the text had.\<close>

theorem uri_unescape_inplace_separate:
  assumes "NUL \<notin> set s" and "length s < length buf"
  shows "\<exists>b1 b2 k. uri_unescape_inplace (Some (s @ NUL # r)) = Some (Some b1) \<and> length b1 = length (s @ NUL # r) \<and>
    uri_unescape None (Some buf) (length buf) s (int (length s)) = Some (Some b2) \<and>
    k \<le> length s \<and> b1 ! k = NUL \<and> take (k + 1) b1 = take (k + 1) b2"
proof -
  let ?u = "unesc_text s"
  have len: "c_strlen (s @ NUL # r) 0 = Some (length s)"
    using assms(1) by (simp add: c_strlen_def cstr_append_NUL Let_def)
  obtain tail where t: "unescape_inplace_loop (s @ NUL # r) 0 (length s + 1) 0 (length s) = Some (?u @ tail, length ?u, 0)"
      "length ?u + length tail = length (s @ NUL # r)"
    using unescape_inplace_text [of "[]" 0 s "length s + 1" "[]" NUL r] by auto
  have lu: "length ?u \<le> length s" by (rule length_unesc_text)
  obtain x t1 where tl: "tail = x # t1" using t(2) lu by (cases tail) auto
  have i: "uri_unescape_inplace (Some (s @ NUL # r)) = Some (Some (?u @ NUL # t1))"
    using t(1) tl wr_at [of ?u "length ?u" x t1 NUL] by (simp add: uri_unescape_inplace_def unescape_inplace_def len)
  have "unescape_loop buf 0 (length buf) s = Some (?u @ drop (length ?u) buf, length ?u, length buf - length ?u, [])"
    using unescape_loop_text [of "[]" 0 s "length buf" buf] assms(2) lu by simp
  moreover obtain y t2 where "drop (length ?u) buf = y # t2" using assms(2) lu by (cases "drop (length ?u) buf") auto
  ultimately have "uri_unescape None (Some buf) (length buf) s (int (length s)) = Some (Some (?u @ NUL # t2))"
    using assms(2) lu wr_at [of ?u "length ?u" y t2 NUL] by (simp add: uri_unescape_def uri_unescape_into_def source_text_def rdn_def uri_finish_def)
  with i show ?thesis
    using t(2) tl lu by (intro exI [of _ "?u @ NUL # t1"] exI [of _ "?u @ NUL # t2"] exI [of _ "length ?u"]) simp
qed

theorem uri_unescape_inplace_separate_witness:
  "\<exists>b1 b2 k. uri_unescape_inplace (Some (''%41+b'' @ NUL # [])) = Some (Some b1) \<and> length b1 = length (''%41+b'' @ NUL # []) \<and>
    uri_unescape None (Some (replicate 9 NUL)) (length (replicate 9 NUL)) ''%41+b'' (int (length ''%41+b'')) = Some (Some b2) \<and>
    k \<le> length ''%41+b'' \<and> b1 ! k = NUL \<and> take (k + 1) b1 = take (k + 1) b2"
  by (rule uri_unescape_inplace_separate) simp_all

text \<open>\<open>html_escape\<close> of a string whose escaped length, as \<open>html_escape_len\<close> gives it, is at most \<open>len\<close> stores the
  escaped text and a terminator, in a block of at least \<open>len\<close> plus one characters.\<close>

theorem html_escape_stores:
  assumes "NUL \<notin> set s" and "html_escape_len s (length s) \<le> len" and "len < length dest"
  shows "\<exists>rest. html_escape dest len s = Some (html_text s @ NUL # rest) \<and>
    length (html_text s) = html_escape_len s (length s) \<and> length (html_text s @ NUL # rest) = length dest"
proof -
  have h: "html_escape_len s (length s) = length (html_text s)" by (rule html_escape_len_text [OF assms(1)])
  obtain rest1 where l: "html_escape_loop dest len s 0 = Some (html_text s @ rest1, length (html_text s))"
      "length rest1 + length (html_text s) = length dest"
    using html_escape_loop_text [of "[]" 0 s len dest] assms h by auto
  obtain x r where "rest1 = x # r" using l(2) assms(2,3) h by (cases rest1) auto
  then show ?thesis using l h wr_at [of "html_text s" "length (html_text s)" x r NUL] by (auto simp: html_escape_def)
qed

theorem html_escape_stores_witness:
  "\<exists>rest. html_escape (replicate 12 NUL) 11 ''<b>'' = Some (html_text ''<b>'' @ NUL # rest) \<and>
    length (html_text ''<b>'') = html_escape_len ''<b>'' (length ''<b>'') \<and>
    length (html_text ''<b>'' @ NUL # rest) = length (replicate 12 NUL)"
  by (rule html_escape_stores) (simp_all add: html_entity_def)

end
