(* ===== verification/Sha1.thy ===== *)
theory Sha1
  imports Prelude
begin

text \<open>
  \<open>Services/WebHelpers/aw-sha1.cpp\<close>. \<open>unsigned\<close> has 32 bits; the message schedule is kept in a ring of 16 words.
  A shift of an \<open>unsigned char\<close> is taken at 32 bits.
\<close>

unbundle bit_operations_syntax

type_synonym sha1_vars = "32 word \<times> 32 word \<times> 32 word \<times> 32 word \<times> 32 word"

definition SHA1_SIZE :: nat where "SHA1_SIZE = 20"

definition rol :: "32 word \<Rightarrow> nat \<Rightarrow> 32 word" where
  "rol x s = (push_bit s x OR drop_bit (32 - s) x)"

text \<open>The macro \<open>mix(f,v)\<close>, where \<open>x\<close> is \<open>w[i & 0xf]\<close>.\<close>

definition sha1_mix :: "32 word \<Rightarrow> 32 word \<Rightarrow> 32 word \<Rightarrow> sha1_vars \<Rightarrow> sha1_vars" where
  "sha1_mix f v x r = (case r of (a, b, c, d, e) \<Rightarrow> (f + v + rol a 5 + e + x, a, rol b 30, c, d))"

text \<open>The body of the five loops: the function and the constant of the loop that covers \<open>i\<close>.\<close>

definition sha1_round :: "nat \<Rightarrow> 32 word \<Rightarrow> sha1_vars \<Rightarrow> sha1_vars" where
  "sha1_round i x r = (case r of (a, b, c, d, e) \<Rightarrow>
     if i < 20 then sha1_mix (d XOR (b AND (c XOR d))) 0x5a827999 x r
     else if i < 40 then sha1_mix (b XOR c XOR d) 0x6ed9eba1 x r
     else if i < 60 then sha1_mix ((b AND c) OR (d AND (b OR c))) 0x8f1bbcdc x r
     else sha1_mix (b XOR c XOR d) 0xca62c1d6 x r)"

definition sha1_schedule :: "nat \<Rightarrow> 32 word list \<Rightarrow> 32 word list" where
  "sha1_schedule i w =
     (if i < 16 then w
      else w[i mod 16 := rol (w ! ((i + 13) mod 16) XOR w ! ((i + 8) mod 16) XOR w ! ((i + 2) mod 16) XOR w ! (i mod 16)) 1])"

definition sha1_step :: "nat \<Rightarrow> sha1_vars \<times> 32 word list \<Rightarrow> sha1_vars \<times> 32 word list" where
  "sha1_step i s = (case s of (r, w) \<Rightarrow> (let w1 = sha1_schedule i w in (sha1_round i (w1 ! (i mod 16)) r, w1)))"

definition sha1mix :: "sha1_vars \<Rightarrow> 32 word list \<Rightarrow> sha1_vars \<times> 32 word list" where
  "sha1mix r w = (case (r, fold sha1_step [0..<80] (r, w)) of
     ((r0, r1, r2, r3, r4), ((a, b, c, d, e), w1)) \<Rightarrow> ((r0 + a, r1 + b, r2 + c, r3 + d, r4 + e), w1))"

text \<open>The word of four bytes of the message.\<close>

definition sha1_word :: "byte list \<Rightarrow> nat \<Rightarrow> 32 word" where
  "sha1_word p i =
     (ucast (p ! (i + 3)) OR push_bit 0x08 (ucast (p ! (i + 2))) OR
      push_bit 0x10 (ucast (p ! (i + 1))) OR push_bit 0x18 (ucast (p ! i)))"

text \<open>The loop over the full blocks: all sixteen words of \<open>w\<close> are stored before \<open>sha1mix\<close> runs.\<close>

function sha1_full_blocks :: "sha1_vars \<Rightarrow> byte list \<Rightarrow> nat \<Rightarrow> nat \<Rightarrow> sha1_vars" where
  "sha1_full_blocks r p n i =
     (if i < n - n mod 64
      then sha1_full_blocks (fst (sha1mix r (map (\<lambda>j. sha1_word p (i + 4 * j)) [0..<16]))) p n (i + 64)
      else r)"
  by pat_completeness auto
termination
  by (relation "measure (\<lambda>(r, p, n, i). n - i)") auto

declare sha1_full_blocks.simps [simp del]

definition sha1_or_byte :: "nat \<Rightarrow> 32 word \<Rightarrow> 32 word list \<Rightarrow> 32 word list" where
  "sha1_or_byte i x w = w[(i div 4) mod 16 := w ! ((i div 4) mod 16) OR push_bit (((3 XOR i) mod 4) * 8) x]"

definition sha1_output :: "sha1_vars \<Rightarrow> byte list" where
  "sha1_output r = (case r of (r0, r1, r2, r3, r4) \<Rightarrow>
     concat (map (\<lambda>x. [ucast (drop_bit 0x18 x), ucast (drop_bit 0x10 x), ucast (drop_bit 0x08 x), ucast x])
       [r0, r1, r2, r3, r4]))"

definition sha1 :: "byte list \<Rightarrow> byte list" where
  "sha1 p =
     (let n = length p;
          r0 = sha1_full_blocks (0x67452301, 0xefcdab89, 0x98badcfe, 0x10325476, 0xc3d2e1f0) p n 0;
          w0 = fold (\<lambda>i. sha1_or_byte i (ucast (p ! i))) [n - n mod 64..<n] (replicate 16 0);
          w1 = sha1_or_byte n 0x80 w0;
          (r1, w2) = (if 56 < n mod 64 then (fst (sha1mix r0 w1), replicate 16 0) else (r0, w1)) in
      sha1_output (fst (sha1mix r1 (w2[15 := of_nat (n * 8)]))))"

end
