(* ===== verification/Sha1Props.thy ===== *)
theory Sha1Props
  imports Sha1
begin

text \<open>
  The code against the standard (FIPS 180): the padded message, the schedule of eighty words and the round
  functions as the standard gives them.
\<close>

unbundle bit_operations_syntax

section \<open>The standard\<close>

definition be32 :: "byte \<Rightarrow> byte \<Rightarrow> byte \<Rightarrow> byte \<Rightarrow> 32 word" where
  "be32 a b c d = (push_bit 24 (ucast a) OR push_bit 16 (ucast b) OR push_bit 8 (ucast c) OR ucast d)"

definition be64 :: "nat \<Rightarrow> byte list" where
  "be64 n = map (\<lambda>s. of_nat (drop_bit s n)) [56, 48, 40, 32, 24, 16, 8, 0]"

definition fips_pad :: "byte list \<Rightarrow> byte list" where
  "fips_pad xs = xs @ [0x80] @ replicate ((119 - length xs mod 64) mod 64) 0 @ be64 (8 * length xs)"

fun fips_W :: "32 word list \<Rightarrow> nat \<Rightarrow> 32 word" where
  "fips_W m t =
     (if t < 16 then m ! t
      else word_rotl 1 (fips_W m (t - 3) XOR fips_W m (t - 8) XOR fips_W m (t - 14) XOR fips_W m (t - 16)))"

declare fips_W.simps [simp del]

definition fips_f :: "nat \<Rightarrow> 32 word \<Rightarrow> 32 word \<Rightarrow> 32 word \<Rightarrow> 32 word" where
  "fips_f t x y z =
     (if t < 20 then (x AND y) XOR (NOT x AND z)
      else if t < 40 then x XOR y XOR z
      else if t < 60 then (x AND y) XOR (x AND z) XOR (y AND z)
      else x XOR y XOR z)"

definition fips_K :: "nat \<Rightarrow> 32 word" where
  "fips_K t = (if t < 20 then 0x5a827999 else if t < 40 then 0x6ed9eba1 else if t < 60 then 0x8f1bbcdc else 0xca62c1d6)"

definition fips_round :: "32 word list \<Rightarrow> nat \<Rightarrow> sha1_vars \<Rightarrow> sha1_vars" where
  "fips_round m t r = (case r of (a, b, c, d, e) \<Rightarrow>
     (word_rotl 5 a + fips_f t b c d + e + fips_K t + fips_W m t, a, word_rotl 30 b, c, d))"

definition fips_compress :: "sha1_vars \<Rightarrow> 32 word list \<Rightarrow> sha1_vars" where
  "fips_compress h m = (case (h, fold (fips_round m) [0..<80] h) of
     ((h0, h1, h2, h3, h4), (a, b, c, d, e)) \<Rightarrow> (h0 + a, h1 + b, h2 + c, h3 + d, h4 + e))"

definition fips_block :: "byte list \<Rightarrow> nat \<Rightarrow> 32 word list" where
  "fips_block bs k = map (\<lambda>j. be32 (bs ! (64 * k + 4 * j)) (bs ! (64 * k + 4 * j + 1))
     (bs ! (64 * k + 4 * j + 2)) (bs ! (64 * k + 4 * j + 3))) [0..<16]"

definition fips_sha1 :: "byte list \<Rightarrow> byte list" where
  "fips_sha1 xs =
     sha1_output (fold (\<lambda>k h. fips_compress h (fips_block (fips_pad xs) k)) [0..<length (fips_pad xs) div 64]
       (0x67452301, 0xefcdab89, 0x98badcfe, 0x10325476, 0xc3d2e1f0))"

section \<open>Compression\<close>

lemma rol_rotl:
  assumes s: "s < 32"
  shows "rol x s = word_rotl s x"
proof (rule bit_word_eqI)
  fix n assume n: "n < LENGTH(32)"
  have m1: "(n + 32 - s) mod 32 = n - s" if "s \<le> n"
  proof -
    have "n + 32 - s = (n - s) + 32" using that by simp
    then show ?thesis using n by (simp del: Nat.add_diff_assoc2)
  qed
  have m2: "(n + 32 - s) mod 32 = n + 32 - s" if "\<not> s \<le> n" using that by simp
  show "bit (rol x s) n = bit (word_rotl s x) n"
  proof (cases "s \<le> n")
    case True
    then have "\<not> bit x (32 - s + n)" using s bit_imp_le_length [of x "32 - s + n"] by auto
    with True s n show ?thesis by (simp add: rol_def bit_simps bit_word_rotl_iff m1)
  next
    case False
    with s n show ?thesis by (simp add: rol_def bit_simps bit_word_rotl_iff m2 add.commute [of 32 n])
  qed
qed

lemma fips_W_low: "t < 16 \<Longrightarrow> fips_W m t = m ! t"
  by (simp add: fips_W.simps)

lemma sha1_round_fips:
  "sha1_round i (fips_W m i) r = fips_round m i r"
proof -
  obtain a b c d e where r: "r = (a, b, c, d, e)" by (cases r)
  have ch: "d XOR (b AND (c XOR d)) = (b AND c) XOR (NOT b AND d)"
    by (rule bit_word_eqI) (auto simp: bit_simps)
  have maj: "(b AND c) OR (d AND (b OR c)) = (b AND c) XOR (b AND d) XOR (c AND d)"
    by (rule bit_word_eqI) (auto simp: bit_simps)
  show ?thesis
    by (simp add: r sha1_round_def sha1_mix_def fips_round_def fips_f_def fips_K_def rol_rotl ch maj)
qed

text \<open>The ring before step \<open>i\<close> holds the last sixteen words of the schedule.\<close>

definition ring_holds :: "32 word list \<Rightarrow> nat \<Rightarrow> 32 word list \<Rightarrow> bool" where
  "ring_holds m i w = (length w = 16 \<and> (if i < 16 then w = m else \<forall>k<i. i \<le> k + 16 \<longrightarrow> w ! (k mod 16) = fips_W m k))"

lemma schedule_step:
  assumes "ring_holds m i w" and "length m = 16"
  shows "ring_holds m (Suc i) (sha1_schedule i w) \<and> sha1_schedule i w ! (i mod 16) = fips_W m i"
proof (cases "i < 16")
  case True
  with assms show ?thesis
    by (auto simp: ring_holds_def sha1_schedule_def fips_W_low)
next
  case False
  then have "i + 13 = (i - 3) + 16" "i + 8 = (i - 8) + 16" "i + 2 = (i - 14) + 16" "i = (i - 16) + 16" by simp_all
  then have idx: "(i + 13) mod 16 = (i - 3) mod 16" "(i + 8) mod 16 = (i - 8) mod 16"
      "(i + 2) mod 16 = (i - 14) mod 16" "i mod 16 = (i - 16) mod 16"
    by (metis mod_add_self2)+
  have "w ! ((i - 3) mod 16) = fips_W m (i - 3)" "w ! ((i - 8) mod 16) = fips_W m (i - 8)"
      "w ! ((i - 14) mod 16) = fips_W m (i - 14)" "w ! ((i - 16) mod 16) = fips_W m (i - 16)"
    using assms False by (auto simp: ring_holds_def)
  then have s: "sha1_schedule i w = w[i mod 16 := fips_W m i]"
    using False unfolding sha1_schedule_def idx by (simp add: rol_rotl fips_W.simps [of m i])
  have ne: "i mod 16 \<noteq> k mod 16" if "k < i" "Suc i \<le> k + 16" for k
    using that mod_eq_dvd_iff_nat [of k i 16] dvd_imp_le [of 16 "i - k"] by auto
  have "w[i mod 16 := fips_W m i] ! (k mod 16) = fips_W m k" if "k < Suc i" "Suc i \<le> k + 16" for k
    using that ne [of k] assms False by (cases "k = i") (auto simp: ring_holds_def)
  then show ?thesis using assms False by (auto simp: ring_holds_def s)
qed

lemma sha1_steps_fips:
  assumes "length m = 16"
  shows "\<exists>w. fold sha1_step [0..<n] (r, m) = (fold (fips_round m) [0..<n] r, w) \<and> ring_holds m n w"
proof (induction n)
  case 0
  then show ?case using assms by (simp add: ring_holds_def)
next
  case (Suc n)
  then obtain w where w: "fold sha1_step [0..<n] (r, m) = (fold (fips_round m) [0..<n] r, w)" "ring_holds m n w" by blast
  have "sha1_step n (fold (fips_round m) [0..<n] r, w) = (fips_round m n (fold (fips_round m) [0..<n] r), sha1_schedule n w)"
    using schedule_step [OF w(2) assms] by (simp add: sha1_step_def sha1_round_fips Let_def)
  then show ?case using schedule_step [OF w(2) assms] w(1) by simp
qed

lemma sha1mix_fips: "length m = 16 \<Longrightarrow> fst (sha1mix r m) = fips_compress r m"
  using sha1_steps_fips [of m 80 r] by (auto simp: sha1mix_def fips_compress_def split: prod.splits)

section \<open>Words of a block\<close>

definition words16 :: "byte list \<Rightarrow> 32 word list" where
  "words16 bs = map (\<lambda>j. be32 (bs ! (4 * j)) (bs ! (4 * j + 1)) (bs ! (4 * j + 2)) (bs ! (4 * j + 3))) [0..<16]"

lemma length_words16 [simp]: "length (words16 bs) = 16"
  by (simp add: words16_def)

lemma fips_block_drop: "64 * k + 64 \<le> length bs \<Longrightarrow> fips_block bs k = words16 (drop (64 * k) bs)"
  by (simp add: fips_block_def words16_def add.assoc)

lemma words16_take: "words16 (take 64 bs) = words16 bs" if "64 \<le> length bs"
  using that by (auto simp: words16_def)

lemma sha1_word_be32: "sha1_word p i = be32 (p ! i) (p ! (i + 1)) (p ! (i + 2)) (p ! (i + 3))"
  unfolding sha1_word_def be32_def by (simp add: ac_simps)

lemma xor3_mod4: "(3 XOR i) mod 4 = 3 - i mod (4::nat)"
proof -
  have t: "x mod 4 = take_bit 2 x" for x :: nat by (simp add: take_bit_eq_mod)
  have "i mod 4 < 4" by simp
  then have "i mod 4 = 0 \<or> i mod 4 = 1 \<or> i mod 4 = 2 \<or> i mod 4 = 3" by linarith
  moreover have "(3 XOR i) mod 4 = take_bit 2 (3 XOR (i mod 4))" by (simp add: t take_bit_xor)
  ultimately show ?thesis by auto
qed

lemma or_byte_words:
  assumes "i < 64" and "length bs = 64" and "bs ! i = 0"
  shows "sha1_or_byte i (ucast b) (words16 bs) = words16 (bs[i := b])"
proof (rule nth_equalityI)
  show "length (sha1_or_byte i (ucast b) (words16 bs)) = length (words16 (bs[i := b]))" by (simp add: sha1_or_byte_def)
  fix j assume "j < length (sha1_or_byte i (ucast b) (words16 bs))"
  then have j: "j < 16" by (simp add: sha1_or_byte_def)
  define q where "q = i div 4"
  have i: "i = 4 * q + i mod 4" by (simp add: q_def)
  have q: "q < 16" using assms(1) by (simp add: q_def)
  show "sha1_or_byte i (ucast b) (words16 bs) ! j = words16 (bs[i := b]) ! j"
  proof (cases "j = q")
    case True
    have dm: "Suc (q * 4) div 4 = q" "Suc (q * 4) mod 4 = 1" "Suc (Suc (q * 4)) div 4 = q" "Suc (Suc (q * 4)) mod 4 = 2"
      by presburger+
    have "i mod 4 < 4" by simp
    then consider "i = 4 * q" | "i = 4 * q + 1" | "i = 4 * q + 2" | "i = 4 * q + 3" using i by linarith
    then show ?thesis
      using True q assms
      by cases (simp_all add: sha1_or_byte_def words16_def be32_def xor3_mod4 dm ac_simps)
  next
    case False
    have "4 * j + r \<noteq> i" if "r < 4" for r
    proof
      assume "4 * j + r = i"
      then have "i div 4 = j" using that by auto
      then show False using False by (simp add: q_def)
    qed
    from this [of 0] this [of 1] this [of 2] this [of 3] False q j show ?thesis
      by (simp add: sha1_or_byte_def words16_def q_def [symmetric])
  qed
qed

text \<open>The tail: its bytes go into the zeroed ring one after the other.\<close>

definition fill64 :: "byte list \<Rightarrow> byte list" where
  "fill64 bs = bs @ replicate (64 - length bs) 0"

lemma fill64_snoc: "length bs < 64 \<Longrightarrow> (fill64 bs)[length bs := b] = fill64 (bs @ [b])"
proof -
  assume "length bs < 64"
  then obtain k where "64 - length bs = Suc k" "64 - length (bs @ [b]) = k" by (cases "64 - length bs") auto
  then show ?thesis by (simp add: fill64_def)
qed

lemma words16_zero: "words16 (replicate 64 0) = replicate 16 0"
  by (rule nth_equalityI) (simp_all add: words16_def be32_def)

lemma or_byte_period: "sha1_or_byte (j + 16 * d * 4) x w = sha1_or_byte j x w"
proof -
  have "(j + 16 * d * 4) div 4 mod 16 = j div 4 mod 16" 
  proof -
    have "(j + 16 * d * 4) div 4 = 16 * d + j div 4" by (rule div_mult_self1) simp
    then show ?thesis by simp
  qed
  moreover have "(j + 16 * d * 4) mod 4 = j mod 4" by (simp only: mod_mult_self1)
  ultimately show ?thesis by (simp only: sha1_or_byte_def xor3_mod4)
qed

lemma tail_words:
  assumes "64 dvd i0" and "length t < 64" and "\<forall>k<length t. f (i0 + k) = t ! k"
  shows "fold (\<lambda>i. sha1_or_byte i (ucast (f i))) [i0..<i0 + length t] (replicate 16 0) = words16 (fill64 t)"
  using assms(2,3)
proof (induction t rule: rev_induct)
  case Nil
  then show ?case by (simp add: words16_zero fill64_def)
next
  case (snoc b t)
  have ih: "fold (\<lambda>i. sha1_or_byte i (ucast (f i))) [i0..<i0 + length t] (replicate 16 0) = words16 (fill64 t)"
    using snoc by (auto simp: nth_append)
  obtain d where "i0 = 64 * d" using assms(1) by (rule dvdE)
  then have "i0 + length t = length t + 16 * d * 4" by simp
  then have "sha1_or_byte (i0 + length t) (ucast b) w = sha1_or_byte (length t) (ucast b) w" for w
    by (simp only: or_byte_period)
  moreover have "f (i0 + length t) = b" using snoc.prems(2) by (metis length_append_singleton lessI nth_append_length)
  ultimately show ?case
    using ih snoc.prems(1) or_byte_words [of "length t" "fill64 t" b] fill64_snoc [of t b]
    by (simp add: fill64_def nth_append)
qed

lemma be32_of_nat:
  "be32 (of_nat (drop_bit 24 n)) (of_nat (drop_bit 16 n)) (of_nat (drop_bit 8 n)) (of_nat n) = of_nat n"
proof (rule bit_word_eqI)
  fix k assume "k < LENGTH(32)"
  then consider "k < 8" | "8 \<le> k" "k < 16" | "16 \<le> k" "k < 24" | "24 \<le> k" "k < 32" by fastforce
  then show "bit (be32 (of_nat (drop_bit 24 n)) (of_nat (drop_bit 16 n)) (of_nat (drop_bit 8 n)) (of_nat n)) k =
      bit (of_nat n :: 32 word) k"
    by cases (auto simp: be32_def bit_simps less_diff_conv2)
qed

lemma drop_bit_small:
  assumes "L < 2 ^ 32" and "32 \<le> s"
  shows "drop_bit s L = (0::nat)"
proof -
  have "(2::nat) ^ 32 \<le> 2 ^ s" using assms(2) by (rule power_increasing) simp
  with assms(1) have "L < 2 ^ s" by (rule less_le_trans)
  then show ?thesis by (simp only: drop_bit_eq_div div_less)
qed

lemma words16_length:
  assumes "length c = 56" and "L < 2 ^ 32"
  shows "words16 (c @ be64 L) = (words16 (c @ replicate 8 0))[15 := of_nat L]"
proof (rule nth_equalityI)
  fix j assume "j < length (words16 (c @ be64 L))"
  then have "j < 16" by simp
  then consider "j < 14" | "j = 14" | "j = 15" by linarith
  then show "words16 (c @ be64 L) ! j = (words16 (c @ replicate 8 0))[15 := of_nat L] ! j"
  proof cases
    case 1
    then have "4 * j + r < length c" if "r < 4" for r using assms(1) that by simp
    from this [of 0] this [of 1] this [of 2] this [of 3] 1 show ?thesis
      by (simp add: words16_def nth_append)
  next
    case 2
    have d: "drop_bit 56 L = 0" "drop_bit 48 L = 0" "drop_bit 40 L = 0" "drop_bit 32 L = 0"
      using drop_bit_small [OF assms(2)] by simp_all
    have "be64 L = [0, 0, 0, 0] @ map (\<lambda>s. of_nat (drop_bit s L)) [24, 16, 8, 0]"
      by (simp add: be64_def d)
    then show ?thesis using 2 assms(1) by (simp add: words16_def nth_append)
  next
    case 3
    have "words16 (c @ be64 L) ! 15 = be32 (be64 L ! 4) (be64 L ! 5) (be64 L ! 6) (be64 L ! 7)"
      using assms(1) by (simp add: words16_def nth_append)
    also have "\<dots> = of_nat L" using be32_of_nat [of L] by (simp add: be64_def)
    finally show ?thesis using 3 by simp
  qed
qed simp

lemma fips_block_sha1_word:
  "map (\<lambda>j. sha1_word p (64 * k + 4 * j)) [0..<16] = fips_block p k"
  by (simp add: fips_block_def sha1_word_be32 add.assoc)

lemma full_blocks_fips:
  "j \<le> n div 64 \<Longrightarrow>
    sha1_full_blocks r p n (64 * j) = fold (\<lambda>k h. fips_compress h (fips_block p k)) [j..<n div 64] r"
proof (induction "n div 64 - j" arbitrary: j r)
  case 0
  have "\<not> 64 * j < n - n mod 64" using 0 minus_mod_eq_mult_div [of n 64] by simp
  then show ?case using 0 by (simp add: sha1_full_blocks.simps)
next
  case (Suc x)
  then have j: "j < n div 64" by simp
  then have c: "64 * j < n - n mod 64" using minus_mod_eq_mult_div [of n 64] by simp
  have l: "length (fips_block p j) = 16" by (simp add: fips_block_def)
  have "sha1_full_blocks r p n (64 * j) = sha1_full_blocks (fips_compress r (fips_block p j)) p n (64 * j + 64)"
    using c by (subst sha1_full_blocks.simps) (simp only: fips_block_sha1_word sha1mix_fips [OF l] if_True)
  also have "64 * j + 64 = 64 * Suc j" by simp
  finally show ?case using Suc.hyps(1) [of "Suc j"] Suc.hyps(2) j by (simp add: upt_conv_Cons)
qed

lemma fips_block_append:
  assumes "64 * k + 64 \<le> length xs"
  shows "fips_block (xs @ ys) k = fips_block xs k"
proof -
  have "64 * k + 4 * j + r < length xs" if "j < 16" "r < 4" for j r using assms that by linarith
  from this [of _ 0] this [of _ 1] this [of _ 2] this [of _ 3] show ?thesis
    by (simp add: fips_block_def nth_append)
qed

section \<open>The digest\<close>

definition fips_H0 :: sha1_vars where
  "fips_H0 = (0x67452301, 0xefcdab89, 0x98badcfe, 0x10325476, 0xc3d2e1f0)"

definition fips_digest :: "byte list \<Rightarrow> byte list" where
  "fips_digest bs = sha1_output (fold (\<lambda>k h. fips_compress h (fips_block bs k)) [0..<length bs div 64] fips_H0)"

lemma fips_sha1_digest: "fips_sha1 xs = fips_digest (fips_pad xs)"
  by (simp add: fips_sha1_def fips_digest_def fips_H0_def)

text \<open>A message of full blocks and a tail, followed by one or two further blocks.\<close>

lemma digest_blocks:
  assumes "length xs = 64 * q + length t" and "t = drop (64 * q) xs" and "length (t @ ys) = 64"
  shows "fips_digest (xs @ ys @ zs) = sha1_output (fold (\<lambda>k h. fips_compress h (fips_block zs k)) [0..<length zs div 64]
    (fips_compress (fold (\<lambda>k h. fips_compress h (fips_block xs k)) [0..<q] fips_H0) (words16 (t @ ys))))"
proof -
  define p where "p = xs @ ys @ zs"
  have split: "xs = take (64 * q) xs @ t" using assms(2) by simp
  have lt: "length (take (64 * q) xs) = 64 * q" using assms(1) by simp
  have p: "p = take (64 * q) xs @ (t @ ys) @ zs" using split by (simp add: p_def)
  have lp: "length p = 64 * (q + 1) + length zs" using lt assms(3) by (simp add: p)
  have d: "length p div 64 = q + 1 + length zs div 64" by (simp add: lp)
  have b0: "fips_block p k = fips_block xs k" if "k < q" for k
    unfolding p_def by (rule fips_block_append) (use that assms(1) in simp)
  have "fips_block p q = words16 (drop (64 * q) p)" by (rule fips_block_drop) (simp add: lp)
  also have "\<dots> = words16 (take 64 (drop (64 * q) p))" by (rule words16_take [symmetric]) (simp add: lp)
  also have "take 64 (drop (64 * q) p) = t @ ys" using lt assms(3) by (simp add: p)
  finally have b1: "fips_block p q = words16 (t @ ys)" .
  have b2: "fips_block p (q + 1 + k) = fips_block zs k" if "k < length zs div 64" for k
  proof -
    have "64 * (q + 1 + k) + r = length (take (64 * q) xs @ t @ ys) + (64 * k + r)" for r using lt assms(3) by simp
    then have "p ! (64 * (q + 1 + k) + r) = zs ! (64 * k + r)" for r
      unfolding p by (simp only: append_assoc [symmetric] nth_append_length_plus)
    then show ?thesis by (simp only: fips_block_def add.assoc)
  qed
  have idx: "[0..<length p div 64] = [0..<q] @ [q] @ map (\<lambda>k. q + 1 + k) [0..<length zs div 64]"
  proof -
    have "[0..<length p div 64] = [0..<q] @ [q..<q + 1 + length zs div 64]"
      unfolding d by (metis add.assoc le_add1 upt_add_eq_append zero_le add_0)
    also have "[q..<q + 1 + length zs div 64] = q # [Suc q..<q + 1 + length zs div 64]" by (rule upt_conv_Cons) simp
    also have "[Suc q..<q + 1 + length zs div 64] = map (\<lambda>k. q + 1 + k) [0..<length zs div 64]"
      by (rule nth_equalityI) (simp_all del: upt_Suc)
    finally show ?thesis by simp
  qed
  have f0: "fold (\<lambda>k h. fips_compress h (fips_block p k)) [0..<q] h = fold (\<lambda>k h. fips_compress h (fips_block xs k)) [0..<q] h" for h
    by (rule fold_cong) (auto simp: b0)
  have f2: "fold (\<lambda>k h. fips_compress h (fips_block p k)) (map (\<lambda>k. q + 1 + k) [0..<length zs div 64]) h =
      fold (\<lambda>k h. fips_compress h (fips_block zs k)) [0..<length zs div 64] h" for h
    unfolding fold_map by (rule fold_cong) (auto simp: b2 [simplified])
  show ?thesis unfolding fips_digest_def p_def [symmetric] idx by (simp only: fold_append comp_apply fold.simps id_apply f0 f2 b1)
qed

lemma sha1_unfold:
  assumes "length xs = 64 * q + length t" and "t = drop (64 * q) xs" and "length t < 64"
  shows "sha1 xs =
    (let h = fold (\<lambda>k h. fips_compress h (fips_block xs k)) [0..<q] fips_H0; w = words16 (fill64 (t @ [0x80])) in
     sha1_output
       (if 56 < length t
        then fips_compress (fips_compress h w) ((replicate 16 0)[15 := of_nat (length xs * 8)])
        else fips_compress h (w[15 := of_nat (length xs * 8)])))"
proof -
  have m: "length xs mod 64 = length t" and dv: "length xs div 64 = q" using assms(1,3) by simp_all
  have i0: "length xs - length t = 64 * q" using assms(1) by simp
  have "\<forall>k<length t. xs ! (64 * q + k) = t ! k" using assms(1,2) by simp
  then have w0: "fold (\<lambda>i. sha1_or_byte i (ucast (xs ! i))) [64 * q..<length xs] (replicate 16 0) = words16 (fill64 t)"
    using tail_words [of "64 * q" t "\<lambda>i. xs ! i"] assms(1,3) by simp
  have "length xs = length t + 16 * q * 4" using assms(1) by simp
  then have "sha1_or_byte (length xs) 0x80 w = sha1_or_byte (length t) 0x80 w" for w by (simp only: or_byte_period)
  moreover have "sha1_or_byte (length t) 0x80 (words16 (fill64 t)) = words16 (fill64 (t @ [0x80]))"
    using or_byte_words [of "length t" "fill64 t" "0x80"] assms(3) fill64_snoc [of t "0x80"]
    by (simp add: fill64_def nth_append)
  ultimately have w1: "sha1_or_byte (length xs) 0x80 (words16 (fill64 t)) = words16 (fill64 (t @ [0x80]))" by simp
  have "sha1_full_blocks fips_H0 xs (length xs) 0 = fold (\<lambda>k h. fips_compress h (fips_block xs k)) [0..<q] fips_H0"
    using full_blocks_fips [of 0 "length xs" fips_H0 xs] dv by simp
  then show ?thesis
    unfolding sha1_def fips_H0_def [symmetric] Let_def m i0 w0 w1 by (simp add: sha1mix_fips)
qed

section \<open>Properties\<close>

text \<open>C34: For every message of less than \<open>2\<^sup>2\<^sup>9\<close> bytes whose length is not 56 modulo 64, \<open>sha1\<close> gives the digest of
  the standard: the ring of sixteen words stands for the schedule of eighty, the rewritten round functions are
  the standard's, and the bytes stored after the message are the standard's padding.\<close>

theorem sha1_standard:
  assumes "length xs mod 64 \<noteq> 56" and "length xs < 2 ^ 29"
  shows "sha1 xs = fips_sha1 xs"
proof -
  define q where "q = length xs div 64"
  define t where "t = drop (64 * q) xs"
  have t: "length xs = 64 * q + length t" "length t < 64" "length t = length xs mod 64"
    using minus_mod_eq_mult_div [of "length xs" 64] by (simp_all add: t_def q_def)
  define L where "L = 8 * length xs"
  have L: "L < 2 ^ 32" "length xs * 8 = L" using assms(2) by (simp_all add: L_def)
  note code = sha1_unfold [OF t(1) t_def t(2), unfolded Let_def L(2)]
  note std = digest_blocks [OF t(1) t_def]
  show ?thesis
  proof (cases "length t \<le> 55")
    case True
    define c where "c = t @ [0x80] @ replicate (55 - length t) (0 :: byte)"
    have c: "length c = 56" using True by (simp add: c_def)
    have "(119 - length t) mod 64 = 55 - length t"
    proof -
      have "119 - length t = (55 - length t) + 64" using True by simp
      then show ?thesis using t(2) by (simp del: add_diff_assoc2)
    qed
    then have pad: "fips_pad xs = xs @ ([0x80] @ replicate (55 - length t) 0 @ be64 L) @ []"
      unfolding fips_pad_def t(3) [symmetric] L_def by simp
    have "fill64 (t @ [0x80]) = c @ replicate 8 0"
      using True by (simp add: fill64_def c_def replicate_add [symmetric])
    then have "(words16 (fill64 (t @ [0x80])))[15 := of_nat L] = words16 (t @ [0x80] @ replicate (55 - length t) 0 @ be64 L)"
      using words16_length [OF c L(1)] by (simp add: c_def)
    moreover have l: "length (t @ [0x80] @ replicate (55 - length t) 0 @ be64 L) = 64" using True by (simp add: be64_def)
    ultimately show ?thesis
      using True unfolding fips_sha1_digest pad std [OF l] code by simp
  next
    case False
    then have ge: "57 \<le> length t" using assms(1) t(3) by simp
    have "(119 - length t) mod 64 = (63 - length t) + 56" using ge t(2) by simp
    then have pad: "fips_pad xs = xs @ ([0x80] @ replicate (63 - length t) 0) @ (replicate 56 0 @ be64 L)"
      unfolding fips_pad_def t(3) [symmetric] L_def by (simp only: replicate_add append_assoc)
    have w: "words16 (replicate 56 0 @ be64 L) = (replicate 16 0)[15 := of_nat L]"
      using words16_length [of "replicate 56 0" L] L(1) words16_zero by (simp add: replicate_add [symmetric])
    have "fips_block (replicate 56 0 @ be64 L) 0 = words16 (replicate 56 0 @ be64 L)"
      using fips_block_drop [of 0 "replicate 56 0 @ be64 L"] by (simp add: be64_def)
    moreover have "length (replicate 56 (0::byte) @ be64 L) div 64 = 1" by (simp add: be64_def)
    moreover have "fill64 (t @ [0x80]) = t @ [0x80] @ replicate (63 - length t) 0" by (simp add: fill64_def)
    moreover have l: "length (t @ [0x80] @ replicate (63 - length t) 0) = 64" using t(2) by simp
    ultimately show ?thesis
      using ge unfolding fips_sha1_digest pad std [OF l] code by (simp add: w)
  qed
qed

theorem sha1_standard_witness: "sha1 [0x61, 0x62, 0x63] = fips_sha1 [0x61, 0x62, 0x63]"
  by (rule sha1_standard) simp_all

text \<open>A length of 56 modulo 64 has no room for the length in its last block, and the code does not begin another
  one: the marker stands where the upper half of the length belongs.\<close>

lemma sha1_length_56:
  assumes "length xs mod 64 = 56" and "length xs < 2 ^ 29"
  shows "sha1 xs = fips_digest (xs @ [0x80, 0, 0, 0] @ drop 4 (be64 (8 * length xs)))"
proof -
  define q where "q = length xs div 64"
  define t where "t = drop (64 * q) xs"
  have t: "length xs = 64 * q + length t" "length t < 64" "length t = length xs mod 64"
    using minus_mod_eq_mult_div [of "length xs" 64] by (simp_all add: t_def q_def)
  have t56: "length t = 56" using assms(1) t(3) by simp
  define L where "L = 8 * length xs"
  have be: "drop 4 (be64 L) = [of_nat (drop_bit 24 L), of_nat (drop_bit 16 L), of_nat (drop_bit 8 L), of_nat L]"
    by (simp add: be64_def)
  let ?ys = "[0x80, 0, 0, 0] @ drop 4 (be64 L)"
  have l: "length (t @ ?ys) = 64" using t56 by (simp add: be)
  have "(words16 (fill64 (t @ [0x80])))[15 := of_nat L] = words16 (t @ ?ys)"
  proof (rule nth_equalityI)
    fix j assume "j < length ((words16 (fill64 (t @ [0x80])))[15 := of_nat L])"
    then have "j < 16" by simp
    then consider "j < 14" | "j = 14" | "j = 15" by linarith
    then show "(words16 (fill64 (t @ [0x80])))[15 := of_nat L] ! j = words16 (t @ ?ys) ! j"
    proof cases
      case 1
      then have "4 * j + r < length t" if "r < 4" for r using t56 that by simp
      from this [of 0] this [of 1] this [of 2] this [of 3] 1 show ?thesis
        by (simp add: words16_def fill64_def nth_append)
    next
      case 2
      then show ?thesis using t56 by (simp add: words16_def fill64_def nth_append)
    next
      case 3
      then show ?thesis using t56 be32_of_nat [of L] by (simp add: words16_def nth_append be)
    qed
  qed simp
  then show ?thesis
    using digest_blocks [OF t(1) t_def l, of "[]"] sha1_unfold [OF t(1) t_def t(2)] t56
    by (simp add: L_def mult.commute)
qed

end
