(* ===== verification/WsParser.thy ===== *)
theory WsParser
  imports Prelude
begin

text \<open>
  The websocket frame parser \<open>third-party/ws_parser\<close>. The callbacks are functions on the state \<open>'u\<close> behind
  \<open>user_data\<close>; they return the new state and their result code. \<open>ws_parser_execute\<close> returns the parser, the user
  state, the buffer (payload is unmasked in place) and the result code.
\<close>

unbundle bit_operations_syntax

datatype ws_frame_type_t = WS_FRAME_TEXT | WS_FRAME_BINARY | WS_FRAME_CLOSE | WS_FRAME_PING | WS_FRAME_PONG

primrec ws_frame_code :: "ws_frame_type_t \<Rightarrow> byte" where
  "ws_frame_code WS_FRAME_TEXT = 0x1"
| "ws_frame_code WS_FRAME_BINARY = 0x2"
| "ws_frame_code WS_FRAME_CLOSE = 0x8"
| "ws_frame_code WS_FRAME_PING = 0x9"
| "ws_frame_code WS_FRAME_PONG = 0xA"

datatype ws_state =
    S_OPCODE | S_LENGTH | S_LENGTH_16_0 | S_LENGTH_16_1
  | S_LENGTH_64_0 | S_LENGTH_64_1 | S_LENGTH_64_2 | S_LENGTH_64_3
  | S_LENGTH_64_4 | S_LENGTH_64_5 | S_LENGTH_64_6 | S_LENGTH_64_7
  | S_MASK_0 | S_MASK_1 | S_MASK_2 | S_MASK_3 | S_PAYLOAD

record 'u ws_parser_callbacks_t =
  on_data_begin :: "ws_frame_type_t \<Rightarrow> 'u \<Rightarrow> 'u \<times> int"
  on_data_payload :: "byte list \<Rightarrow> 'u \<Rightarrow> 'u \<times> int"
  on_data_end :: "'u \<Rightarrow> 'u \<times> int"
  on_control_begin :: "ws_frame_type_t \<Rightarrow> 'u \<Rightarrow> 'u \<times> int"
  on_control_payload :: "byte list \<Rightarrow> 'u \<Rightarrow> 'u \<times> int"
  on_control_end :: "'u \<Rightarrow> 'u \<times> int"

record ws_parser_t =
  wp_bytes_remaining :: "64 word"
  wp_mask :: "byte list"
  wp_fragment :: bool
  wp_fin :: bool
  wp_control :: bool
  wp_mask_flag :: bool
  wp_mask_pos :: nat
  wp_state :: ws_state

definition WS_OK :: int where "WS_OK = 0"
definition WS_RESERVED_BITS_SET :: int where "WS_RESERVED_BITS_SET = -1"
definition WS_INVALID_OPCODE :: int where "WS_INVALID_OPCODE = -2"
definition WS_INVALID_CONTINUATION :: int where "WS_INVALID_CONTINUATION = -3"
definition WS_CONTROL_TOO_LONG :: int where "WS_CONTROL_TOO_LONG = -4"
definition WS_NON_CANONICAL_LENGTH :: int where "WS_NON_CANONICAL_LENGTH = -5"
definition WS_FRAGMENTED_CONTROL :: int where "WS_FRAGMENTED_CONTROL = -6"

definition ws_parser_init :: "ws_parser_t \<Rightarrow> ws_parser_t" where
  "ws_parser_init p = p\<lparr>wp_state := S_OPCODE, wp_fragment := False\<rparr>"

section \<open>Header bytes\<close>

text \<open>The opcodes the two branches of \<open>S_OPCODE\<close> accept.\<close>

definition ws_control_type :: "byte \<Rightarrow> ws_frame_type_t option" where
  "ws_control_type opcode =
     (if opcode = ws_frame_code WS_FRAME_PING then Some WS_FRAME_PING
      else if opcode = ws_frame_code WS_FRAME_PONG then Some WS_FRAME_PONG
      else if opcode = ws_frame_code WS_FRAME_CLOSE then Some WS_FRAME_CLOSE
      else None)"

definition ws_data_type :: "byte \<Rightarrow> ws_frame_type_t option" where
  "ws_data_type opcode =
     (if opcode = ws_frame_code WS_FRAME_TEXT then Some WS_FRAME_TEXT
      else if opcode = ws_frame_code WS_FRAME_BINARY then Some WS_FRAME_BINARY
      else None)"

text \<open>\<open>int rc = ...; if(rc) return rc;\<close> before the state advances.\<close>

definition ws_then_state :: "ws_parser_t \<Rightarrow> 'u \<times> int \<Rightarrow> ws_state \<Rightarrow> ws_parser_t \<times> 'u \<times> int" where
  "ws_then_state p r st = (case r of (u, rc) \<Rightarrow> if rc \<noteq> 0 then (p, u, rc) else (p\<lparr>wp_state := st\<rparr>, u, WS_OK))"

definition ws_opcode_byte ::
  "'u ws_parser_callbacks_t \<Rightarrow> ws_parser_t \<Rightarrow> 'u \<Rightarrow> byte \<Rightarrow> ws_parser_t \<times> 'u \<times> int" where
  "ws_opcode_byte cb p u cur_byte =
     (let opcode = cur_byte AND 0x0f; p1 = p\<lparr>wp_fin := bit cur_byte 7\<rparr> in
      if cur_byte AND 0x70 \<noteq> 0 then (p, u, WS_RESERVED_BITS_SET)
      else if opcode = 0
      then if \<not> wp_fragment p1 then (p1, u, WS_INVALID_CONTINUATION)
           else (p1\<lparr>wp_control := False, wp_state := S_LENGTH\<rparr>, u, WS_OK)
      else if bit opcode 3
      then (case ws_control_type opcode of
              None \<Rightarrow> (p1, u, WS_INVALID_OPCODE)
            | Some t \<Rightarrow>
                (if \<not> wp_fin p1 then (p1, u, WS_FRAGMENTED_CONTROL)
                 else ws_then_state (p1\<lparr>wp_control := True\<rparr>) (on_control_begin cb t u) S_LENGTH))
      else (case ws_data_type opcode of
              None \<Rightarrow> (p1, u, WS_INVALID_OPCODE)
            | Some t \<Rightarrow>
                ws_then_state (p1\<lparr>wp_control := False, wp_fragment := \<not> wp_fin p1\<rparr>) (on_data_begin cb t u) S_LENGTH))"

definition ws_end_of_payload ::
  "'u ws_parser_callbacks_t \<Rightarrow> ws_parser_t \<Rightarrow> 'u \<Rightarrow> ws_parser_t \<times> 'u \<times> int" where
  "ws_end_of_payload cb p u =
     ws_then_state p
       (if wp_control p then on_control_end cb u else if wp_fin p then on_data_end cb u else (u, 0)) S_OPCODE"

definition ws_after_length :: "ws_parser_t \<Rightarrow> ws_state" where
  "ws_after_length p = (if wp_mask_flag p then S_MASK_0 else S_PAYLOAD)"

definition ws_length_byte ::
  "'u ws_parser_callbacks_t \<Rightarrow> ws_parser_t \<Rightarrow> 'u \<Rightarrow> byte \<Rightarrow> ws_parser_t \<times> 'u \<times> int" where
  "ws_length_byte cb p u cur_byte =
     (let len = cur_byte AND 0x7f;
          p1 = p\<lparr>wp_mask_flag := bit cur_byte 7, wp_mask_pos := 0\<rparr>;
          p2 = (if len < 126 then p1\<lparr>wp_bytes_remaining := ucast len, wp_state := ws_after_length p1\<rparr>
                else if len = 126 then p1\<lparr>wp_state := S_LENGTH_16_0\<rparr>
                else p1\<lparr>wp_state := S_LENGTH_64_0\<rparr>) in
      if wp_control p1 \<and> 125 < len then (p1, u, WS_CONTROL_TOO_LONG)
      else if wp_state p2 = S_PAYLOAD \<and> wp_bytes_remaining p2 = 0 then ws_end_of_payload cb p2 u
      else (p2, u, WS_OK))"

text \<open>A byte of the extended length: shifted into place, then the next state.\<close>

definition ws_length_more :: "ws_parser_t \<Rightarrow> nat \<Rightarrow> byte \<Rightarrow> ws_state \<Rightarrow> ws_parser_t" where
  "ws_length_more p k cur_byte st =
     p\<lparr>wp_bytes_remaining := wp_bytes_remaining p OR push_bit k (ucast cur_byte), wp_state := st\<rparr>"

definition ws_length_last :: "ws_parser_t \<Rightarrow> byte \<Rightarrow> 64 word \<Rightarrow> 'u \<Rightarrow> ws_parser_t \<times> 'u \<times> int" where
  "ws_length_last p cur_byte least u =
     (let p1 = ws_length_more p 0 cur_byte (ws_after_length p) in
      (p1, u, if wp_bytes_remaining p1 < least then WS_NON_CANONICAL_LENGTH else WS_OK))"

definition ws_mask_byte :: "ws_parser_t \<Rightarrow> nat \<Rightarrow> byte \<Rightarrow> ws_state \<Rightarrow> ws_parser_t" where
  "ws_mask_byte p i cur_byte st = p\<lparr>wp_mask := (wp_mask p)[i := cur_byte], wp_state := st\<rparr>"

text \<open>One pass of the loop in every state but \<open>S_PAYLOAD\<close>; it consumes one byte.\<close>

definition ws_header_byte ::
  "'u ws_parser_callbacks_t \<Rightarrow> ws_parser_t \<Rightarrow> 'u \<Rightarrow> byte \<Rightarrow> ws_parser_t \<times> 'u \<times> int" where
  "ws_header_byte cb p u b = (case wp_state p of
     S_OPCODE \<Rightarrow> ws_opcode_byte cb p u b
   | S_LENGTH \<Rightarrow> ws_length_byte cb p u b
   | S_LENGTH_16_0 \<Rightarrow> (ws_length_more (p\<lparr>wp_bytes_remaining := 0\<rparr>) 8 b S_LENGTH_16_1, u, WS_OK)
   | S_LENGTH_16_1 \<Rightarrow> ws_length_last p b 126 u
   | S_LENGTH_64_0 \<Rightarrow> (ws_length_more (p\<lparr>wp_bytes_remaining := 0\<rparr>) 56 b S_LENGTH_64_1, u, WS_OK)
   | S_LENGTH_64_1 \<Rightarrow> (ws_length_more p 48 b S_LENGTH_64_2, u, WS_OK)
   | S_LENGTH_64_2 \<Rightarrow> (ws_length_more p 40 b S_LENGTH_64_3, u, WS_OK)
   | S_LENGTH_64_3 \<Rightarrow> (ws_length_more p 32 b S_LENGTH_64_4, u, WS_OK)
   | S_LENGTH_64_4 \<Rightarrow> (ws_length_more p 24 b S_LENGTH_64_5, u, WS_OK)
   | S_LENGTH_64_5 \<Rightarrow> (ws_length_more p 16 b S_LENGTH_64_6, u, WS_OK)
   | S_LENGTH_64_6 \<Rightarrow> (ws_length_more p 8 b S_LENGTH_64_7, u, WS_OK)
   | S_LENGTH_64_7 \<Rightarrow> ws_length_last p b 65536 u
   | S_MASK_0 \<Rightarrow> (ws_mask_byte p 0 b S_MASK_1, u, WS_OK)
   | S_MASK_1 \<Rightarrow> (ws_mask_byte p 1 b S_MASK_2, u, WS_OK)
   | S_MASK_2 \<Rightarrow> (ws_mask_byte p 2 b S_MASK_3, u, WS_OK)
   | S_MASK_3 \<Rightarrow>
      (let p1 = ws_mask_byte p 3 b S_PAYLOAD in
       if wp_bytes_remaining p1 = 0 then ws_end_of_payload cb p1 u else (p1, u, WS_OK))
   | S_PAYLOAD \<Rightarrow> (p, u, WS_OK))"

section \<open>Payload\<close>

text \<open>\<open>buff[i] ^= mask[mask_pos++]\<close>, with the two bits of \<open>mask_pos\<close>.\<close>

fun ws_unmask :: "byte list \<Rightarrow> nat \<Rightarrow> byte list \<Rightarrow> byte list \<times> nat" where
  "ws_unmask m pos [] = ([], pos)"
| "ws_unmask m pos (x # xs) = (let (ys, q) = ws_unmask m ((pos + 1) mod 4) xs in ((x XOR m ! pos) # ys, q))"

text \<open>The branch \<open>S_PAYLOAD\<close> on a chunk: the bytes as stored, the parser, the user state and the result code.\<close>

definition ws_payload ::
  "'u ws_parser_callbacks_t \<Rightarrow> ws_parser_t \<Rightarrow> 'u \<Rightarrow> byte list \<Rightarrow> byte list \<times> ws_parser_t \<times> 'u \<times> int" where
  "ws_payload cb p u chunk =
     (let (bytes, pos) = (if wp_mask_flag p then ws_unmask (wp_mask p) (wp_mask_pos p) chunk
                          else (chunk, wp_mask_pos p));
          p1 = p\<lparr>wp_mask_pos := pos\<rparr>;
          (u1, rc) = (if wp_control p then on_control_payload cb bytes u else on_data_payload cb bytes u);
          p2 = p1\<lparr>wp_bytes_remaining := wp_bytes_remaining p1 - of_nat (length chunk)\<rparr> in
      if rc \<noteq> 0 then (bytes, p1, u1, rc)
      else if wp_bytes_remaining p2 = 0 then (bytes, ws_end_of_payload cb p2 u1)
      else (bytes, p2, u1, WS_OK))"

section \<open>The parser\<close>

lemma ws_payload_empty:
  "ws_payload cb p u [] = (bytes, p1, u1, rc) \<Longrightarrow> wp_bytes_remaining p = 0 \<Longrightarrow> rc = 0 \<Longrightarrow> wp_state p1 = S_OPCODE"
  by (auto simp: ws_payload_def ws_end_of_payload_def ws_then_state_def Let_def split: prod.splits if_splits)

function ws_parser_execute ::
  "'u ws_parser_callbacks_t \<Rightarrow> ws_parser_t \<Rightarrow> 'u \<Rightarrow> byte list \<Rightarrow> ws_parser_t \<times> 'u \<times> byte list \<times> int" where
  "ws_parser_execute cb p u buff = (case buff of
     [] \<Rightarrow> (p, u, [], WS_OK)
   | b # bs \<Rightarrow>
      (if wp_state p = S_PAYLOAD
       then (let n = min (length buff) (unat (wp_bytes_remaining p));
                 (bytes, p1, u1, rc) = ws_payload cb p u (take n buff) in
             if rc \<noteq> 0 then (p1, u1, bytes @ drop n buff, rc)
             else (let (p2, u2, rest, rc2) = ws_parser_execute cb p1 u1 (drop n buff) in
                   (p2, u2, bytes @ rest, rc2)))
       else (let (p1, u1, rc) = ws_header_byte cb p u b in
             if rc \<noteq> 0 then (p1, u1, buff, rc)
             else (let (p2, u2, rest, rc2) = ws_parser_execute cb p1 u1 bs in (p2, u2, b # rest, rc2)))))"
  by pat_completeness auto
termination
proof (relation "measure (\<lambda>(cb, p, u, buff). 2 * length buff + (if wp_state p = S_PAYLOAD then 1 else 0))", goal_cases)
  case (2 cb p u buff b bs n r bytes y p1 z u1 rc)
  show ?case
  proof (cases "n = 0")
    case True
    then have "wp_bytes_remaining p = 0" using 2(1-4) by (auto simp: min_def unat_eq_zero split: if_splits)
    then have "wp_state p1 = S_OPCODE" using 2 True ws_payload_empty [of cb p u bytes p1 u1 rc] by simp
    with 2 True show ?thesis by simp
  next
    case False
    moreover have "n \<le> length buff" using 2 by simp
    ultimately show ?thesis using 2(1,2) by (simp, arith)
  qed
qed auto

declare ws_parser_execute.simps [simp del]

definition ws_parser_error :: "int \<Rightarrow> string option" where
  "ws_parser_error rc =
     (if rc = WS_OK then Some ''WS_OK''
      else if rc = WS_RESERVED_BITS_SET then Some ''WS_RESERVED_BITS_SET''
      else if rc = WS_INVALID_OPCODE then Some ''WS_INVALID_OPCODE''
      else if rc = WS_INVALID_CONTINUATION then Some ''WS_INVALID_CONTINUATION''
      else if rc = WS_CONTROL_TOO_LONG then Some ''WS_CONTROL_TOO_LONG''
      else if rc = WS_NON_CANONICAL_LENGTH then Some ''WS_NON_CANONICAL_LENGTH''
      else if rc = WS_FRAGMENTED_CONTROL then Some ''WS_FRAGMENTED_CONTROL''
      else None)"

end
