(* ===== verification/Websocket.thy ===== *)
theory Websocket
  imports WsParser Sha1 Base64 WString
begin

text \<open>
  Websocket connections: \<open>SmingCore/Network/Http/Websocket/WebsocketConnection.cpp\<close> and the handshake of
  \<open>SmingCore/Network/WebsocketClient.cpp\<close>.

  The record holds the object of one connection. The parser is kept beside it, since only \<open>processFrame\<close> and
  \<open>reset\<close> touch it. \<open>wc_connection\<close> says whether the pointer to the transport is set; \<open>wc_sent\<close> is what has been
  passed to its \<open>send\<close>, \<open>wc_timeOut\<close> the last value passed to its \<open>setTimeOut\<close>. \<open>wc_listed\<close> says whether the static
  list of sockets contains the object. \<open>os_random\<close> gives a value for the number of calls made before. \<open>wc_fault\<close>
  records a store outside of the frame buffer. The delegates of the application are functions on the connection.
\<close>

unbundle bit_operations_syntax

datatype WsConnectionState = eWSCS_Ready | eWSCS_Open | eWSCS_Closed

record 'a wsconn =
  wc_state :: WsConnectionState
  wc_activated :: bool
  wc_isClientConnection :: bool
  wc_connection :: bool
  wc_frameType :: ws_frame_type_t
  wc_controlFrame_type :: ws_frame_type_t
  wc_controlFrame_payload :: "byte list option"
  wc_listed :: bool
  wc_sent :: "byte list list"
  wc_timeOut :: "nat option"
  wc_randoms :: nat
  wc_fault :: bool
  wc_app :: 'a

record 'a ws_handlers =
  wsConnect :: "('a wsconn \<Rightarrow> 'a wsconn) option"
  wsMessage :: "(byte list \<Rightarrow> 'a wsconn \<Rightarrow> 'a wsconn) option"
  wsBinary :: "(byte list \<Rightarrow> 'a wsconn \<Rightarrow> 'a wsconn) option"
  wsDisconnect :: "('a wsconn \<Rightarrow> 'a wsconn) option"

definition WEBSOCKET_VERSION :: int where "WEBSOCKET_VERSION = 13"

definition WSSTR_SECRET :: "char list" where
  "WSSTR_SECRET = ''258EAFA5-E914-47DA-95CA-C5AB0DC85B11''"

section \<open>Frames\<close>

text \<open>The loop that masks the payload.\<close>

fun encode_masked :: "byte list \<Rightarrow> nat \<Rightarrow> byte list \<Rightarrow> nat \<Rightarrow> byte list \<Rightarrow> byte list option" where
  "encode_masked out i maskKey x [] = Some out"
| "encode_masked out i maskKey x (d # ds) = do {
     out1 \<leftarrow> wr out i (d XOR maskKey ! (x mod 4));
     encode_masked out1 (i + 1) maskKey (x + 1) ds }"

text \<open>\<open>maskKey\<close> holds the four values that \<open>os_random\<close> gives, as bytes.\<close>

definition encodeFrame ::
  "byte list \<Rightarrow> ws_frame_type_t \<Rightarrow> byte list \<Rightarrow> byte list \<Rightarrow> nat \<Rightarrow> bool \<Rightarrow> bool \<Rightarrow> (byte list \<times> nat) option" where
  "encodeFrame maskKey type inData outData outLength useMask isFin =
     (let inLength = length inData;
          headerLength = (if 125 < inLength then 4 else 2) + (if useMask then 4 else 0) in
      if 0xFFFF < inLength then Some (outData, 0)
      else if outLength < headerLength + inLength then Some (outData, 0)
      else do {
        out0 \<leftarrow> wrn outData 0 (replicate headerLength 0);
        out1 \<leftarrow> wr out0 0 ((if isFin then 0x80 else 0) OR ws_frame_code type);
        out2 \<leftarrow> wr out1 1 ((if useMask then 0x80 else 0) OR (if inLength < 126 then of_nat inLength else 126));
        (out3, i) \<leftarrow> (if inLength < 126 then Some (out2, 2)
                     else do { o1 \<leftarrow> wr out2 2 (of_nat (inLength div 256));
                               o2 \<leftarrow> wr o1 3 (of_nat inLength); Some (o2, 4) });
        if useMask
        then do {
          out4 \<leftarrow> wrn out3 i maskKey;
          out5 \<leftarrow> encode_masked out4 (i + 4) maskKey 0 inData;
          Some (out5, i + 4 + inLength) }
        else do { out4 \<leftarrow> wrn out3 i inData; Some (out4, i + inLength) } })"

definition next_mask :: "(nat \<Rightarrow> byte) \<Rightarrow> 'a wsconn \<Rightarrow> byte list" where
  "next_mask os_random c = map (\<lambda>k. os_random (wc_randoms c + k)) [0..<4]"

text \<open>
  \<open>send\<close>: the frame buffer is a local array of \<open>length + 9\<close> bytes; its contents before \<open>encodeFrame\<close> do not reach
  the frame. A null message has length 0.
\<close>

definition WebsocketConnection_send ::
  "(nat \<Rightarrow> byte) \<Rightarrow> byte list \<Rightarrow> ws_frame_type_t \<Rightarrow> 'a wsconn \<Rightarrow> 'a wsconn" where
  "WebsocketConnection_send os_random message type c =
     (if \<not> wc_connection c then c
      else if \<not> wc_activated c then c
      else (let bufferLength = length message + 1 + 4 + 4 in
        case encodeFrame (next_mask os_random c) type message (replicate bufferLength 0) bufferLength
               (wc_isClientConnection c) True of
          None \<Rightarrow> c\<lparr>wc_fault := True\<rparr>
        | Some (buffer, outLength) \<Rightarrow>
            (let c1 = (if outLength \<noteq> 0 \<and> wc_isClientConnection c then c\<lparr>wc_randoms := wc_randoms c + 4\<rparr> else c) in
             if outLength \<noteq> 0 then c1\<lparr>wc_sent := wc_sent c1 @ [take outLength buffer]\<rparr> else c1)))"

definition sendString :: "(nat \<Rightarrow> byte) \<Rightarrow> byte list \<Rightarrow> 'a wsconn \<Rightarrow> 'a wsconn" where
  "sendString os_random message c = WebsocketConnection_send os_random message WS_FRAME_TEXT c"

definition sendBinary :: "(nat \<Rightarrow> byte) \<Rightarrow> byte list \<Rightarrow> 'a wsconn \<Rightarrow> 'a wsconn" where
  "sendBinary os_random data c = WebsocketConnection_send os_random data WS_FRAME_BINARY c"

text \<open>\<open>broadcast\<close> over the connections of the static list, in its order.\<close>

definition WebsocketConnection_broadcast ::
  "(nat \<Rightarrow> byte) \<Rightarrow> byte list \<Rightarrow> ws_frame_type_t \<Rightarrow> 'a wsconn list \<Rightarrow> 'a wsconn list" where
  "WebsocketConnection_broadcast os_random message type cs = map (WebsocketConnection_send os_random message type) cs"

section \<open>Life cycle\<close>

definition call_handler :: "('c \<Rightarrow> 'c) option \<Rightarrow> 'c \<Rightarrow> 'c" where
  "call_handler h c = (case h of None \<Rightarrow> c | Some f \<Rightarrow> f c)"

definition WebsocketConnection_activate :: "'a wsconn \<Rightarrow> 'a wsconn" where
  "WebsocketConnection_activate c = c\<lparr>wc_activated := True\<rparr>"

definition WebsocketConnection_onConnected :: "'a ws_handlers \<Rightarrow> 'a wsconn \<Rightarrow> 'a wsconn \<times> bool" where
  "WebsocketConnection_onConnected h c =
     (let c1 = (WebsocketConnection_activate c)\<lparr>wc_listed := True\<rparr> in (call_handler (wsConnect h) c1, True))"

definition WebsocketConnection_close :: "(nat \<Rightarrow> byte) \<Rightarrow> 'a ws_handlers \<Rightarrow> 'a wsconn \<Rightarrow> 'a wsconn" where
  "WebsocketConnection_close os_random h c =
     (let c1 = c\<lparr>wc_listed := False\<rparr>;
          c2 = (if wc_state c1 \<noteq> eWSCS_Closed
                then (let c3 = c1\<lparr>wc_state := eWSCS_Closed\<rparr>;
                          c4 = (if wc_isClientConnection c3 then WebsocketConnection_send os_random [] WS_FRAME_CLOSE c3 else c3) in
                      call_handler (wsDisconnect h) (c4\<lparr>wc_activated := False\<rparr>))
                else c1) in
      if wc_connection c2 then c2\<lparr>wc_timeOut := Some 1, wc_connection := False\<rparr> else c2)"

definition WebsocketConnection_reset :: "ws_parser_t \<times> 'a wsconn \<Rightarrow> ws_parser_t \<times> 'a wsconn" where
  "WebsocketConnection_reset s = (case s of (p, c) \<Rightarrow> (ws_parser_init p, c\<lparr>wc_activated := False\<rparr>))"

section \<open>Callbacks of the parser\<close>

definition staticOnDataBegin :: "ws_frame_type_t \<Rightarrow> 'a wsconn \<Rightarrow> 'a wsconn \<times> int" where
  "staticOnDataBegin type c = (c\<lparr>wc_frameType := type\<rparr>, WS_OK)"

definition staticOnDataPayload :: "'a ws_handlers \<Rightarrow> byte list \<Rightarrow> 'a wsconn \<Rightarrow> 'a wsconn \<times> int" where
  "staticOnDataPayload h at c =
     ((case (wc_frameType c, wsMessage h, wsBinary h) of
         (WS_FRAME_TEXT, Some f, _) \<Rightarrow> f at c
       | (WS_FRAME_BINARY, _, Some f) \<Rightarrow> f at c
       | _ \<Rightarrow> c), WS_OK)"

definition staticOnDataEnd :: "'a wsconn \<Rightarrow> 'a wsconn \<times> int" where
  "staticOnDataEnd c = (c, WS_OK)"

definition staticOnControlBegin ::
  "(nat \<Rightarrow> byte) \<Rightarrow> 'a ws_handlers \<Rightarrow> ws_frame_type_t \<Rightarrow> 'a wsconn \<Rightarrow> 'a wsconn \<times> int" where
  "staticOnControlBegin os_random h type c =
     (let c1 = c\<lparr>wc_controlFrame_type := type, wc_controlFrame_payload := None\<rparr> in
      (if type = WS_FRAME_CLOSE then WebsocketConnection_close os_random h c1 else c1, WS_OK))"

definition staticOnControlPayload :: "byte list \<Rightarrow> 'a wsconn \<Rightarrow> 'a wsconn \<times> int" where
  "staticOnControlPayload data c = (c\<lparr>wc_controlFrame_payload := Some data\<rparr>, WS_OK)"

definition staticOnControlEnd :: "(nat \<Rightarrow> byte) \<Rightarrow> 'a wsconn \<Rightarrow> 'a wsconn \<times> int" where
  "staticOnControlEnd os_random c =
     ((if wc_controlFrame_type c = WS_FRAME_PING
       then WebsocketConnection_send os_random (case wc_controlFrame_payload c of None \<Rightarrow> [] | Some d \<Rightarrow> d) WS_FRAME_PONG c
       else c), WS_OK)"

definition parserSettings :: "(nat \<Rightarrow> byte) \<Rightarrow> 'a ws_handlers \<Rightarrow> 'a wsconn ws_parser_callbacks_t" where
  "parserSettings os_random h =
     \<lparr>on_data_begin = staticOnDataBegin, on_data_payload = staticOnDataPayload h, on_data_end = staticOnDataEnd,
      on_control_begin = staticOnControlBegin os_random h, on_control_payload = staticOnControlPayload,
      on_control_end = staticOnControlEnd os_random\<rparr>"

definition processFrame ::
  "(nat \<Rightarrow> byte) \<Rightarrow> 'a ws_handlers \<Rightarrow> ws_parser_t \<times> 'a wsconn \<Rightarrow> byte list \<Rightarrow> (ws_parser_t \<times> 'a wsconn) \<times> bool" where
  "processFrame os_random h s at = (case s of (p, c) \<Rightarrow>
     case ws_parser_execute (parserSettings os_random h) p c at of (p1, c1, _, rc) \<Rightarrow> ((p1, c1), rc = WS_OK))"

section \<open>Handshake\<close>

text \<open>\<open>base64_encode(hash, SHA1_SIZE)\<close> of the hash of \<open>token\<close> and the secret.\<close>

definition accept_key :: "alloc_env \<Rightarrow> wstring \<Rightarrow> wstring option" where
  "accept_key e token = do {
     (t, _) \<leftarrow> String_concat_cstr e token (Some WSSTR_SECRET);
     bytes \<leftarrow> rdn (block_of (str_buffer t)) 0 (str_len t);
     base64_encode_String e (map unat (sha1 (map of_char bytes))) }"

text \<open>
  \<open>bind\<close>, with the two headers of the request: the connection, the value of \<open>Sec-WebSocket-Accept\<close> when the
  response is prepared, and the result.
\<close>

definition WebsocketConnection_bind ::
  "alloc_env \<Rightarrow> wstring \<Rightarrow> wstring \<Rightarrow> 'a wsconn \<Rightarrow> ('a wsconn \<times> wstring option \<times> bool) option" where
  "WebsocketConnection_bind e version token c = do {
     v \<leftarrow> String_trim version;
     n \<leftarrow> String_toInt v;
     if n \<noteq> WEBSOCKET_VERSION then Some (c, None, False)
     else do {
       t \<leftarrow> String_trim token;
       accept \<leftarrow> accept_key e t;
       Some (c\<lparr>wc_state := eWSCS_Open, wc_isClientConnection := False\<rparr>, Some accept, True) } }"

text \<open>\<open>verifyKey\<close>, with the header of the response if it is there.\<close>

definition verifyKey ::
  "alloc_env \<Rightarrow> 'a ws_handlers \<Rightarrow> wstring \<Rightarrow> wstring option \<Rightarrow> 'a wsconn \<Rightarrow> ('a wsconn \<times> int) option" where
  "verifyKey e h key header c = (case header of
     None \<Rightarrow> Some (c\<lparr>wc_state := eWSCS_Closed\<rparr>, -2)
   | Some serverHashedKey \<Rightarrow> do {
       base64hash \<leftarrow> accept_key e key;
       same \<leftarrow> String_equals base64hash serverHashedKey;
       if \<not> same
       then (if \<not> wc_connection c then None else Some (c\<lparr>wc_state := eWSCS_Closed, wc_timeOut := Some 1\<rparr>, -3))
       else (let c1 = WebsocketConnection_activate (c\<lparr>wc_state := eWSCS_Open, wc_timeOut := Some 0xFFFF\<rparr>) in
             Some (call_handler (wsConnect h) c1, 0)) })"

end
