(* ===== verification/WsParserProps.thy ===== *)
theory WsParserProps
  imports WsParser
begin

text \<open>
  The parser does not depend on how its input is cut: with callbacks that take a payload in one piece or in two
  to the same effect, running it over two buffers is running it over their concatenation.
\<close>

unbundle bit_operations_syntax

section \<open>Payload in pieces\<close>

lemma ws_unmask_append:
  "ws_unmask m pos (xs @ ys) = (let (a, q) = ws_unmask m pos xs; (b, r) = ws_unmask m q ys in (a @ b, r))"
  by (induction m pos xs rule: ws_unmask.induct) (auto split: prod.splits)

lemma length_ws_unmask [simp]: "length (fst (ws_unmask m pos xs)) = length xs"
  by (induction m pos xs rule: ws_unmask.induct) (auto split: prod.splits)

definition ws_piecewise :: "'u ws_parser_callbacks_t \<Rightarrow> bool" where
  "ws_piecewise cb =
     ((\<forall>xs u. snd (on_data_payload cb xs u) = 0) \<and> (\<forall>xs u. snd (on_control_payload cb xs u) = 0) \<and>
      (\<forall>xs ys u. xs \<noteq> [] \<longrightarrow> ys \<noteq> [] \<longrightarrow>
         fst (on_data_payload cb (xs @ ys) u) = fst (on_data_payload cb ys (fst (on_data_payload cb xs u)))) \<and>
      (\<forall>xs ys u. xs \<noteq> [] \<longrightarrow> ys \<noteq> [] \<longrightarrow>
         fst (on_control_payload cb (xs @ ys) u) = fst (on_control_payload cb ys (fst (on_control_payload cb xs u)))))"

text \<open>The effect of a chunk, apart from what follows when the payload ends.\<close>

definition ws_bytes :: "ws_parser_t \<Rightarrow> byte list \<Rightarrow> byte list \<times> nat" where
  "ws_bytes p chunk = (if wp_mask_flag p then ws_unmask (wp_mask p) (wp_mask_pos p) chunk else (chunk, wp_mask_pos p))"

definition ws_deliver :: "'u ws_parser_callbacks_t \<Rightarrow> ws_parser_t \<Rightarrow> byte list \<Rightarrow> 'u \<Rightarrow> 'u" where
  "ws_deliver cb p bytes u = fst (if wp_control p then on_control_payload cb bytes u else on_data_payload cb bytes u)"

definition ws_after_chunk :: "ws_parser_t \<Rightarrow> byte list \<Rightarrow> ws_parser_t" where
  "ws_after_chunk p chunk =
     p\<lparr>wp_mask_pos := snd (ws_bytes p chunk), wp_bytes_remaining := wp_bytes_remaining p - of_nat (length chunk)\<rparr>"

lemma ws_payload_eq:
  assumes "ws_piecewise cb"
  shows "ws_payload cb p u chunk =
    (let p2 = ws_after_chunk p chunk; u1 = ws_deliver cb p (fst (ws_bytes p chunk)) u in
     if wp_bytes_remaining p2 = 0 then (fst (ws_bytes p chunk), ws_end_of_payload cb p2 u1)
     else (fst (ws_bytes p chunk), p2, u1, WS_OK))"
proof -
  have "snd (on_data_payload cb xs v) = 0" "snd (on_control_payload cb xs v) = 0" for xs v
    using assms by (simp_all add: ws_piecewise_def)
  then show ?thesis
    by (auto simp: ws_payload_def ws_bytes_def ws_deliver_def ws_after_chunk_def Let_def split: prod.splits if_splits)
       (metis snd_conv)+
qed

lemma ws_bytes_append:
  "ws_bytes p (xs @ ys) =
    (fst (ws_bytes p xs) @ fst (ws_bytes (ws_after_chunk p xs) ys), snd (ws_bytes (ws_after_chunk p xs) ys))"
  by (auto simp: ws_bytes_def ws_after_chunk_def ws_unmask_append Let_def split: prod.splits)

lemma length_ws_bytes [simp]: "length (fst (ws_bytes p xs)) = length xs"
  by (simp add: ws_bytes_def)

lemma ws_after_chunk_append: "ws_after_chunk (ws_after_chunk p xs) ys = ws_after_chunk p (xs @ ys)"
proof -
  have "snd (ws_bytes p (xs @ ys)) = snd (ws_bytes (ws_after_chunk p xs) ys)" by (simp add: ws_bytes_append)
  then show ?thesis by (simp add: ws_after_chunk_def algebra_simps)
qed

lemma ws_deliver_append:
  assumes "ws_piecewise cb" and "xs \<noteq> []" and "ys \<noteq> []"
  shows "ws_deliver cb p (fst (ws_bytes p (xs @ ys))) u =
    ws_deliver cb (ws_after_chunk p xs) (fst (ws_bytes (ws_after_chunk p xs) ys)) (ws_deliver cb p (fst (ws_bytes p xs)) u)"
proof -
  have "fst (ws_bytes p xs) \<noteq> []" "fst (ws_bytes (ws_after_chunk p xs) ys) \<noteq> []"
    using assms(2,3) length_ws_bytes by (metis length_0_conv)+
  moreover have "wp_control (ws_after_chunk p xs) = wp_control p" by (simp add: ws_after_chunk_def)
  ultimately show ?thesis using assms(1) by (simp add: ws_deliver_def ws_bytes_append ws_piecewise_def)
qed

section \<open>Input in pieces\<close>

text \<open>Continue with \<open>ys\<close> after a run: nothing more happens after an error.\<close>

definition ws_continue ::
  "'u ws_parser_callbacks_t \<Rightarrow> ws_parser_t \<times> 'u \<times> byte list \<times> int \<Rightarrow> byte list \<Rightarrow> ws_parser_t \<times> 'u \<times> byte list \<times> int" where
  "ws_continue cb r ys = (case r of (p, u, b, rc) \<Rightarrow>
     if rc \<noteq> 0 then (p, u, b @ ys, rc)
     else (case ws_parser_execute cb p u ys of (p1, u1, b1, rc1) \<Rightarrow> (p1, u1, b @ b1, rc1)))"

lemma execute_Nil [simp]: "ws_parser_execute cb p u [] = (p, u, [], WS_OK)"
  by (simp add: ws_parser_execute.simps)

lemma execute_header:
  "wp_state p \<noteq> S_PAYLOAD \<Longrightarrow>
    ws_parser_execute cb p u (b # bs) = ws_continue cb (case ws_header_byte cb p u b of (p1, u1, rc) \<Rightarrow> (p1, u1, [b], rc)) bs"
  by (subst ws_parser_execute.simps) (auto simp: ws_continue_def split: prod.splits)

lemma execute_payload:
  assumes "wp_state p = S_PAYLOAD" and "xs \<noteq> []" and "n = min (length xs) (unat (wp_bytes_remaining p))"
  shows "ws_parser_execute cb p u xs =
    ws_continue cb (case ws_payload cb p u (take n xs) of (b, p1, u1, rc) \<Rightarrow> (p1, u1, b, rc)) (drop n xs)"
  using assms by (subst ws_parser_execute.simps) (auto simp: ws_continue_def Let_def split: prod.splits list.splits)

lemma ws_continue_assoc:
  "(\<And>p u b. r = (p, u, b, 0) \<Longrightarrow> ws_parser_execute cb p u (xs @ ys) = ws_continue cb (ws_parser_execute cb p u xs) ys) \<Longrightarrow>
    ws_continue cb r (xs @ ys) = ws_continue cb (ws_continue cb r xs) ys"
  by (cases r) (auto simp: ws_continue_def split: prod.splits)

lemma execute_payload_all:
  assumes "ws_piecewise cb" and "wp_state p = S_PAYLOAD" and "xs \<noteq> []" and "length xs < unat (wp_bytes_remaining p)"
  shows "ws_parser_execute cb p u xs = (ws_after_chunk p xs, ws_deliver cb p (fst (ws_bytes p xs)) u, fst (ws_bytes p xs), WS_OK) \<and>
    unat (wp_bytes_remaining (ws_after_chunk p xs)) = unat (wp_bytes_remaining p) - length xs"
proof -
  have lt: "length xs < 2 ^ LENGTH(64)" using assms(4) unsigned_less [of "wp_bytes_remaining p", where ?'a = nat] by linarith
  then have "unat (of_nat (length xs) :: 64 word) = length xs" by (simp add: unat_of_nat)
  moreover from this have "of_nat (length xs) \<le> wp_bytes_remaining p" using assms(4) by (simp add: word_le_nat_alt)
  ultimately have r: "unat (wp_bytes_remaining (ws_after_chunk p xs)) = unat (wp_bytes_remaining p) - length xs"
    by (simp add: ws_after_chunk_def unat_sub)
  then have "wp_bytes_remaining (ws_after_chunk p xs) \<noteq> 0" using assms(4) by auto
  then show ?thesis
    using r assms by (simp add: execute_payload [OF assms(2,3) refl] ws_payload_eq ws_continue_def Let_def WS_OK_def)
qed

lemma execute_append_across:
  assumes "ws_piecewise cb" and st0: "wp_state p = S_PAYLOAD" and xs: "xs \<noteq> []" and ys: "ys \<noteq> []"
    and gt: "length xs < unat (wp_bytes_remaining p)"
  shows "ws_parser_execute cb p u (xs @ ys) = ws_continue cb (ws_parser_execute cb p u xs) ys"
proof -
  define p1 u1 where "p1 = ws_after_chunk p xs" and "u1 = ws_deliver cb p (fst (ws_bytes p xs)) u"
  note first = execute_payload_all [OF assms(1) st0 xs gt, of u, folded p1_def u1_def]
  define n where "n = min (length ys) (unat (wp_bytes_remaining p) - length xs)"
  have n: "n = min (length ys) (unat (wp_bytes_remaining p1))" using first by (simp add: n_def)
  have nn: "length xs + n = min (length (xs @ ys)) (unat (wp_bytes_remaining p))" using gt by (simp add: n_def)
  have tk: "take (length xs + n) (xs @ ys) = xs @ take n ys" "drop (length xs + n) (xs @ ys) = drop n ys" by simp_all
  have tne: "take n ys \<noteq> []" using ys gt by (simp add: n_def)
  have st: "wp_state p1 = S_PAYLOAD" using st0 by (simp add: p1_def ws_after_chunk_def)
  have "ws_parser_execute cb p u (xs @ ys) =
      ws_continue cb (case ws_payload cb p u (xs @ take n ys) of (b, p2, u2, rc) \<Rightarrow> (p2, u2, b, rc)) (drop n ys)"
    using execute_payload [OF st0 _ nn, of cb u] xs by (simp add: tk)
  moreover have "ws_parser_execute cb p1 u1 ys =
      ws_continue cb (case ws_payload cb p1 u1 (take n ys) of (b, p2, u2, rc) \<Rightarrow> (p2, u2, b, rc)) (drop n ys)"
    by (rule execute_payload [OF st ys n])
  moreover have "ws_payload cb p u (xs @ take n ys) =
      (case ws_payload cb p1 u1 (take n ys) of (b, r) \<Rightarrow> (fst (ws_bytes p xs) @ b, r))"
    using ws_deliver_append [OF assms(1) xs tne, of p u]
    by (simp add: ws_payload_eq [OF assms(1)] ws_after_chunk_append ws_bytes_append Let_def p1_def u1_def split: prod.splits)
  ultimately show ?thesis using first by (auto simp: ws_continue_def WS_OK_def split: prod.splits)
qed

text \<open>A chunk that ends inside of the first buffer; what follows it is the same on both sides.\<close>

lemma execute_append_within:
  assumes st0: "wp_state p = S_PAYLOAD" and xs: "xs \<noteq> []" and le: "unat (wp_bytes_remaining p) \<le> length xs"
    and ih: "\<And>bytes p1 u1. ws_payload cb p u (take (unat (wp_bytes_remaining p)) xs) = (bytes, p1, u1, 0) \<Longrightarrow>
      ws_parser_execute cb p1 u1 (drop (unat (wp_bytes_remaining p)) xs @ ys) =
        ws_continue cb (ws_parser_execute cb p1 u1 (drop (unat (wp_bytes_remaining p)) xs)) ys"
  shows "ws_parser_execute cb p u (xs @ ys) = ws_continue cb (ws_parser_execute cb p u xs) ys"
proof -
  define rem where "rem = unat (wp_bytes_remaining p)"
  have n: "rem = min (length xs) rem" "rem = min (length (xs @ ys)) rem" using le by (simp_all add: rem_def)
  have "ws_parser_execute cb p u (xs @ ys) =
      ws_continue cb (case ws_payload cb p u (take rem xs) of (b, p1, u1, rc) \<Rightarrow> (p1, u1, b, rc)) (drop rem xs @ ys)"
    using execute_payload [OF st0, of "xs @ ys" rem cb u] n(2) le xs by (simp add: rem_def)
  also have "\<dots> = ws_continue cb (ws_continue cb
      (case ws_payload cb p u (take rem xs) of (b, p1, u1, rc) \<Rightarrow> (p1, u1, b, rc)) (drop rem xs)) ys"
    by (rule ws_continue_assoc) (auto simp: rem_def split: prod.splits intro: ih)
  also have "\<dots> = ws_continue cb (ws_parser_execute cb p u xs) ys"
    using execute_payload [OF st0, of xs rem cb u] n(1) xs by (simp add: rem_def)
  finally show ?thesis .
qed

lemma execute_append:
  assumes "ws_piecewise cb"
  shows "ws_parser_execute cb p u (xs @ ys) = ws_continue cb (ws_parser_execute cb p u xs) ys"
proof (induction "2 * length xs + (if wp_state p = S_PAYLOAD then 1 else 0)" arbitrary: p u xs rule: less_induct)
  case less
  define rem where "rem = unat (wp_bytes_remaining p)"
  have nil: ?case if "ys = [] \<or> xs = []"
    using that by (auto simp: ws_continue_def WS_OK_def split: prod.splits)
  have head: ?case if "xs = b # bs" "wp_state p \<noteq> S_PAYLOAD" for b bs
  proof -
    have "ws_parser_execute cb p1 u1 (bs @ ys) = ws_continue cb (ws_parser_execute cb p1 u1 bs) ys" for p1 u1
      by (rule less) (simp add: that)
    then show ?thesis using that by (simp add: execute_header ws_continue_assoc)
  qed
  have within: ?case if st: "wp_state p = S_PAYLOAD" and ne: "xs \<noteq> []" and le: "rem \<le> length xs"
  proof (rule execute_append_within [OF st ne, folded rem_def, OF le])
    fix bytes p1 u1 assume p: "ws_payload cb p u (take rem xs) = (bytes, p1, u1, 0)"
    have "2 * length (drop rem xs) + (if wp_state p1 = S_PAYLOAD then 1 else 0) <
        2 * length xs + (if wp_state p = S_PAYLOAD then 1 else 0)"
    proof (cases "rem = 0")
      case True
      then have "wp_state p1 = S_OPCODE"
        using p ws_payload_empty [of cb p u bytes p1 u1 0] by (simp add: rem_def unat_eq_zero)
      with st True show ?thesis by simp
    next
      case False
      then show ?thesis using le ne by (cases xs) (simp_all, arith)
    qed
    then show "ws_parser_execute cb p1 u1 (drop rem xs @ ys) = ws_continue cb (ws_parser_execute cb p1 u1 (drop rem xs)) ys"
      by (rule less)
  qed
  have across: ?case if "wp_state p = S_PAYLOAD" "xs \<noteq> []" "ys \<noteq> []" "\<not> rem \<le> length xs"
    by (rule execute_append_across) (use assms that in \<open>simp_all add: rem_def\<close>)
  show ?case using nil head within across by (cases xs) blast+
qed

section \<open>A stream of buffers\<close>

fun ws_run :: "'u ws_parser_callbacks_t \<Rightarrow> ws_parser_t \<Rightarrow> 'u \<Rightarrow> byte list list \<Rightarrow> ws_parser_t \<times> 'u \<times> int" where
  "ws_run cb p u [] = (p, u, WS_OK)"
| "ws_run cb p u (b # bs) = (case ws_parser_execute cb p u b of (p1, u1, _, rc) \<Rightarrow>
     if rc \<noteq> 0 then (p1, u1, rc) else ws_run cb p1 u1 bs)"

definition ws_result :: "ws_parser_t \<times> 'u \<times> byte list \<times> int \<Rightarrow> ws_parser_t \<times> 'u \<times> int" where
  "ws_result r = (case r of (p, u, _, rc) \<Rightarrow> (p, u, rc))"

lemma ws_run_concat: "ws_piecewise cb \<Longrightarrow> ws_run cb p u bs = ws_result (ws_parser_execute cb p u (concat bs))"
proof (induction bs arbitrary: p u)
  case Nil
  then show ?case by (simp add: ws_result_def)
next
  case (Cons b bs)
  then show ?case by (auto simp: execute_append ws_continue_def ws_result_def split: prod.splits)
qed

end
