(* ===== verification/WebsocketProps.thy ===== *)
theory WebsocketProps
  imports Websocket WsParserProps
begin

text \<open>
  What \<open>encodeFrame\<close> stores, what the parser makes of it, and what a connection does with the frames it receives.
\<close>

unbundle bit_operations_syntax

section \<open>The bytes of a frame\<close>

definition ws_mask_with :: "byte list \<Rightarrow> nat \<Rightarrow> byte list \<Rightarrow> byte list" where
  "ws_mask_with key x ds = map (\<lambda>i. ds ! i XOR key ! ((x + i) mod 4)) [0..<length ds]"

lemma ws_mask_with_simps [simp]:
  "ws_mask_with key x [] = []"
  "ws_mask_with key x (d # ds) = (d XOR key ! (x mod 4)) # ws_mask_with key (x + 1) ds"
  by (auto simp: ws_mask_with_def upt_conv_Cons map_Suc_upt [symmetric] simp del: upt_Suc)

lemma length_ws_mask_with [simp]: "length (ws_mask_with key x ds) = length ds"
  by (simp add: ws_mask_with_def)

lemma ws_unmask_mask: "fst (ws_unmask key (x mod 4) (ws_mask_with key x ds)) = ds"
proof (induction ds arbitrary: x)
  case (Cons d ds)
  have "(x mod 4 + 1) mod 4 = (x + 1) mod 4" by (simp add: mod_Suc_eq)
  then show ?case using Cons [of "x + 1"] by (auto simp: xor.assoc split: prod.splits)
qed simp

definition ws_first_byte :: "ws_frame_type_t \<Rightarrow> bool \<Rightarrow> byte" where
  "ws_first_byte t fin = ((if fin then 0x80 else 0) OR ws_frame_code t)"

definition ws_second_byte :: "nat \<Rightarrow> bool \<Rightarrow> byte" where
  "ws_second_byte n m = ((if m then 0x80 else 0) OR (if n < 126 then of_nat n else 126))"

definition ws_frame :: "byte list \<Rightarrow> ws_frame_type_t \<Rightarrow> byte list \<Rightarrow> bool \<Rightarrow> bool \<Rightarrow> byte list" where
  "ws_frame key t ds m fin =
     [ws_first_byte t fin, ws_second_byte (length ds) m] @
     (if length ds < 126 then [] else [of_nat (length ds div 256), of_nat (length ds)]) @
     (if m then key @ ws_mask_with key 0 ds else ds)"

lemma encode_masked_append:
  "length pre = i \<Longrightarrow> length xs = length ds \<Longrightarrow>
    encode_masked (pre @ xs @ r) i key x ds = Some (pre @ ws_mask_with key x ds @ r)"
proof (induction ds arbitrary: pre i xs x)
  case (Cons d ds)
  then obtain y ys where xs: "xs = y # ys" by (cases xs) auto
  show ?case
    using Cons.prems Cons.IH [of "pre @ [d XOR key ! (x mod 4)]" "i + 1" ys "x + 1"] wr_at [OF Cons.prems(1), of y "ys @ r"]
    by (simp add: xs)
qed simp

lemma wr_header:
  "wr (a # r) 0 v = Some (v # r)" "wr (a # b # r) (Suc 0) v = Some (a # v # r)"
  "wr (a # b # c # r) 2 v = Some (a # b # v # r)" "wr (a # b # c # d # r) 3 v = Some (a # b # c # v # r)"
  by (simp_all add: wr_def numeral_eq_Suc)

lemma wrn_header:
  "length xs = length ys \<Longrightarrow> wrn (a # b # xs @ r) 2 ys = Some (a # b # ys @ r)"
  "length xs = length ys \<Longrightarrow> wrn (a # b # c # d # xs @ r) 4 ys = Some (a # b # c # d # ys @ r)"
  using wrn_append [of "[a, b]" 2 xs ys r] wrn_append [of "[a, b, c, d]" 4 xs ys r] by simp_all

lemma wrn_key:
  "length key = 4 \<Longrightarrow> wrn (a # b # x # y # z # w # r) 2 key = Some (a # b # key @ r)"
  "length key = 4 \<Longrightarrow> wrn (a # b # c # d # x # y # z # w # r) 4 key = Some (a # b # c # d # key @ r)"
  using wrn_header(1) [of "[x, y, z, w]" key a b r] wrn_header(2) [of "[x, y, z, w]" key a b c d r] by simp_all

lemma replicate_header:
  "replicate 2 (0::byte) = [0, 0]" "replicate 4 (0::byte) = [0, 0, 0, 0]"
  "replicate 6 (0::byte) = [0, 0] @ replicate 4 0" "replicate 8 (0::byte) = [0, 0, 0, 0] @ replicate 4 0"
  by (simp_all add: numeral_eq_Suc)

text \<open>\<open>encodeFrame\<close> with enough room stores the frame and keeps the rest of the block.\<close>

lemma encodeFrame_spec:
  assumes "length ds \<le> 0xFFFF" and "length key = 4" and "length out = outLength" and "length (ws_frame key t ds m fin) \<le> outLength"
  shows "encodeFrame key t ds out outLength m fin =
    Some (ws_frame key t ds m fin @ drop (length (ws_frame key t ds m fin)) out, length (ws_frame key t ds m fin))"
proof -
  define hl where "hl = (if 125 < length ds then 4 else 2) + (if m then 4 else 0 :: nat)"
  have fl: "length (ws_frame key t ds m fin) = hl + length ds" using assms(2) by (simp add: ws_frame_def hl_def)
  define body where "body = take (length ds) (drop hl out)"
  define r where "r = drop (hl + length ds) out"
  have lb: "length body = length ds" using assms(3,4) fl by (simp add: body_def)
  have "take hl out @ drop hl out = out" by simp
  moreover have "drop hl out = body @ r" unfolding body_def r_def by (metis append_take_drop_id drop_drop add.commute)
  ultimately have out: "out = take hl out @ body @ r" by simp
  have lh: "length (take hl out) = hl" using assms(3,4) fl by simp
  have z: "wrn out 0 (replicate hl 0) = Some (replicate hl 0 @ body @ r)"
    using wrn_append [of "[]" 0 "take hl out" "replicate hl 0" "body @ r"] out lh by simp
  have big: "\<not> 0xFFFF < length ds" "\<not> outLength < hl + length ds" using assms(1,4) fl by simp_all
  note store = wr_header wrn_header wrn_key replicate_header(3,4)
    encode_masked_append [of "[_, _] @ key" 6, OF _ lb, where r = r, simplified append_Cons append_Nil append_assoc]
    encode_masked_append [of "[_, _, _, _] @ key" 8, OF _ lb, where r = r, simplified append_Cons append_Nil append_assoc]
  have "encodeFrame key t ds out outLength m fin = Some (ws_frame key t ds m fin @ r, length (ws_frame key t ds m fin))"
  proof (cases "length ds < 126")
    case True
    then have hl: "hl = (if m then 6 else 2)" by (simp add: hl_def)
    show ?thesis
      unfolding encodeFrame_def Let_def hl_def [symmetric] z using True big hl assms(2) lb
      by (cases m) (simp_all add: store replicate_header(1) ws_frame_def ws_first_byte_def ws_second_byte_def)
  next
    case False
    then have hl: "hl = (if m then 8 else 4)" by (simp add: hl_def)
    show ?thesis
      unfolding encodeFrame_def Let_def hl_def [symmetric] z using False big hl assms(2) lb
      by (cases m) (simp_all add: store replicate_header(2) ws_frame_def ws_first_byte_def ws_second_byte_def)
  qed
  then show ?thesis by (simp add: fl r_def)
qed

section \<open>Parsing a frame\<close>

lemma first_byte_bits:
  "ws_first_byte t fin AND 0x70 = 0" "ws_first_byte t fin AND 0x0f = ws_frame_code t" "bit (ws_first_byte t fin) 7 = fin"
  by (cases t; cases fin; simp add: ws_first_byte_def bit_word_iff_drop_bit_and)+

lemma second_byte_bits:
  assumes "n \<le> 0xFFFF"
  shows "ws_second_byte n m AND 0x7f = (if n < 126 then of_nat n else 126)" and "bit (ws_second_byte n m) 7 = m"
proof -
  have m7: "x AND 0x7f = take_bit 7 x" for x :: byte
    by (simp add: take_bit_eq_mask mask_numeral)
  have "take_bit 7 (of_nat n :: byte) = of_nat n" if "n < 126"
    using that by (simp add: take_bit_of_nat take_bit_nat_eq_self)
  then show "ws_second_byte n m AND 0x7f = (if n < 126 then of_nat n else 126)"
    by (simp add: ws_second_byte_def m7 take_bit_or)
  have "\<not> bit n 7" if "n < 126" using that by (simp add: bit_iff_odd)
  then show "bit (ws_second_byte n m) 7 = m"
    by (simp add: ws_second_byte_def bit_simps)
qed

definition ws_is_control :: "ws_frame_type_t \<Rightarrow> bool" where
  "ws_is_control t = (t \<noteq> WS_FRAME_TEXT \<and> t \<noteq> WS_FRAME_BINARY)"

text \<open>Callbacks that never report an error, and the effect of a frame on the state behind them.\<close>

definition ws_no_errors :: "'u ws_parser_callbacks_t \<Rightarrow> bool" where
  "ws_no_errors cb =
     ((\<forall>t u. snd (on_data_begin cb t u) = 0) \<and> (\<forall>ds u. snd (on_data_payload cb ds u) = 0) \<and>
      (\<forall>u. snd (on_data_end cb u) = 0) \<and> (\<forall>t u. snd (on_control_begin cb t u) = 0) \<and>
      (\<forall>ds u. snd (on_control_payload cb ds u) = 0) \<and> (\<forall>u. snd (on_control_end cb u) = 0))"

definition ws_begin_effect :: "'u ws_parser_callbacks_t \<Rightarrow> ws_frame_type_t \<Rightarrow> 'u \<Rightarrow> 'u" where
  "ws_begin_effect cb t u = fst (if ws_is_control t then on_control_begin cb t u else on_data_begin cb t u)"

definition ws_payload_effect :: "'u ws_parser_callbacks_t \<Rightarrow> ws_frame_type_t \<Rightarrow> byte list \<Rightarrow> 'u \<Rightarrow> 'u" where
  "ws_payload_effect cb t ds u =
     (if ds = [] then u else fst (if ws_is_control t then on_control_payload cb ds u else on_data_payload cb ds u))"

definition ws_end_effect :: "'u ws_parser_callbacks_t \<Rightarrow> ws_frame_type_t \<Rightarrow> bool \<Rightarrow> 'u \<Rightarrow> 'u" where
  "ws_end_effect cb t fin u =
     (if ws_is_control t then fst (on_control_end cb u) else if fin then fst (on_data_end cb u) else u)"

definition ws_frame_effect :: "'u ws_parser_callbacks_t \<Rightarrow> ws_frame_type_t \<Rightarrow> byte list \<Rightarrow> bool \<Rightarrow> 'u \<Rightarrow> 'u" where
  "ws_frame_effect cb t ds fin u = ws_end_effect cb t fin (ws_payload_effect cb t ds (ws_begin_effect cb t u))"

lemma ws_no_errors_simps:
  assumes "ws_no_errors cb"
  shows "on_data_begin cb t u = (fst (on_data_begin cb t u), 0)" "on_data_payload cb ds u = (fst (on_data_payload cb ds u), 0)"
    "on_data_end cb u = (fst (on_data_end cb u), 0)" "on_control_begin cb t u = (fst (on_control_begin cb t u), 0)"
    "on_control_payload cb ds u = (fst (on_control_payload cb ds u), 0)" "on_control_end cb u = (fst (on_control_end cb u), 0)"
  using assms by (simp_all add: ws_no_errors_def prod_eq_iff)

lemma opcode_step:
  assumes "ws_no_errors cb" and "wp_state p = S_OPCODE" and "ws_is_control t \<Longrightarrow> fin"
  shows "ws_header_byte cb p u (ws_first_byte t fin) =
    (p\<lparr>wp_fin := fin, wp_control := ws_is_control t, wp_fragment := (if ws_is_control t then wp_fragment p else \<not> fin),
       wp_state := S_LENGTH\<rparr>, ws_begin_effect cb t u, WS_OK)"
proof -
  have b: "bit (1::8 word) 3 = False" "bit (2::8 word) 3 = False" "bit (8::8 word) 3" "bit (9::8 word) 3" "bit (10::8 word) 3"
    by (simp_all add: bit_word_iff_drop_bit_and)
  obtain v1 v2 where v: "on_data_begin cb t u = (v1, 0)" "on_control_begin cb t u = (v2, 0)"
    using ws_no_errors_simps(1,4) [OF assms(1), of t u] by blast
  show ?thesis
    using assms(2,3) v
    by (cases t)
       (simp_all add: ws_header_byte_def ws_opcode_byte_def first_byte_bits ws_control_type_def ws_data_type_def
          ws_then_state_def ws_begin_effect_def ws_is_control_def Let_def b)
qed

text \<open>The rest of the header: the parser behind it waits for the payload, or the frame is complete.\<close>

definition ws_expect :: "ws_parser_t \<Rightarrow> byte list \<Rightarrow> nat \<Rightarrow> bool \<Rightarrow> ws_parser_t" where
  "ws_expect p key n m =
     p\<lparr>wp_mask_flag := m, wp_mask_pos := 0, wp_bytes_remaining := of_nat n,
       wp_mask := (if m then key else wp_mask p), wp_state := S_PAYLOAD\<rparr>"

definition ws_header_rest :: "byte list \<Rightarrow> nat \<Rightarrow> bool \<Rightarrow> byte list" where
  "ws_header_rest key n m =
     ws_second_byte n m # (if n < 126 then [] else [of_nat (n div 256), of_nat n]) @ (if m then key else [])"

definition ws_end_result ::
  "'u ws_parser_callbacks_t \<Rightarrow> ws_parser_t \<Rightarrow> 'u \<Rightarrow> byte list \<Rightarrow> ws_parser_t \<times> 'u \<times> byte list \<times> int" where
  "ws_end_result cb p u bs = (case ws_end_of_payload cb p u of (p1, u1, rc) \<Rightarrow> (p1, u1, bs, rc))"

lemma execute_step:
  "wp_state p \<noteq> S_PAYLOAD \<Longrightarrow> ws_header_byte cb p u b = (p1, u1, WS_OK) \<Longrightarrow>
    ws_parser_execute cb p u (b # bs) = (case ws_parser_execute cb p1 u1 bs of (p2, u2, b2, rc) \<Rightarrow> (p2, u2, b # b2, rc))"
  by (simp add: execute_header ws_continue_def WS_OK_def)

lemma ws_continue_ok:
  "ws_continue cb (p, u, b, WS_OK) ys = (case ws_parser_execute cb p u ys of (p1, u1, b1, rc) \<Rightarrow> (p1, u1, b @ b1, rc))"
  by (simp add: ws_continue_def WS_OK_def)

lemma mask_bytes:
  assumes "wp_state p = S_MASK_0" and "length (wp_mask p) = 4"
  shows "ws_parser_execute cb p u ([k0, k1, k2, k3] @ bs) =
    (let p1 = p\<lparr>wp_mask := [k0, k1, k2, k3], wp_state := S_PAYLOAD\<rparr> in
     ws_continue cb (if wp_bytes_remaining p = 0 then ws_end_result cb p1 u [k0, k1, k2, k3] else (p1, u, [k0, k1, k2, k3], WS_OK)) bs)"
proof -
  obtain m0 m1 m2 m3 where m: "wp_mask p = [m0, m1, m2, m3]" using assms(2) by (auto simp: numeral_eq_Suc length_Suc_conv)
  define p1 where "p1 = p\<lparr>wp_mask := [k0, m1, m2, m3], wp_state := S_MASK_1\<rparr>"
  define p2 where "p2 = p\<lparr>wp_mask := [k0, k1, m2, m3], wp_state := S_MASK_2\<rparr>"
  define p3 where "p3 = p\<lparr>wp_mask := [k0, k1, k2, m3], wp_state := S_MASK_3\<rparr>"
  define p4 where "p4 = p\<lparr>wp_mask := [k0, k1, k2, k3], wp_state := S_PAYLOAD\<rparr>"
  have "ws_header_byte cb p u k0 = (p1, u, WS_OK)" "ws_header_byte cb p1 u k1 = (p2, u, WS_OK)"
      "ws_header_byte cb p2 u k2 = (p3, u, WS_OK)"
    using assms(1) by (simp_all add: ws_header_byte_def ws_mask_byte_def m p1_def p2_def p3_def numeral_eq_Suc)
  moreover have "ws_header_byte cb p3 u k3 = (if wp_bytes_remaining p = 0 then ws_end_of_payload cb p4 u else (p4, u, WS_OK))"
    by (simp add: ws_header_byte_def ws_mask_byte_def p3_def p4_def numeral_eq_Suc Let_def)
  moreover have "wp_state p1 \<noteq> S_PAYLOAD" "wp_state p2 \<noteq> S_PAYLOAD" "wp_state p3 \<noteq> S_PAYLOAD"
    by (simp_all add: p1_def p2_def p3_def)
  ultimately show ?thesis
    using assms(1) unfolding p4_def [symmetric]
    by (simp add: execute_step execute_header Let_def ws_continue_def ws_end_result_def split: prod.splits)
qed

lemma length16_word:
  assumes "n \<le> 0xFFFF"
  shows "push_bit 8 (ucast (of_nat (n div 256) :: byte)) OR push_bit 0 (ucast (of_nat n :: byte)) = (of_nat n :: 64 word)"
proof (rule bit_word_eqI)
  fix k assume "k < LENGTH(64)"
  have hi: "\<not> bit n k" if "16 \<le> k"
  proof -
    have "(2::nat) ^ 16 \<le> 2 ^ k" using that by (rule power_increasing) simp
    then have "n < 2 ^ k" using assms by simp
    then show ?thesis by (simp add: bit_iff_odd)
  qed
  have d: "n div 256 = drop_bit 8 n" by (simp add: drop_bit_eq_div)
  consider "k < 8" | "8 \<le> k" "k < 16" | "16 \<le> k" by linarith
  then show "bit (push_bit 8 (ucast (of_nat (n div 256) :: byte)) OR push_bit 0 (ucast (of_nat n :: byte)) :: 64 word) k =
      bit (of_nat n :: 64 word) k"
  proof cases
    case 3
    then have "\<not> k - 8 < 8" by simp
    with 3 hi show ?thesis by (simp add: d bit_simps)
  qed (simp_all add: d bit_simps less_diff_conv2)
qed

lemma small_words:
  assumes "n \<le> 0xFFFF"
  shows "unat (of_nat n :: 64 word) = n" and "(of_nat n :: 64 word) = 0 \<longleftrightarrow> n = 0" and "(of_nat n :: 64 word) < 126 \<longleftrightarrow> n < 126"
proof -
  show u: "unat (of_nat n :: 64 word) = n" using assms by (simp add: unat_of_nat)
  show "(of_nat n :: 64 word) = 0 \<longleftrightarrow> n = 0"
  proof
    assume z: "(of_nat n :: 64 word) = 0"
    show "n = 0" using u unfolding z by simp
  qed simp
  show "(of_nat n :: 64 word) < 126 \<longleftrightarrow> n < 126" by (simp only: word_less_nat_alt u) simp
qed

lemma short_length_words:
  assumes "n < 126"
  shows "(of_nat n :: byte) < 126" and "\<not> 125 < (of_nat n :: byte)" and "ucast (of_nat n :: byte) = (of_nat n :: 64 word)"
proof -
  have u: "unat (of_nat n :: byte) = n" using assms by (simp add: unat_of_nat)
  show "(of_nat n :: byte) < 126" "\<not> 125 < (of_nat n :: byte)" using assms by (simp_all add: word_less_nat_alt u)
  show "ucast (of_nat n :: byte) = (of_nat n :: 64 word)"
    using assms by (simp add: unsigned_of_nat take_bit_nat_eq_self)
qed

definition ws_sized :: "ws_parser_t \<Rightarrow> nat \<Rightarrow> bool \<Rightarrow> ws_parser_t" where
  "ws_sized p n m = p\<lparr>wp_mask_flag := m, wp_mask_pos := 0, wp_bytes_remaining := of_nat n,
     wp_state := (if m then S_MASK_0 else S_PAYLOAD)\<rparr>"

definition ws_length_bytes :: "nat \<Rightarrow> bool \<Rightarrow> byte list" where
  "ws_length_bytes n m = ws_second_byte n m # (if n < 126 then [] else [of_nat (n div 256), of_nat n])"

lemma length_bytes_execute:
  assumes "wp_state p = S_LENGTH" and "n \<le> 0xFFFF" and "wp_control p \<Longrightarrow> n \<le> 125"
  shows "ws_parser_execute cb p u (ws_length_bytes n m @ bs) =
    ws_continue cb (if \<not> m \<and> n = 0 then ws_end_result cb (ws_sized p n m) u (ws_length_bytes n m)
      else (ws_sized p n m, u, ws_length_bytes n m, WS_OK)) bs"
proof (cases "n < 126")
  case True
  have "ws_header_byte cb p u (ws_second_byte n m) =
      (if \<not> m \<and> n = 0 then ws_end_of_payload cb (ws_sized p n m) u else (ws_sized p n m, u, WS_OK))"
    using assms(1) True short_length_words [OF True] small_words(2) [OF assms(2)]
    by (auto simp: ws_header_byte_def ws_length_byte_def second_byte_bits [OF assms(2)] ws_after_length_def ws_sized_def Let_def)
  then show ?thesis
    using True assms(1) by (simp add: ws_length_bytes_def execute_header ws_end_result_def split: prod.splits)
next
  case False
  define p1 where "p1 = p\<lparr>wp_mask_flag := m, wp_mask_pos := 0, wp_state := S_LENGTH_16_0\<rparr>"
  define p2 where "p2 = p1\<lparr>wp_bytes_remaining := push_bit 8 (ucast (of_nat (n div 256) :: byte)), wp_state := S_LENGTH_16_1\<rparr>"
  have s: "ws_header_byte cb p u (ws_second_byte n m) = (p1, u, WS_OK)"
      "ws_header_byte cb p1 u (of_nat (n div 256)) = (p2, u, WS_OK)"
    using False assms(1,3)
    by (auto simp: ws_header_byte_def ws_length_byte_def second_byte_bits [OF assms(2)] ws_length_more_def p1_def p2_def Let_def)
  have t: "ws_header_byte cb p2 u (of_nat n) = (ws_sized p n m, u, WS_OK)"
    using False length16_word [OF assms(2)] small_words(3) [OF assms(2)]
    by (simp add: ws_header_byte_def ws_length_last_def ws_length_more_def ws_after_length_def ws_sized_def p1_def p2_def Let_def)
  have "wp_state p1 \<noteq> S_PAYLOAD" "wp_state p2 \<noteq> S_PAYLOAD" by (simp_all add: p1_def p2_def)
  with s t show ?thesis
    using False assms(1)
    by (simp add: ws_length_bytes_def execute_step ws_continue_ok split: prod.splits)
qed

lemma header_rest_execute:
  assumes "wp_state p = S_LENGTH" and "length (wp_mask p) = 4" and "length key = 4" and "n \<le> 0xFFFF" and "wp_control p \<Longrightarrow> n \<le> 125"
  shows "ws_parser_execute cb p u (ws_header_rest key n m @ bs) =
    ws_continue cb (if n = 0 then ws_end_result cb (ws_expect p key n m) u (ws_header_rest key n m)
      else (ws_expect p key n m, u, ws_header_rest key n m, WS_OK)) bs"
proof (cases m)
  case False
  have "ws_expect p key n m = ws_sized p n m" "ws_header_rest key n m = ws_length_bytes n m"
    using False by (simp_all add: ws_expect_def ws_sized_def ws_header_rest_def ws_length_bytes_def)
  then show ?thesis
    using length_bytes_execute [OF assms(1,4,5), of cb u m bs] False by (simp only: simp_thms)
next
  case True
  obtain k0 k1 k2 k3 where key: "key = [k0, k1, k2, k3]" using assms(3) by (auto simp: numeral_eq_Suc length_Suc_conv)
  have "ws_expect p key n m = (ws_sized p n m)\<lparr>wp_mask := key, wp_state := S_PAYLOAD\<rparr>"
    using True by (simp add: ws_expect_def ws_sized_def)
  moreover have "ws_header_rest key n m @ bs = ws_length_bytes n m @ key @ bs"
    using True by (simp add: ws_header_rest_def ws_length_bytes_def)
  moreover have "wp_state (ws_sized p n m) = S_MASK_0" "length (wp_mask (ws_sized p n m)) = 4"
      "wp_bytes_remaining (ws_sized p n m) = of_nat n"
    using True assms(2) by (simp_all add: ws_sized_def)
  ultimately show ?thesis
    using mask_bytes [of "ws_sized p n m" cb u k0 k1 k2 k3 bs] length_bytes_execute [OF assms(1,4,5), of cb u m "key @ bs"]
      True small_words(2) [OF assms(4)]
    by (auto simp: key ws_continue_def WS_OK_def ws_end_result_def ws_header_rest_def ws_length_bytes_def Let_def split: prod.splits)
qed

lemma end_of_payload_effect:
  assumes "ws_no_errors cb" and "wp_control p = ws_is_control t" and "wp_fin p = fin"
  shows "ws_end_of_payload cb p u = (p\<lparr>wp_state := S_OPCODE\<rparr>, ws_end_effect cb t fin u, WS_OK)"
proof -
  obtain v1 v2 where "on_data_end cb u = (v1, 0)" "on_control_end cb u = (v2, 0)"
    using ws_no_errors_simps(3,6) [OF assms(1), of u] by blast
  then show ?thesis using assms(2,3) by (simp add: ws_end_of_payload_def ws_then_state_def ws_end_effect_def)
qed

lemma payload_effect:
  assumes "ws_no_errors cb" and "wp_state p = S_PAYLOAD" and "wp_bytes_remaining p = of_nat (length ds)"
    and "wp_mask_pos p = 0" and "wp_control p = ws_is_control t" and "wp_fin p = fin" and "length ds \<le> 0xFFFF" and "ds \<noteq> []"
    and "data = (if wp_mask_flag p then ws_mask_with (wp_mask p) 0 ds else ds)"
  shows "\<exists>p1. wp_state p1 = S_OPCODE \<and> wp_mask p1 = wp_mask p \<and> (\<forall>bs. ws_parser_execute cb p u (data @ bs) =
    ws_continue cb (p1, ws_end_effect cb t fin (ws_payload_effect cb t ds u), ds, WS_OK) bs)"
proof -
  let ?r = "if wp_mask_flag p then ws_unmask (wp_mask p) (wp_mask_pos p) data else (data, wp_mask_pos p)"
  have "fst ?r = ds" using assms(4,9) ws_unmask_mask [of "wp_mask p" 0 ds] by simp
  then obtain pos where pos: "?r = (ds, pos)" by (cases ?r) simp
  have l: "length data = length ds" using assms(9) by simp
  obtain v1 v2 where v: "on_data_payload cb ds u = (v1, 0)" "on_control_payload cb ds u = (v2, 0)"
    using ws_no_errors_simps(2,5) [OF assms(1), of ds u] by blast
  define p1 where "p1 = p\<lparr>wp_mask_pos := pos, wp_bytes_remaining := 0\<rparr>"
  have "ws_payload cb p u data = (ds, ws_end_of_payload cb p1 (ws_payload_effect cb t ds u))"
    using v assms(3,5,8) unfolding ws_payload_def pos by (simp add: l p1_def ws_payload_effect_def Let_def)
  also have "\<dots> = (ds, p1\<lparr>wp_state := S_OPCODE\<rparr>, ws_end_effect cb t fin (ws_payload_effect cb t ds u), WS_OK)"
    by (subst end_of_payload_effect [OF assms(1), where t = t and fin = fin]) (simp_all add: p1_def assms(5,6))
  finally have pl: "ws_payload cb p u data = \<dots>" .
  have n: "length ds = min (length (data @ bs)) (unat (wp_bytes_remaining p))" for bs
    using small_words(1) [OF assms(7)] by (simp add: l assms(3))
  have "data @ bs \<noteq> []" for bs using l assms(8) by auto
  from execute_payload [OF assms(2) this n, of cb u] show ?thesis
    using pl l by (intro exI [of _ "p1\<lparr>wp_state := S_OPCODE\<rparr>"]) (simp add: p1_def)
qed

lemma ws_frame_parts:
  "ws_frame key t ds m fin = ws_first_byte t fin # ws_header_rest key (length ds) m @ (if m then ws_mask_with key 0 ds else ds)"
  by (simp add: ws_frame_def ws_header_rest_def)

lemma frame_execute:
  assumes cb: "ws_no_errors cb" and st: "wp_state p = S_OPCODE" and lm: "length (wp_mask p) = 4" and lk: "length key = 4"
    and ld: "length ds \<le> 0xFFFF" and ctl: "ws_is_control t \<Longrightarrow> fin \<and> length ds \<le> 125"
  shows "\<exists>p1 b. wp_state p1 = S_OPCODE \<and> length (wp_mask p1) = 4 \<and>
    (\<forall>bs. ws_parser_execute cb p u (ws_frame key t ds m fin @ bs) = ws_continue cb (p1, ws_frame_effect cb t ds fin u, b, WS_OK) bs)"
proof -
  define p0 where "p0 = p\<lparr>wp_fin := fin, wp_control := ws_is_control t,
    wp_fragment := (if ws_is_control t then wp_fragment p else \<not> fin), wp_state := S_LENGTH\<rparr>"
  define u0 where "u0 = ws_begin_effect cb t u"
  define data where "data = (if m then ws_mask_with key 0 ds else ds)"
  define p1 where "p1 = ws_expect p0 key (length ds) m"
  have "ws_header_byte cb p u (ws_first_byte t fin) = (p0, u0, WS_OK)"
    using opcode_step [OF cb st] ctl by (simp add: p0_def u0_def)
  then have e0: "ws_parser_execute cb p u (ws_frame key t ds m fin @ bs) =
      ws_continue cb (p0, u0, [ws_first_byte t fin], WS_OK) (ws_header_rest key (length ds) m @ data @ bs)" for bs
    using st by (simp add: ws_frame_parts execute_header data_def)
  have e1: "ws_parser_execute cb p0 u0 (ws_header_rest key (length ds) m @ data @ bs) =
      ws_continue cb (if length ds = 0 then ws_end_result cb p1 u0 (ws_header_rest key (length ds) m)
        else (p1, u0, ws_header_rest key (length ds) m, WS_OK)) (data @ bs)" for bs
    unfolding p1_def by (rule header_rest_execute) (use lm lk ld ctl in \<open>simp_all add: p0_def\<close>)
  have p1: "wp_control p1 = ws_is_control t" "wp_fin p1 = fin" "wp_state p1 = S_PAYLOAD" "wp_mask_flag p1 = m"
      "wp_mask_pos p1 = 0" "wp_bytes_remaining p1 = of_nat (length ds)" "length (wp_mask p1) = 4" "m \<Longrightarrow> wp_mask p1 = key"
    using lm lk by (simp_all add: p1_def p0_def ws_expect_def)
  show ?thesis
  proof (cases "ds = []")
    case True
    then have "ws_end_result cb p1 u0 b = (p1\<lparr>wp_state := S_OPCODE\<rparr>, ws_frame_effect cb t ds fin u, b, WS_OK)" for b
      by (simp add: ws_end_result_def end_of_payload_effect [OF cb p1(1,2)] ws_frame_effect_def ws_payload_effect_def u0_def)
    then show ?thesis
      unfolding e0 using e1 True p1(7)
      by (intro exI [of _ "p1\<lparr>wp_state := S_OPCODE\<rparr>"] exI [of _ "ws_first_byte t fin # ws_header_rest key 0 m"])
         (auto simp: ws_continue_ok data_def split: prod.splits)
  next
    case False
    have "data = (if wp_mask_flag p1 then ws_mask_with (wp_mask p1) 0 ds else ds)" using p1(4,8) by (simp add: data_def)
    from payload_effect [OF cb p1(3,6,5,1,2) ld False this, of u0] obtain p2 where
      p2: "wp_state p2 = S_OPCODE" "wp_mask p2 = wp_mask p1" "\<And>bs. ws_parser_execute cb p1 u0 (data @ bs) =
        ws_continue cb (p2, ws_frame_effect cb t ds fin u, ds, WS_OK) bs"
      by (auto simp: ws_frame_effect_def u0_def)
    show ?thesis
      unfolding e0 using e1 p2 False p1(7)
      by (intro exI [of _ p2] exI [of _ "ws_first_byte t fin # ws_header_rest key (length ds) m @ ds"])
         (auto simp: ws_continue_ok split: prod.splits)
  qed
qed

section \<open>Sending and receiving\<close>

lemma next_mask_length [simp]: "length (next_mask os_random c) = 4"
  by (simp add: next_mask_def)

lemma send_frame:
  assumes "wc_connection c" and "wc_activated c" and "length ds \<le> 0xFFFF"
  shows "WebsocketConnection_send os_random ds t c =
    c\<lparr>wc_sent := wc_sent c @ [ws_frame (next_mask os_random c) t ds (wc_isClientConnection c) True],
      wc_randoms := wc_randoms c + (if wc_isClientConnection c then 4 else 0)\<rparr>"
proof -
  let ?f = "ws_frame (next_mask os_random c) t ds (wc_isClientConnection c) True"
  have l: "length ?f \<le> length ds + 1 + 4 + 4" "length ?f \<noteq> 0" by (simp_all add: ws_frame_def)
  show ?thesis
    using assms l encodeFrame_spec [OF assms(3) next_mask_length, of "replicate (length ds + 1 + 4 + 4) 0" _ os_random c t "wc_isClientConnection c" True]
    by (simp add: WebsocketConnection_send_def Let_def)
qed

definition send_all :: "(nat \<Rightarrow> byte) \<Rightarrow> (ws_frame_type_t \<times> byte list) list \<Rightarrow> 'a wsconn \<Rightarrow> 'a wsconn" where
  "send_all os_random ms c = fold (\<lambda>(t, ds). WebsocketConnection_send os_random ds t) ms c"

definition ws_message_ok :: "ws_frame_type_t \<times> byte list \<Rightarrow> bool" where
  "ws_message_ok m = (case m of (t, ds) \<Rightarrow> length ds \<le> (if ws_is_control t then 125 else 0xFFFF))"

lemma send_all_Cons: "send_all os_random ((t, ds) # ms) c = send_all os_random ms (WebsocketConnection_send os_random ds t c)"
  by (simp add: send_all_def)

text \<open>The frames that a connection adds for a list of messages, and their effect on a parser.\<close>

lemma send_all_execute:
  assumes "ws_no_errors cb" and "\<forall>m\<in>set ms. ws_message_ok m" and "wc_connection c" and "wc_activated c"
    and "wp_state p = S_OPCODE" and "length (wp_mask p) = 4"
  shows "\<exists>fs p1 b. wc_sent (send_all os_random ms c) = wc_sent c @ fs \<and> wc_fault (send_all os_random ms c) = wc_fault c \<and>
    wp_state p1 = S_OPCODE \<and> length (wp_mask p1) = 4 \<and>
    ws_parser_execute cb p u (concat fs) = (p1, fold (\<lambda>(t, ds). ws_frame_effect cb t ds True) ms u, b, WS_OK)"
  using assms(2-6)
proof (induction ms arbitrary: c p u)
  case Nil
  then show ?case by (simp add: send_all_def)
next
  case (Cons m ms)
  obtain t ds where m: "m = (t, ds)" by (cases m)
  have ld: "length ds \<le> 0xFFFF" and lc: "ws_is_control t \<Longrightarrow> True \<and> length ds \<le> 125"
    using Cons.prems(1) by (auto simp: ws_message_ok_def m split: if_splits)
  define f where "f = ws_frame (next_mask os_random c) t ds (wc_isClientConnection c) True"
  define c1 where "c1 = WebsocketConnection_send os_random ds t c"
  have c1: "c1 = c\<lparr>wc_sent := wc_sent c @ [f], wc_randoms := wc_randoms c + (if wc_isClientConnection c then 4 else 0)\<rparr>"
    unfolding c1_def f_def by (rule send_frame [OF Cons.prems(2,3) ld])
  obtain p1 b where p1: "wp_state p1 = S_OPCODE" "length (wp_mask p1) = 4"
      "\<And>bs. ws_parser_execute cb p u (f @ bs) = ws_continue cb (p1, ws_frame_effect cb t ds True u, b, WS_OK) bs"
    using frame_execute [OF assms(1) Cons.prems(4,5) next_mask_length ld lc, of t u os_random c "wc_isClientConnection c"]
    unfolding f_def by blast
  obtain fs p2 b2 where "wc_sent (send_all os_random ms c1) = wc_sent c1 @ fs" "wc_fault (send_all os_random ms c1) = wc_fault c1"
      "wp_state p2 = S_OPCODE" "length (wp_mask p2) = 4" "ws_parser_execute cb p1 (ws_frame_effect cb t ds True u) (concat fs) =
        (p2, fold (\<lambda>(t, ds). ws_frame_effect cb t ds True) ms (ws_frame_effect cb t ds True u), b2, WS_OK)"
    using Cons.IH [of c1 p1 "ws_frame_effect cb t ds True u"] Cons.prems(1,2,3) p1(1,2) c1 by auto
  then show ?case
    using p1(3) [of "concat fs"] c1
    by (intro exI [of _ "f # fs"] exI [of _ p2] exI [of _ "b @ b2"])
       (simp add: m send_all_Cons c1_def [symmetric] ws_continue_ok)
qed

text \<open>Callbacks that write down what they are called with.\<close>

datatype ws_event = Begin ws_frame_type_t | Data byte | Control byte | DataEnd | ControlEnd

definition ws_recorder :: "ws_event list ws_parser_callbacks_t" where
  "ws_recorder =
     \<lparr>on_data_begin = \<lambda>t es. (es @ [Begin t], 0), on_data_payload = \<lambda>ds es. (es @ map Data ds, 0),
      on_data_end = \<lambda>es. (es @ [DataEnd], 0), on_control_begin = \<lambda>t es. (es @ [Begin t], 0),
      on_control_payload = \<lambda>ds es. (es @ map Control ds, 0), on_control_end = \<lambda>es. (es @ [ControlEnd], 0)\<rparr>"

definition ws_events :: "ws_frame_type_t \<times> byte list \<Rightarrow> ws_event list" where
  "ws_events m = (case m of (t, ds) \<Rightarrow>
     if ws_is_control t then [Begin t] @ map Control ds @ [ControlEnd] else [Begin t] @ map Data ds @ [DataEnd])"

lemma ws_recorder_ok: "ws_no_errors ws_recorder" "ws_piecewise ws_recorder"
  by (simp_all add: ws_no_errors_def ws_piecewise_def ws_recorder_def)

lemma ws_recorder_effects:
  "fold (\<lambda>(t, ds). ws_frame_effect ws_recorder t ds True) ms es = es @ concat (map ws_events ms)"
proof (induction ms arbitrary: es)
  case (Cons m ms)
  obtain t ds where m: "m = (t, ds)" by (cases m)
  have "ws_frame_effect ws_recorder t ds True es = es @ ws_events (t, ds)"
    by (simp add: ws_frame_effect_def ws_begin_effect_def ws_payload_effect_def ws_end_effect_def ws_events_def ws_recorder_def)
  then show ?case using Cons by (simp add: m)
qed simp

text \<open>An open client connection and a parser, for the instances below.\<close>

definition ws_sample :: "unit wsconn" where
  "ws_sample = \<lparr>wc_state = eWSCS_Open, wc_activated = True, wc_isClientConnection = True, wc_connection = True,
     wc_frameType = WS_FRAME_TEXT, wc_controlFrame_type = WS_FRAME_PING, wc_controlFrame_payload = None, wc_listed = True,
     wc_sent = [], wc_timeOut = None, wc_randoms = 0, wc_fault = False, wc_app = ()\<rparr>"

definition ws_sample_parser :: ws_parser_t where
  "ws_sample_parser = \<lparr>wp_bytes_remaining = 0, wp_mask = [0, 0, 0, 0], wp_fragment = False, wp_fin = False,
     wp_control = False, wp_mask_flag = False, wp_mask_pos = 0, wp_state = S_OPCODE\<rparr>"

text \<open>A continuation does not clear the flag \<open>fragment\<close>: after a message of two fragments has ended, a further
  continuation frame is accepted.\<close>

lemma ws_continuation_after_end:
  "snd (snd (ws_run ws_recorder ws_sample_parser [] [[0x01, 0x00], [0x80, 0x00], [0x80, 0x00]])) = WS_OK"
  by code_simp

section \<open>Properties\<close>



text \<open>C35: Messages travel unchanged: whatever messages a connection sends, masked (as a client) or not, the bytes handed
  to its transport, cut into segments in any way, make the parser of the receiver report exactly these messages, in
  order and complete, and return to its initial state; the frame buffer of \<open>send\<close> is never overrun.\<close>

theorem websocket_messages_delivered:
  assumes "\<forall>m\<in>set ms. ws_message_ok m" and "wc_connection c" and "wc_activated c" and "wc_sent c = []"
    and "wp_state p = S_OPCODE" and "length (wp_mask p) = 4" and "concat segments = concat (wc_sent (send_all os_random ms c))"
  shows "\<exists>p1. ws_run ws_recorder p [] segments = (p1, concat (map ws_events ms), WS_OK) \<and> wp_state p1 = S_OPCODE \<and>
    wc_fault (send_all os_random ms c) = wc_fault c"
proof -
  obtain fs p1 b where f: "wc_sent (send_all os_random ms c) = wc_sent c @ fs" "wc_fault (send_all os_random ms c) = wc_fault c"
      "wp_state p1 = S_OPCODE" "ws_parser_execute ws_recorder p [] (concat fs) =
        (p1, fold (\<lambda>(t, ds). ws_frame_effect ws_recorder t ds True) ms [], b, WS_OK)"
    using send_all_execute [OF ws_recorder_ok(1) assms(1-3,5,6), of os_random "[]"] by blast
  then show ?thesis
    using assms(4,7) by (simp add: ws_run_concat [OF ws_recorder_ok(2)] ws_result_def ws_recorder_effects)
qed

theorem websocket_messages_delivered_witness:
  "\<exists>p1. ws_run ws_recorder ws_sample_parser []
      (map (\<lambda>x. [x]) (concat (wc_sent (send_all (\<lambda>_. 7) [(WS_FRAME_TEXT, [0x61, 0x62]), (WS_FRAME_PING, [])] ws_sample)))) =
      (p1, concat (map ws_events [(WS_FRAME_TEXT, [0x61, 0x62]), (WS_FRAME_PING, [])]), WS_OK) \<and> wp_state p1 = S_OPCODE \<and>
    wc_fault (send_all (\<lambda>_. 7) [(WS_FRAME_TEXT, [0x61, 0x62]), (WS_FRAME_PING, [])] ws_sample) = wc_fault ws_sample"
  by (rule websocket_messages_delivered) (simp_all add: ws_message_ok_def ws_sample_def ws_sample_parser_def)



end
