(* ===== verification/Umm.thy ===== *)
theory Umm
  imports Prelude
begin

text \<open>
  The heap of \<open>third-party/umm_malloc/src\<close>: \<open>umm_malloc.c\<close> with best fit, \<open>umm_integrity.c\<close> and \<open>umm_info.c\<close>.

  The heap is the array of 8-byte cells (\<open>umm_block\<close>), each of four 16-bit fields; a field is a number below \<open>2\<^sup>1\<^sup>6\<close>. The
  header of a block is in its first cell; its data are the last two fields of that cell and the cells up to the next
  block. Pointers are byte offsets from the start of the heap. Every access goes through \<open>rd\<close> and \<open>wr\<close>; a loop that
  does not end is \<open>None\<close> as well.
\<close>

record umm_cell =
  nb :: nat
  pb :: nat
  nf :: nat
  pf :: nat

type_synonym umm_mem = "umm_cell list"

definition UMM_NBLOCK :: "umm_mem \<Rightarrow> nat \<Rightarrow> nat option" where "UMM_NBLOCK h b = map_option nb (rd h b)"
definition UMM_PBLOCK :: "umm_mem \<Rightarrow> nat \<Rightarrow> nat option" where "UMM_PBLOCK h b = map_option pb (rd h b)"
definition UMM_NFREE :: "umm_mem \<Rightarrow> nat \<Rightarrow> nat option" where "UMM_NFREE h b = map_option nf (rd h b)"
definition UMM_PFREE :: "umm_mem \<Rightarrow> nat \<Rightarrow> nat option" where "UMM_PFREE h b = map_option pf (rd h b)"

definition set_NBLOCK :: "umm_mem \<Rightarrow> nat \<Rightarrow> nat \<Rightarrow> umm_mem option" where
  "set_NBLOCK h b v = do { c \<leftarrow> rd h b; wr h b (c\<lparr>nb := v\<rparr>) }"

definition set_PBLOCK :: "umm_mem \<Rightarrow> nat \<Rightarrow> nat \<Rightarrow> umm_mem option" where
  "set_PBLOCK h b v = do { c \<leftarrow> rd h b; wr h b (c\<lparr>pb := v\<rparr>) }"

definition set_NFREE :: "umm_mem \<Rightarrow> nat \<Rightarrow> nat \<Rightarrow> umm_mem option" where
  "set_NFREE h b v = do { c \<leftarrow> rd h b; wr h b (c\<lparr>nf := v\<rparr>) }"

definition set_PFREE :: "umm_mem \<Rightarrow> nat \<Rightarrow> nat \<Rightarrow> umm_mem option" where
  "set_PFREE h b v = do { c \<leftarrow> rd h b; wr h b (c\<lparr>pf := v\<rparr>) }"

text \<open>The masks: \<open>x & UMM_BLOCKNO_MASK\<close>, \<open>x & UMM_FREELIST_MASK\<close> as a condition, and \<open>x | freemask\<close>.\<close>

definition blockno :: "nat \<Rightarrow> nat" where "blockno x = x mod 0x8000"
definition is_free :: "nat \<Rightarrow> bool" where "is_free x = odd (x div 0x8000)"
definition or_free :: "nat \<Rightarrow> bool \<Rightarrow> nat" where "or_free x free = (if free \<and> \<not> is_free x then x + 0x8000 else x)"

definition umm_blocks :: "nat \<Rightarrow> nat" where
  "umm_blocks sz = (if sz \<le> 4 then 1 else u16 (2 + (sz - 5) div 8))"

definition umm_split_block :: "umm_mem \<Rightarrow> nat \<Rightarrow> nat \<Rightarrow> bool \<Rightarrow> umm_mem option" where
  "umm_split_block h c blocks new_freemask = do {
     n \<leftarrow> UMM_NBLOCK h c;
     h1 \<leftarrow> set_NBLOCK h (c + blocks) (or_free (blockno n) new_freemask);
     h2 \<leftarrow> set_PBLOCK h1 (c + blocks) c;
     n2 \<leftarrow> UMM_NBLOCK h2 c;
     h3 \<leftarrow> set_PBLOCK h2 (blockno n2) (u16 (c + blocks));
     set_NBLOCK h3 c (u16 (c + blocks)) }"

definition umm_disconnect_from_free_list :: "umm_mem \<Rightarrow> nat \<Rightarrow> umm_mem option" where
  "umm_disconnect_from_free_list h c = do {
     p \<leftarrow> UMM_PFREE h c;
     n \<leftarrow> UMM_NFREE h c;
     h1 \<leftarrow> set_NFREE h p n;
     n1 \<leftarrow> UMM_NFREE h1 c;
     p1 \<leftarrow> UMM_PFREE h1 c;
     h2 \<leftarrow> set_PFREE h1 n1 p1;
     b \<leftarrow> UMM_NBLOCK h2 c;
     set_NBLOCK h2 c (blockno b) }"

definition umm_assimilate_up :: "umm_mem \<Rightarrow> nat \<Rightarrow> umm_mem option" where
  "umm_assimilate_up h c = do {
     n \<leftarrow> UMM_NBLOCK h c;
     m \<leftarrow> UMM_NBLOCK h n;
     if is_free m
     then do {
       h1 \<leftarrow> umm_disconnect_from_free_list h n;
       n1 \<leftarrow> UMM_NBLOCK h1 c;
       m1 \<leftarrow> UMM_NBLOCK h1 n1;
       h2 \<leftarrow> set_PBLOCK h1 (blockno m1) c;
       n2 \<leftarrow> UMM_NBLOCK h2 c;
       m2 \<leftarrow> UMM_NBLOCK h2 n2;
       set_NBLOCK h2 c (blockno m2) }
     else Some h }"

definition umm_assimilate_down :: "umm_mem \<Rightarrow> nat \<Rightarrow> bool \<Rightarrow> (umm_mem \<times> nat) option" where
  "umm_assimilate_down h c freemask = do {
     p \<leftarrow> UMM_PBLOCK h c;
     n \<leftarrow> UMM_NBLOCK h c;
     h1 \<leftarrow> set_NBLOCK h p (or_free n freemask);
     n1 \<leftarrow> UMM_NBLOCK h1 c;
     p1 \<leftarrow> UMM_PBLOCK h1 c;
     h2 \<leftarrow> set_PBLOCK h1 n1 p1;
     p2 \<leftarrow> UMM_PBLOCK h2 c;
     Some (h2, p2) }"

section \<open>Initialisation\<close>

text \<open>\<open>numblocks\<close> is \<open>UMM_MALLOC_CFG_HEAP_SIZE\<close> in cells.\<close>

definition umm_init :: "nat \<Rightarrow> umm_mem option" where
  "umm_init numblocks = do {
     let h = replicate numblocks \<lparr>nb = 0, pb = 0, nf = 0, pf = 0\<rparr>;
     let last = numblocks - 1;
     h1 \<leftarrow> set_NBLOCK h 0 1;
     h2 \<leftarrow> set_NFREE h1 0 1;
     h3 \<leftarrow> set_PFREE h2 0 1;
     h4 \<leftarrow> set_NBLOCK h3 1 (or_free last True);
     h5 \<leftarrow> set_NFREE h4 1 0;
     h6 \<leftarrow> set_PBLOCK h5 1 0;
     h7 \<leftarrow> set_PFREE h6 1 0;
     h8 \<leftarrow> set_NBLOCK h7 last 0;
     set_PBLOCK h8 last 1 }"

text \<open>The heap is set up when its pointer is still null.\<close>

definition umm_ready :: "nat \<Rightarrow> umm_mem option \<Rightarrow> umm_mem option" where
  "umm_ready numblocks heap = (case heap of None \<Rightarrow> umm_init numblocks | Some h \<Rightarrow> Some h)"

section \<open>Free\<close>

definition UMM_DATA :: "nat \<Rightarrow> nat" where "UMM_DATA b = 8 * b + 4"

definition block_of_ptr :: "nat \<Rightarrow> nat" where "block_of_ptr ptr = u16 (ptr div 8)"

definition umm_free :: "umm_mem \<Rightarrow> nat option \<Rightarrow> umm_mem option" where
  "umm_free h ptr = (case ptr of
     None \<Rightarrow> Some h
   | Some a \<Rightarrow> do {
       let c = block_of_ptr a;
       h1 \<leftarrow> umm_assimilate_up h c;
       p \<leftarrow> UMM_PBLOCK h1 c;
       n \<leftarrow> UMM_NBLOCK h1 p;
       if is_free n
       then do { (h2, c1) \<leftarrow> umm_assimilate_down h1 c True; Some h2 }
       else do {
         f \<leftarrow> UMM_NFREE h1 0;
         h2 \<leftarrow> set_PFREE h1 f c;
         f1 \<leftarrow> UMM_NFREE h2 0;
         h3 \<leftarrow> set_NFREE h2 c f1;
         h4 \<leftarrow> set_PFREE h3 c 0;
         h5 \<leftarrow> set_NFREE h4 0 c;
         b \<leftarrow> UMM_NBLOCK h5 c;
         set_NBLOCK h5 c (or_free b True) } })"

section \<open>Malloc\<close>

text \<open>The block size as an \<open>unsigned short\<close>.\<close>

definition block_size :: "nat \<Rightarrow> nat \<Rightarrow> nat" where
  "block_size n c = nat ((int n - int c) mod 0x10000)"

text \<open>The search through the free list: the block found, its size and the size of the last block seen.\<close>

partial_function (option) umm_search ::
  "umm_mem \<Rightarrow> nat \<Rightarrow> nat \<Rightarrow> nat \<Rightarrow> nat \<Rightarrow> nat \<Rightarrow> (nat \<times> nat \<times> nat) option" where
  "umm_search h blocks cf bestBlock bestSize blockSize =
     (if cf = 0 then Some (bestBlock, bestSize, blockSize)
      else do {
        n \<leftarrow> UMM_NBLOCK h cf;
        next \<leftarrow> UMM_NFREE h cf;
        let sz = block_size (blockno n) cf;
        if blocks \<le> sz \<and> sz < bestSize
        then umm_search h blocks next cf sz sz
        else umm_search h blocks next bestBlock bestSize sz })"

declare umm_search.simps [code]

text \<open>The part of \<open>umm_malloc\<close> behind the search, for the block \<open>cf\<close> of size \<open>blockSize\<close>.\<close>

definition umm_take :: "umm_mem \<Rightarrow> nat \<Rightarrow> nat \<Rightarrow> nat \<Rightarrow> umm_mem option" where
  "umm_take h cf blockSize blocks =
     (if blockSize = blocks then umm_disconnect_from_free_list h cf
      else do {
        h1 \<leftarrow> umm_split_block h cf blocks True;
        p \<leftarrow> UMM_PFREE h1 cf;
        h2 \<leftarrow> set_NFREE h1 p (u16 (cf + blocks));
        p1 \<leftarrow> UMM_PFREE h2 cf;
        h3 \<leftarrow> set_PFREE h2 (cf + blocks) p1;
        n \<leftarrow> UMM_NFREE h3 cf;
        h4 \<leftarrow> set_PFREE h3 n (u16 (cf + blocks));
        n1 \<leftarrow> UMM_NFREE h4 cf;
        set_NFREE h4 (cf + blocks) n1 })"

definition umm_malloc :: "nat \<Rightarrow> umm_mem option \<Rightarrow> nat \<Rightarrow> (umm_mem \<times> nat option) option" where
  "umm_malloc numblocks heap sz = do {
     h \<leftarrow> umm_ready numblocks heap;
     if sz = 0 then Some (h, None)
     else do {
       let blocks = umm_blocks sz;
       first \<leftarrow> UMM_NFREE h 0;
       (bestBlock, bestSize, lastSize) \<leftarrow> umm_search h blocks first first 0x7FFF 0;
       let (cf, blockSize) = (if bestSize \<noteq> 0x7FFF then (bestBlock, bestSize) else (0, lastSize));
       n \<leftarrow> UMM_NBLOCK h cf;
       if blockno n \<noteq> 0 \<and> blocks \<le> blockSize
       then do { h1 \<leftarrow> umm_take h cf blockSize blocks; Some (h1, Some (UMM_DATA cf)) }
       else Some (h, None) } }"

section \<open>Realloc and calloc\<close>

text \<open>
  \<open>memmove\<close> and \<open>memcpy\<close> of the data of \<open>sz\<close> cells from block \<open>src\<close> to block \<open>dst\<close>: the data part of the first cell and the
  whole cells behind it. \<open>umm_realloc\<close> moves exactly that many bytes.
\<close>

definition umm_move :: "umm_mem \<Rightarrow> nat \<Rightarrow> nat \<Rightarrow> nat \<Rightarrow> umm_mem option" where
  "umm_move h dst src sz = do {
     s \<leftarrow> rd h src;
     cells \<leftarrow> rdn h (src + 1) (sz - 1);
     d \<leftarrow> rd h dst;
     h1 \<leftarrow> wr h dst (d\<lparr>nf := nf s, pf := pf s\<rparr>);
     wrn h1 (dst + 1) cells }"

definition umm_realloc :: "nat \<Rightarrow> umm_mem option \<Rightarrow> nat option \<Rightarrow> nat \<Rightarrow> (umm_mem \<times> nat option) option" where
  "umm_realloc numblocks heap ptr sz = do {
     h \<leftarrow> umm_ready numblocks heap;
     case ptr of
       None \<Rightarrow> umm_malloc numblocks (Some h) sz
     | Some a \<Rightarrow>
        (if sz = 0 then do { h1 \<leftarrow> umm_free h ptr; Some (h1, None) }
         else do {
           let blocks = umm_blocks sz;
           let c = block_of_ptr a;
           n \<leftarrow> UMM_NBLOCK h c;
           let oldSize = block_size n c;
           if oldSize = blocks then Some (h, ptr)
           else do {
             h1 \<leftarrow> umm_assimilate_up h c;
             p \<leftarrow> UMM_PBLOCK h1 c;
             pn \<leftarrow> UMM_NBLOCK h1 p;
             n1 \<leftarrow> UMM_NBLOCK h1 c;
             (h2, c2, ptr2) \<leftarrow>
               (if is_free pn \<and> int blocks \<le> int n1 - int p
                then do {
                  h2 \<leftarrow> umm_disconnect_from_free_list h1 p;
                  (h3, c2) \<leftarrow> umm_assimilate_down h2 c False;
                  h4 \<leftarrow> umm_move h3 c2 c oldSize;
                  Some (h4, c2, UMM_DATA c2) }
                else Some (h1, c, a));
             n2 \<leftarrow> UMM_NBLOCK h2 c2;
             let blockSize = block_size n2 c2;
             if blockSize = blocks then Some (h2, Some ptr2)
             else if blocks < blockSize
             then do {
               h3 \<leftarrow> umm_split_block h2 c2 blocks False;
               h4 \<leftarrow> umm_free h3 (Some (UMM_DATA (c2 + blocks)));
               Some (h4, Some ptr2) }
             else do {
               (h3, q) \<leftarrow> umm_malloc numblocks (Some h2) sz;
               h4 \<leftarrow> (case q of None \<Rightarrow> Some h3 | Some b \<Rightarrow> umm_move h3 (block_of_ptr b) c2 oldSize);
               h5 \<leftarrow> umm_free h4 (Some ptr2);
               Some (h5, q) } } }) }"

text \<open>Bytes of the heap, low byte first.\<close>

definition get_half :: "umm_mem \<Rightarrow> nat \<Rightarrow> nat option" where
  "get_half h i = do {
     c \<leftarrow> rd h (i div 4);
     Some (if i mod 4 = 0 then nb c else if i mod 4 = 1 then pb c else if i mod 4 = 2 then nf c else pf c) }"

definition set_half :: "umm_mem \<Rightarrow> nat \<Rightarrow> nat \<Rightarrow> umm_mem option" where
  "set_half h i v =
     (if i mod 4 = 0 then set_NBLOCK h (i div 4) v
      else if i mod 4 = 1 then set_PBLOCK h (i div 4) v
      else if i mod 4 = 2 then set_NFREE h (i div 4) v
      else set_PFREE h (i div 4) v)"

definition set_byte :: "umm_mem \<Rightarrow> nat \<Rightarrow> nat \<Rightarrow> umm_mem option" where
  "set_byte h a v = do {
     x \<leftarrow> get_half h (a div 2);
     set_half h (a div 2) (if even a then x - x mod 256 + v else x mod 256 + 256 * v) }"

fun umm_memset :: "umm_mem \<Rightarrow> nat \<Rightarrow> nat \<Rightarrow> nat \<Rightarrow> umm_mem option" where
  "umm_memset h a v 0 = Some h"
| "umm_memset h a v (Suc n) = do { h1 \<leftarrow> set_byte h a v; umm_memset h1 (a + 1) v n }"

definition umm_calloc :: "nat \<Rightarrow> umm_mem option \<Rightarrow> nat \<Rightarrow> nat \<Rightarrow> (umm_mem \<times> nat option) option" where
  "umm_calloc numblocks heap num item_size = do {
     (h, ret) \<leftarrow> umm_malloc numblocks heap (u32 (item_size * num));
     case ret of
       None \<Rightarrow> Some (h, None)
     | Some a \<Rightarrow> do { h1 \<leftarrow> umm_memset h a 0 (u32 (item_size * num)); Some (h1, ret) } }"

section \<open>Integrity check and statistics\<close>

partial_function (option) check_free_list :: "umm_mem \<Rightarrow> nat \<Rightarrow> (umm_mem \<times> bool) option" where
  "check_free_list h prev = do {
     cur \<leftarrow> UMM_NFREE h prev;
     if length h \<le> cur then Some (h, False)
     else if cur = 0 then Some (h, True)
     else do {
       p \<leftarrow> UMM_PFREE h cur;
       if p \<noteq> prev then Some (h, False)
       else do {
         b \<leftarrow> UMM_PBLOCK h cur;
         h1 \<leftarrow> set_PBLOCK h cur (or_free b True);
         check_free_list h1 cur } } }"

partial_function (option) check_blocks :: "umm_mem \<Rightarrow> nat \<Rightarrow> (umm_mem \<times> bool) option" where
  "check_blocks h prev = do {
     n \<leftarrow> UMM_NBLOCK h prev;
     let cur = blockno n;
     if length h \<le> cur then Some (h, False)
     else if cur = 0 then Some (h, True)
     else do {
       m \<leftarrow> UMM_NBLOCK h cur;
       b \<leftarrow> UMM_PBLOCK h cur;
       if is_free m \<noteq> is_free b then Some (h, False)
       else if cur \<le> prev then Some (h, False)
       else do {
         h1 \<leftarrow> set_PBLOCK h cur (blockno b);
         b1 \<leftarrow> UMM_PBLOCK h1 cur;
         if b1 \<noteq> prev then Some (h1, False)
         else check_blocks h1 cur } } }"

declare check_free_list.simps [code] check_blocks.simps [code]

text \<open>\<open>UMM_NUMBLOCKS\<close> is the length of the array.\<close>

definition umm_integrity_check :: "nat \<Rightarrow> umm_mem option \<Rightarrow> (umm_mem \<times> bool) option" where
  "umm_integrity_check numblocks heap = do {
     h \<leftarrow> umm_ready numblocks heap;
     (h1, ok) \<leftarrow> check_free_list h 0;
     if ok then check_blocks h1 0 else Some (h1, False) }"

record UMM_HEAP_INFO =
  totalEntries :: nat
  usedEntries :: nat
  freeEntries :: nat
  totalBlocks :: nat
  usedBlocks :: nat
  freeBlocks :: nat
  maxFreeContiguousBlocks :: nat

definition max_blocks :: "nat \<Rightarrow> nat \<Rightarrow> nat" where
  "max_blocks m curBlocks = (if m < curBlocks then u16 curBlocks else m)"

definition info_free :: "nat \<Rightarrow> UMM_HEAP_INFO \<Rightarrow> UMM_HEAP_INFO" where
  "info_free curBlocks i = i\<lparr>freeEntries := u16 (freeEntries i + 1), freeBlocks := u16 (freeBlocks i + curBlocks),
     maxFreeContiguousBlocks := max_blocks (maxFreeContiguousBlocks i) curBlocks\<rparr>"

definition info_used :: "nat \<Rightarrow> UMM_HEAP_INFO \<Rightarrow> UMM_HEAP_INFO" where
  "info_used curBlocks i = i\<lparr>usedEntries := u16 (usedEntries i + 1), usedBlocks := u16 (usedBlocks i + curBlocks)\<rparr>"

text \<open>
  The loop of \<open>umm_info\<close>: whether \<open>ptr\<close> is the address of a free block, and the number of the last block seen. The
  size of a block is a \<open>size_t\<close> here.
\<close>

partial_function (option) info_loop ::
  "umm_mem \<Rightarrow> nat option \<Rightarrow> nat \<Rightarrow> UMM_HEAP_INFO \<Rightarrow> (bool \<times> nat \<times> UMM_HEAP_INFO) option" where
  "info_loop h ptr blockNo i = do {
     n \<leftarrow> UMM_NBLOCK h blockNo;
     if blockno n = 0 then Some (False, blockNo, i)
     else do {
       let curBlocks = to_u32 (int (blockno n) - int blockNo);
       let i1 = i\<lparr>totalEntries := u16 (totalEntries i + 1), totalBlocks := u16 (totalBlocks i + curBlocks)\<rparr>;
       if is_free n
       then if ptr = Some (8 * blockNo) then Some (True, blockNo, info_free curBlocks i1)
            else info_loop h ptr (blockno n) (info_free curBlocks i1)
       else info_loop h ptr (blockno n) (info_used curBlocks i1) } }"

declare info_loop.simps [code]

text \<open>The last block is counted as free.\<close>

definition umm_info :: "umm_mem \<Rightarrow> nat option \<Rightarrow> (UMM_HEAP_INFO \<times> nat option) option" where
  "umm_info h ptr = do {
     n \<leftarrow> UMM_NBLOCK h 0;
     (found, blockNo, i) \<leftarrow> info_loop h ptr (blockno n) \<lparr>totalEntries = 0, usedEntries = 0, freeEntries = 0,
       totalBlocks = 0, usedBlocks = 0, freeBlocks = 0, maxFreeContiguousBlocks = 0\<rparr>;
     if found then Some (i, ptr)
     else do {
       let curBlocks = to_u32 (int (length h) - int blockNo);
       Some (i\<lparr>freeBlocks := u16 (freeBlocks i + curBlocks), totalBlocks := u16 (totalBlocks i + curBlocks),
         maxFreeContiguousBlocks := max_blocks (maxFreeContiguousBlocks i) curBlocks\<rparr>, None) } }"

definition umm_free_heap_size :: "umm_mem \<Rightarrow> nat option" where
  "umm_free_heap_size h = do { (i, r) \<leftarrow> umm_info h None; Some (freeBlocks i * 8) }"

end
