(* ===== verification/UmmRep.thy ===== *)
theory UmmRep
  imports Umm
begin

text \<open>
  The invariant of the heap and its preservation. The block starts are a set \<open>B\<close>; \<open>consec B a b\<close> says that \<open>b\<close> is
  the start behind \<open>a\<close>. The free list is the list \<open>fl\<close>, closed to a ring by cell 0.
\<close>

section \<open>Field access\<close>

definition put_nb :: "umm_mem \<Rightarrow> nat \<Rightarrow> nat \<Rightarrow> umm_mem" where "put_nb h b v = h[b := (h ! b)\<lparr>nb := v\<rparr>]"
definition put_pb :: "umm_mem \<Rightarrow> nat \<Rightarrow> nat \<Rightarrow> umm_mem" where "put_pb h b v = h[b := (h ! b)\<lparr>pb := v\<rparr>]"
definition put_nf :: "umm_mem \<Rightarrow> nat \<Rightarrow> nat \<Rightarrow> umm_mem" where "put_nf h b v = h[b := (h ! b)\<lparr>nf := v\<rparr>]"
definition put_pf :: "umm_mem \<Rightarrow> nat \<Rightarrow> nat \<Rightarrow> umm_mem" where "put_pf h b v = h[b := (h ! b)\<lparr>pf := v\<rparr>]"

lemmas put_defs = put_nb_def put_pb_def put_nf_def put_pf_def

lemma umm_get [simp]:
  "b < length h \<Longrightarrow> UMM_NBLOCK h b = Some (nb (h ! b))" "b < length h \<Longrightarrow> UMM_PBLOCK h b = Some (pb (h ! b))"
  "b < length h \<Longrightarrow> UMM_NFREE h b = Some (nf (h ! b))" "b < length h \<Longrightarrow> UMM_PFREE h b = Some (pf (h ! b))"
  by (simp_all add: UMM_NBLOCK_def UMM_PBLOCK_def UMM_NFREE_def UMM_PFREE_def rd_def)

lemma umm_set [simp]:
  "b < length h \<Longrightarrow> set_NBLOCK h b v = Some (put_nb h b v)" "b < length h \<Longrightarrow> set_PBLOCK h b v = Some (put_pb h b v)"
  "b < length h \<Longrightarrow> set_NFREE h b v = Some (put_nf h b v)" "b < length h \<Longrightarrow> set_PFREE h b v = Some (put_pf h b v)"
  by (simp_all add: set_NBLOCK_def set_PBLOCK_def set_NFREE_def set_PFREE_def put_defs rd_def wr_def)

lemma length_put [simp]:
  "length (put_nb h b v) = length h" "length (put_pb h b v) = length h"
  "length (put_nf h b v) = length h" "length (put_pf h b v) = length h"
  by (simp_all add: put_defs)

lemma nth_put [simp]:
  "b < length h \<Longrightarrow> put_nb h b v ! x = (if x = b then (h ! b)\<lparr>nb := v\<rparr> else h ! x)"
  "b < length h \<Longrightarrow> put_pb h b v ! x = (if x = b then (h ! b)\<lparr>pb := v\<rparr> else h ! x)"
  "b < length h \<Longrightarrow> put_nf h b v ! x = (if x = b then (h ! b)\<lparr>nf := v\<rparr> else h ! x)"
  "b < length h \<Longrightarrow> put_pf h b v ! x = (if x = b then (h ! b)\<lparr>pf := v\<rparr> else h ! x)"
  by (simp_all add: put_defs)

lemma masks:
  "x < 0x8000 \<Longrightarrow> blockno x = x" "x < 0x8000 \<Longrightarrow> blockno (x + 0x8000) = x" "x < 0x8000 \<Longrightarrow> \<not> is_free x"
  "x < 0x8000 \<Longrightarrow> is_free (x + 0x8000)" "x < 0x8000 \<Longrightarrow> or_free x True = x + 0x8000" "or_free x False = x"
  by (simp_all add: blockno_def is_free_def or_free_def div_add_self2)

section \<open>Blocks\<close>

definition consec :: "nat set \<Rightarrow> nat \<Rightarrow> nat \<Rightarrow> bool" where
  "consec B a b = (a \<in> B \<and> b \<in> B \<and> a < b \<and> (\<forall>x\<in>B. \<not> (a < x \<and> x < b)))"

lemma consecD: "consec B a b \<Longrightarrow> a \<in> B \<and> b \<in> B \<and> a < b"
  by (simp add: consec_def)

lemma consec_right: "consec B a b \<Longrightarrow> consec B a c \<Longrightarrow> b = c"
  unfolding consec_def by (meson linorder_neqE_nat)

lemma consec_iff: "consec B a b \<Longrightarrow> consec B a c \<longleftrightarrow> c = b"
  using consec_right by blast

lemma consec_left: "consec B a c \<Longrightarrow> consec B b c \<Longrightarrow> a = b"
  unfolding consec_def by (meson linorder_neqE_nat)

lemma consec_next:
  assumes "finite B" and "a \<in> B" and "x \<in> B" and "a < x"
  shows "\<exists>b. consec B a b \<and> b \<le> x"
proof -
  define m where "m = Min {y\<in>B. a < y}"
  have S: "finite {y\<in>B. a < y}" "x \<in> {y\<in>B. a < y}" using assms by auto
  then have "m \<in> {y\<in>B. a < y}" unfolding m_def by (intro Min_in) auto
  moreover have "m \<le> y" if "y \<in> B" "a < y" for y unfolding m_def using S(1) that by (intro Min_le) auto
  ultimately show ?thesis using assms(2-4) by (intro exI [of _ m]) (fastforce simp: consec_def)
qed

lemma consec_prev:
  assumes "finite B" and "a \<in> B" and "x \<in> B" and "x < a"
  shows "\<exists>b. consec B b a"
proof -
  define m where "m = Max {y\<in>B. y < a}"
  have S: "finite {y\<in>B. y < a}" "x \<in> {y\<in>B. y < a}" using assms by auto
  then have "m \<in> {y\<in>B. y < a}" unfolding m_def by (intro Max_in) auto
  moreover have "y \<le> m" if "y \<in> B" "y < a" for y unfolding m_def using S(1) that by (intro Max_ge) auto
  ultimately show ?thesis using assms(2) by (intro exI [of _ m]) (fastforce simp: consec_def)
qed

lemma consec_split:
  assumes "consec B a b" and "a < d" and "d < b"
  shows "consec (insert d B) x y \<longleftrightarrow> x = a \<and> y = d \<or> x = d \<and> y = b \<or> consec B x y \<and> x \<noteq> a"
proof -
  have ab: "a \<in> B" "b \<in> B" "a < b" "\<And>z. z \<in> B \<Longrightarrow> z \<le> a \<or> b \<le> z" using assms(1) by (auto simp: consec_def not_less)
  have "d \<notin> B" using ab(4) [of d] assms(2,3) by auto
  show ?thesis
  proof
    assume c: "consec (insert d B) x y"
    consider "x = d" | "y = d" | "x \<noteq> d" "y \<noteq> d" by blast
    then show "x = a \<and> y = d \<or> x = d \<and> y = b \<or> consec B x y \<and> x \<noteq> a"
    proof cases
      case 1
      then have "y \<in> B" "d < y" "\<not> b < y" using c ab(2) assms(3) by (auto simp: consec_def)
      then show ?thesis using 1 ab(4) [of y] assms(2) by auto
    next
      case 2
      then have "x \<in> B" "x < d" "\<not> x < a" using c ab(1) assms(2) by (auto simp: consec_def)
      then show ?thesis using 2 ab(4) [of x] assms(3) by auto
    next
      case 3
      then have "consec B x y" using c by (auto simp: consec_def)
      moreover have "x \<noteq> a" using c 3 ab assms(2,3) \<open>consec B x y\<close> consec_right [OF assms(1)] by (auto simp: consec_def)
      ultimately show ?thesis by simp
    qed
  next
    assume "x = a \<and> y = d \<or> x = d \<and> y = b \<or> consec B x y \<and> x \<noteq> a"
    then show "consec (insert d B) x y"
    proof (elim disjE conjE)
      assume c: "consec B x y" "x \<noteq> a"
      then have "\<not> (x < d \<and> d < y)" using ab(4) [of x] ab(4) [of y] ab(1,2) assms(2,3) unfolding consec_def by auto
      with c(1) show ?thesis by (auto simp: consec_def)
    qed (use ab assms(2,3) in \<open>auto simp: consec_def dest: ab(4)\<close>)
  qed
qed

lemma consec_merge:
  assumes "consec B a d" and "consec B d b"
  shows "consec (B - {d}) x y \<longleftrightarrow> x = a \<and> y = b \<or> consec B x y \<and> x \<noteq> a \<and> x \<noteq> d"
proof -
  have "consec (B - {d}) a b"
    using assms unfolding consec_def by (metis DiffE DiffI insertI1 linorder_neqE_nat less_trans singletonD nat_neq_iff)
  moreover have "a < d" "d < b" "insert d (B - {d}) = B" using assms by (auto simp: consec_def)
  ultimately have *: "consec B x y \<longleftrightarrow> x = a \<and> y = d \<or> x = d \<and> y = b \<or> consec (B - {d}) x y \<and> x \<noteq> a" for x y
    using consec_split [of "B - {d}" a b d x y] by simp
  show ?thesis
    using * [of x y] \<open>consec (B - {d}) a b\<close> consec_right [of "B - {d}" a b y] \<open>a < d\<close> by (auto dest: consecD)
qed

section \<open>The free list\<close>

definition adj :: "'a list \<Rightarrow> ('a \<times> 'a) set" where
  "adj xs = set (zip xs (tl xs))"

lemma adj_simps [simp]: "adj [] = {}" "adj [x] = {}" "adj (x # y # ys) = insert (x, y) (adj (y # ys))"
  by (simp_all add: adj_def)

lemma adj_append: "adj (xs @ x # ys) = adj (xs @ [x]) \<union> adj (x # ys)"
proof (induction xs)
  case (Cons a xs)
  then show ?case by (cases xs) auto
qed simp

lemma adj_in: "(x, y) \<in> adj xs \<Longrightarrow> x \<in> set (butlast xs) \<and> y \<in> set (tl xs)"
proof (induction xs)
  case (Cons a xs)
  then show ?case by (cases xs) auto
qed simp

lemma adj_snoc: "zs \<noteq> [] \<Longrightarrow> adj (zs @ [c]) = insert (last zs, c) (adj zs)"
proof (induction zs)
  case (Cons a zs)
  then show ?case by (cases zs) auto
qed simp

lemma adj_hd: "zs \<noteq> [] \<Longrightarrow> adj (c # zs) = insert (c, hd zs) (adj zs)"
  by (cases zs) auto

text \<open>The pairs of neighbours in the ring, around one of its members.\<close>

definition ring :: "nat list \<Rightarrow> nat list" where
  "ring fl = 0 # fl @ [0]"

definition before :: "nat list \<Rightarrow> nat" where "before xs = last (0 # xs)"
definition after :: "nat list \<Rightarrow> nat" where "after ys = hd (ys @ [0])"

lemma adj_ring_mid: "adj (ring (xs @ c # ys)) = adj (0 # xs) \<union> {(before xs, c), (c, after ys)} \<union> adj (ys @ [0])"
proof -
  have "ring (xs @ c # ys) = (0 # xs) @ c # (ys @ [0])" by (simp add: ring_def)
  then have "adj (ring (xs @ c # ys)) = adj ((0 # xs) @ [c]) \<union> adj (c # (ys @ [0]))" using adj_append [of "0 # xs" c "ys @ [0]"] by argo
  moreover have "adj ((0 # xs) @ [c]) = insert (before xs, c) (adj (0 # xs))" unfolding before_def by (rule adj_snoc) simp
  moreover have "adj (c # (ys @ [0])) = insert (c, after ys) (adj (ys @ [0]))" unfolding after_def by (rule adj_hd) simp
  ultimately show ?thesis by blast
qed

lemma adj_ring_join: "adj (ring (xs @ ys)) = adj (0 # xs) \<union> {(before xs, after ys)} \<union> adj (ys @ [0])"
proof (cases ys)
  case Nil
  then show ?thesis using adj_snoc [of "0 # xs" 0] by (simp add: ring_def before_def after_def)
next
  case (Cons y zs)
  have "adj (ys @ [0]) = insert (y, after zs) (adj (zs @ [0]))" using adj_hd [of "zs @ [0]" y] by (simp add: Cons after_def)
  then show ?thesis unfolding Cons adj_ring_mid by (auto simp: after_def)
qed

text \<open>With distinct members, the pairs on either side do not meet the ends.\<close>

lemma ring_sides:
  assumes "distinct (0 # xs @ ys)"
  shows "(x, y) \<in> adj (0 # xs) \<Longrightarrow> x \<in> set (0 # xs) \<and> x \<noteq> before xs \<and> y \<in> set xs"
    and "(x, y) \<in> adj (ys @ [0]) \<Longrightarrow> x \<in> set ys \<and> y \<in> set (ys @ [0]) \<and> y \<noteq> after ys"
    and "before xs \<in> set (0 # xs)" and "after ys \<in> set (ys @ [0])"
proof -
  show "before xs \<in> set (0 # xs)" unfolding before_def by (rule last_in_set) simp
  show "after ys \<in> set (ys @ [0])" unfolding after_def by (rule hd_in_set) simp
  show "x \<in> set (0 # xs) \<and> x \<noteq> before xs \<and> y \<in> set xs" if "(x, y) \<in> adj (0 # xs)"
  proof -
    have "x \<in> set (butlast (0 # xs))" "y \<in> set xs" using adj_in [OF that] by simp_all
    moreover have "distinct (butlast (0 # xs) @ [last (0 # xs)])"
      using assms by (simp only: append_butlast_last_id [OF list.distinct(2)]) simp
    ultimately show ?thesis unfolding before_def by (metis distinct_append disjoint_iff in_set_butlastD list.set_intros(1))
  qed
  show "x \<in> set ys \<and> y \<in> set (ys @ [0]) \<and> y \<noteq> after ys" if "(x, y) \<in> adj (ys @ [0])"
    using adj_in [OF that] assms by (cases ys) (auto simp: after_def)
qed

section \<open>The invariant\<close>

definition umm_rep :: "umm_mem \<Rightarrow> nat set \<Rightarrow> nat list \<Rightarrow> bool" where
  "umm_rep h B fl =
     (length h \<le> 0x7FFF \<and> B \<subseteq> {..<length h} \<and> 0 \<in> B \<and> 1 \<in> B \<and> length h - 1 \<in> B \<and> 1 < length h - 1 \<and>
      (\<forall>a b. consec B a b \<longrightarrow> nb (h ! a) = (if a \<in> set fl then b + 0x8000 else b) \<and> pb (h ! b) = a) \<and>
      nb (h ! (length h - 1)) = 0 \<and>
      distinct (0 # fl) \<and> set fl \<subseteq> B - {length h - 1} \<and>
      (\<forall>a b. consec B a b \<longrightarrow> \<not> (a \<in> set fl \<and> b \<in> set fl)) \<and>
      (\<forall>(x, y)\<in>adj (ring fl). nf (h ! x) = y \<and> pf (h ! y) = x))"

text \<open>The blocks in use, with the start of the next block, and their contents as 16-bit fields.\<close>

definition used :: "nat set \<Rightarrow> nat list \<Rightarrow> (nat \<times> nat) set" where
  "used B fl = {(c, b). consec B c b \<and> c \<noteq> 0 \<and> c \<notin> set fl}"

definition content :: "umm_mem \<Rightarrow> nat \<Rightarrow> nat \<Rightarrow> nat list" where
  "content h c b = [nf (h ! c), pf (h ! c)] @
     concat (map (\<lambda>x. [nb (h ! x), pb (h ! x), nf (h ! x), pf (h ! x)]) [c + 1..<b])"

lemma content_cong:
  "nf (h ! c) = nf (g ! c) \<Longrightarrow> pf (h ! c) = pf (g ! c) \<Longrightarrow> (\<And>x. c < x \<Longrightarrow> x < b \<Longrightarrow> h ! x = g ! x) \<Longrightarrow>
    content h c b = content g c b"
  unfolding content_def by (auto intro!: arg_cong [of _ _ concat] map_cong)

lemma rep_facts:
  assumes "umm_rep h B fl"
  shows "finite B" and "a \<in> B \<Longrightarrow> a < length h" and "a \<in> set fl \<Longrightarrow> a \<in> B \<and> a \<noteq> 0 \<and> a < length h - 1" and "length h \<le> 0x7FFF"
    and "consec B a b \<Longrightarrow> nb (h ! a) = (if a \<in> set fl then b + 0x8000 else b)" and "consec B a b \<Longrightarrow> pb (h ! b) = a"
    and "(a, b) \<in> adj (ring fl) \<Longrightarrow> nf (h ! a) = b \<and> pf (h ! b) = a" and "distinct (0 # fl)"
    and "consec B a b \<Longrightarrow> a \<in> set fl \<Longrightarrow> b \<notin> set fl" and "consec B a b \<Longrightarrow> b < 0x8000"
proof -
  note r = assms [unfolded umm_rep_def]
  show "finite B" using r finite_subset by blast
  show l: "a < length h" if "a \<in> B" for a using r that by auto
  show "a \<in> B \<and> a \<noteq> 0 \<and> a < length h - 1" if "a \<in> set fl" using r that l [of a] by (auto simp: nat_neq_iff)
  show "consec B a b \<Longrightarrow> b < 0x8000" using r l [of b] by (auto dest: consecD)
  show "length h \<le> 0x7FFF" "distinct (0 # fl)" using r by blast+
  show "consec B a b \<Longrightarrow> nb (h ! a) = (if a \<in> set fl then b + 0x8000 else b)" "consec B a b \<Longrightarrow> pb (h ! b) = a"
      "consec B a b \<Longrightarrow> a \<in> set fl \<Longrightarrow> b \<notin> set fl"
    using r by blast+
  have "\<forall>(x, y)\<in>adj (ring fl). nf (h ! x) = y \<and> pf (h ! y) = x" using r by argo
  then show "(a, b) \<in> adj (ring fl) \<Longrightarrow> nf (h ! a) = b \<and> pf (h ! b) = a" by auto
qed

lemma rep_next:
  assumes "umm_rep h B fl" and "a \<in> B" and "a < length h - 1"
  shows "\<exists>b. consec B a b"
  using consec_next [of B a "length h - 1"] assms rep_facts(1) [OF assms(1)] by (auto simp: umm_rep_def)

lemma rep_prev:
  assumes "umm_rep h B fl" and "a \<in> B" and "0 < a"
  shows "\<exists>b. consec B b a"
  using consec_prev [of B a 0] assms rep_facts(1) [OF assms(1)] by (auto simp: umm_rep_def)

text \<open>What an operation leaves alone: the cells outside of \<open>B\<close>, and the data part of cells outside of \<open>F\<close>.\<close>

definition umm_frame :: "umm_mem \<Rightarrow> umm_mem \<Rightarrow> nat set \<Rightarrow> nat set \<Rightarrow> bool" where
  "umm_frame h g B F = (length g = length h \<and> (\<forall>x. x \<notin> B \<longrightarrow> g ! x = h ! x) \<and>
     (\<forall>x. x \<notin> F \<longrightarrow> nf (g ! x) = nf (h ! x) \<and> pf (g ! x) = pf (h ! x)))"

lemma frame_content:
  "umm_frame h g B F \<Longrightarrow> c \<notin> F \<Longrightarrow> (\<And>x. c < x \<Longrightarrow> x < b \<Longrightarrow> x \<notin> B) \<Longrightarrow> content g c b = content h c b"
  by (rule content_cong) (auto simp: umm_frame_def)

lemma frame_trans: "umm_frame h g B F \<Longrightarrow> umm_frame g k B' F' \<Longrightarrow> B' \<subseteq> B \<Longrightarrow> F' \<subseteq> F \<Longrightarrow> umm_frame h k B F"
  by (auto simp: umm_frame_def)

lemma ring_around:
  assumes "umm_rep h B (xs @ c # ys)"
  shows "pf (h ! c) = before xs" and "nf (h ! c) = after ys" and "before xs \<noteq> c" and "after ys \<noteq> c"
    and "before xs < length h" and "after ys < length h" and "before xs \<in> insert 0 (set xs)" and "after ys \<in> insert 0 (set ys)"
    and "c < length h" and "c \<noteq> 0"
proof -
  have d: "distinct (0 # xs @ c # ys)" by (rule rep_facts(8) [OF assms])
  show pb: "before xs \<in> insert 0 (set xs)" and na: "after ys \<in> insert 0 (set ys)"
    using ring_sides(3,4) [of xs ys] d by auto
  show "pf (h ! c) = before xs" "nf (h ! c) = after ys"
    using rep_facts(7) [OF assms, of "before xs" c] rep_facts(7) [OF assms, of c "after ys"] by (auto simp: adj_ring_mid)
  show "before xs \<noteq> c" "after ys \<noteq> c" "c \<noteq> 0" using pb na d by auto
  have "z < length h" if "z \<in> insert 0 (set (xs @ c # ys))" for z
    using that rep_facts(2,3) [OF assms, of z] assms by (auto simp: umm_rep_def)
  then show "before xs < length h" "after ys < length h" "c < length h" using pb na by auto
qed

lemma disconnect_spec:
  assumes r: "umm_rep h B (xs @ c # ys)"
  shows "\<exists>g. umm_disconnect_from_free_list h c = Some g \<and> umm_rep g B (xs @ ys) \<and>
    umm_frame h g B (insert 0 (set (xs @ c # ys))) \<and> (\<forall>x. pb (g ! x) = pb (h ! x))"
proof -
  note a = ring_around [OF r]
  let ?fl = "xs @ c # ys"
  have d: "distinct (0 # ?fl)" by (rule rep_facts(8) [OF r])
  define g where "g = put_nb (put_pf (put_nf h (before xs) (after ys)) (after ys) (before xs)) c (blockno (nb (h ! c)))"
  have op: "umm_disconnect_from_free_list h c = Some g"
    using a by (simp add: umm_disconnect_from_free_list_def g_def)
  have lg: "length g = length h" by (simp add: g_def)
  have nbg: "nb (g ! x) = (if x = c then blockno (nb (h ! c)) else nb (h ! x))" for x using a(5,6,9) by (simp add: g_def)
  have pbg: "pb (g ! x) = pb (h ! x)" for x using a(5,6,9) by (simp add: g_def)
  have nfg: "nf (g ! x) = (if x = before xs then after ys else nf (h ! x))" for x using a(5,6,9) by (simp add: g_def)
  have pfg: "pf (g ! x) = (if x = after ys then before xs else pf (h ! x))" for x using a(5,6,9) by (simp add: g_def)
  have cl: "c \<in> B" "c < length h - 1" using rep_facts(3) [OF r, of c] by simp_all
  have links: "nf (g ! x) = y \<and> pf (g ! y) = x" if "(x, y) \<in> adj (ring (xs @ ys))" for x y
  proof -
    have dd: "distinct (0 # xs @ ys)" using d by simp
    from that consider "(x, y) \<in> adj (0 # xs)" | "x = before xs" "y = after ys" | "(x, y) \<in> adj (ys @ [0])"
      unfolding adj_ring_join by blast
    then show ?thesis
    proof cases
      case 1
      then have "nf (h ! x) = y \<and> pf (h ! y) = x" using rep_facts(7) [OF r, of x y] by (simp add: adj_ring_mid)
      moreover have "x \<noteq> before xs" "y \<in> set xs" using ring_sides(1) [OF dd 1] by simp_all
      moreover have "y \<noteq> after ys" using \<open>y \<in> set xs\<close> a(8) dd by auto
      ultimately show ?thesis by (simp add: nfg pfg)
    next
      case 3
      then have "nf (h ! x) = y \<and> pf (h ! y) = x" using rep_facts(7) [OF r, of x y] by (simp add: adj_ring_mid)
      moreover have "x \<in> set ys" "y \<noteq> after ys" using ring_sides(2) [OF dd 3] by simp_all
      moreover have "x \<noteq> before xs" using \<open>x \<in> set ys\<close> a(7) dd by auto
      ultimately show ?thesis by (simp add: nfg pfg)
    qed (simp add: nfg pfg)
  qed
  have heads: "nb (g ! x) = (if x \<in> set (xs @ ys) then y + 0x8000 else y) \<and> pb (g ! y) = x" if "consec B x y" for x y
    using rep_facts(5,6,10) [OF r that] d masks(2) [of y] by (auto simp: nbg pbg)
  have "umm_rep g B (xs @ ys)"
    unfolding umm_rep_def lg
  proof (intro conjI allI impI ballI)
    show "nb (g ! (length h - 1)) = 0" using r cl by (simp add: nbg umm_rep_def)
    show "\<not> (x \<in> set (xs @ ys) \<and> y \<in> set (xs @ ys))" if "consec B x y" for x y using rep_facts(9) [OF r that] by auto
    show "case p of (x, y) \<Rightarrow> nf (g ! x) = y \<and> pf (g ! y) = x" if "p \<in> adj (ring (xs @ ys))" for p using links that by auto
  qed (use r d heads in \<open>auto simp: umm_rep_def\<close>)
  moreover have "umm_frame h g B (insert 0 (set ?fl))"
    unfolding umm_frame_def
  proof (intro conjI allI impI)
    have B: "before xs \<in> B" "after ys \<in> B" using a(7,8) rep_facts(3) [OF r] r by (auto simp: umm_rep_def)
    show "g ! x = h ! x" if "x \<notin> B" for x using that B cl a(5,6,9) by (auto simp: g_def)
  qed (use a(7,8) in \<open>auto simp: lg nfg pfg\<close>)
  ultimately show ?thesis using op pbg by blast
qed

text \<open>Two neighbours become one block when the second is not free.\<close>

lemma merge_rep:
  assumes r: "umm_rep h B fl" and a0: "0 < a" and ad: "consec B a d" and db: "consec B d b" and nf: "d \<notin> set fl" "a \<in> set fl \<Longrightarrow> b \<notin> set fl"
    and lg: "length g = length h" and nbg: "\<And>x. x \<noteq> d \<Longrightarrow> nb (g ! x) = (if x = a then (if a \<in> set fl then b + 0x8000 else b) else nb (h ! x))"
    and pbg: "\<And>x. pb (g ! x) = (if x = b then a else pb (h ! x))" and fg: "\<And>x. x \<in> insert 0 (set fl) \<Longrightarrow> nf (g ! x) = nf (h ! x) \<and> pf (g ! x) = pf (h ! x)"
  shows "umm_rep g (B - {d}) fl"
proof -
  note m = consec_merge [OF ad db]
  have lt: "a < d" "d < b" "b < length h" using ad db rep_facts(2) [OF r, of b] by (auto dest: consecD)
  have heads: "nb (g ! x) = (if x \<in> set fl then y + 0x8000 else y) \<and> pb (g ! y) = x" if "consec (B - {d}) x y" for x y
  proof (cases "x = a \<and> y = b")
    case True
    then show ?thesis using lt by (simp add: nbg pbg)
  next
    case False
    then have c: "consec B x y" "x \<noteq> a" "x \<noteq> d" using that m by auto
    then have "y \<noteq> b" using consec_left [OF db, of x] by auto
    then show ?thesis using rep_facts(5,6) [OF r c(1)] c by (simp add: nbg pbg)
  qed
  have links: "nf (g ! x) = y \<and> pf (g ! y) = x" if "(x, y) \<in> adj (ring fl)" for x y
  proof -
    have "x \<in> insert 0 (set fl)" "y \<in> insert 0 (set fl)" using adj_in [OF that] by (auto simp: ring_def butlast_append)
    then show ?thesis using rep_facts(7) [OF r that] fg by auto
  qed
  show ?thesis
    unfolding umm_rep_def lg
  proof (intro conjI allI impI ballI)
    show "nb (g ! (length h - 1)) = 0" using r lt by (simp add: nbg umm_rep_def)
    show "\<not> (x \<in> set fl \<and> y \<in> set fl)" if "consec (B - {d}) x y" for x y
      using that m [of x y] rep_facts(9) [OF r, of x y] nf(2) by auto
    show "case p of (x, y) \<Rightarrow> nf (g ! x) = y \<and> pf (g ! y) = x" if "p \<in> adj (ring fl)" for p using links that by auto
  qed (use r heads nf(1) lt a0 in \<open>auto simp: umm_rep_def\<close>)
qed

lemma used_merge:
  assumes "consec B a d" and "consec B d b"
  shows "used (B - {d}) fl = {(x, y) \<in> used B fl. x \<noteq> a \<and> x \<noteq> d} \<union> (if a \<noteq> 0 \<and> a \<notin> set fl then {(a, b)} else {})"
  using consec_merge [OF assms] by (auto simp: used_def)

text \<open>A block is cut into two; the free list gives the flags.\<close>

lemma split_rep:
  assumes r: "umm_rep h B fl" and ab: "consec B a b" and d: "a < d" "d < b" and a: "a \<notin> set fl'"
    and fl': "set fl' - {d} = set fl - {a}" "distinct (0 # fl')" "d \<in> set fl' \<Longrightarrow> a \<in> set fl"
    and lg: "length g = length h" and nbg: "\<And>x. nb (g ! x) = (if x = a then d else if x = d then (if d \<in> set fl' then b + 0x8000 else b) else nb (h ! x))"
    and pbg: "\<And>x. pb (g ! x) = (if x = d then a else if x = b then d else pb (h ! x))"
    and links: "\<And>x y. (x, y) \<in> adj (ring fl') \<Longrightarrow> nf (g ! x) = y \<and> pf (g ! y) = x"
  shows "umm_rep g (insert d B) fl'"
proof -
  note s = consec_split [OF ab d]
  have dB: "d \<notin> B" using ab d by (auto simp: consec_def)
  have b: "b < length h" "a < b" using ab rep_facts(2) [OF r, of b] by (auto dest: consecD)
  have sub: "x \<in> set fl' \<longleftrightarrow> x \<in> set fl" if "x \<noteq> a" "x \<noteq> d" for x using fl'(1) that by blast
  have bf: "b \<notin> set fl'" if "d \<in> set fl'" using rep_facts(9) [OF r ab fl'(3) [OF that]] sub [of b] d b by auto
  have heads: "nb (g ! x) = (if x \<in> set fl' then y + 0x8000 else y) \<and> pb (g ! y) = x" if cs: "consec (insert d B) x y" for x y
  proof -
    consider "x = a" "y = d" | "x = d" "y = b" | "consec B x y" "x \<noteq> a" using cs s [of x y] by blast
    then show ?thesis
    proof cases
      case 3
      then have "x \<noteq> d" "y \<noteq> d" "y \<noteq> b" using dB consec_left [OF ab, of x] by (auto dest: consecD)
      then show ?thesis using rep_facts(5,6) [OF r 3(1)] 3(2) sub [of x] by (simp add: nbg pbg)
    qed (use d b a in \<open>auto simp: nbg pbg\<close>)
  qed
  show ?thesis
    unfolding umm_rep_def lg
  proof (intro conjI allI impI ballI)
    show "nb (g ! (length h - 1)) = 0" using r d b by (auto simp: nbg umm_rep_def)
    show "\<not> (x \<in> set fl' \<and> y \<in> set fl')" if cs: "consec (insert d B) x y" for x y
    proof -
      consider "x = a" | "x = d" "y = b" | "consec B x y" "x \<noteq> a" using cs s [of x y] by blast
      then show ?thesis
      proof cases
        case 3
        then have "x \<noteq> d" "y \<noteq> d" using dB by (auto dest: consecD)
        then show ?thesis using rep_facts(9) [OF r 3(1)] 3(2) sub [of x] sub [of y] a by auto
      qed (use a bf in auto)
    qed
    show "case p of (x, y) \<Rightarrow> nf (g ! x) = y \<and> pf (g ! y) = x" if "p \<in> adj (ring fl')" for p using links that by auto
    show "set fl' \<subseteq> insert d B - {length h - 1}" using r fl'(1) d b by (auto simp: umm_rep_def)
  qed (use r heads fl'(2) d b in \<open>auto simp: umm_rep_def\<close>)
qed

section \<open>Assimilation\<close>

lemma used_facts:
  assumes "umm_rep h B fl" and "(c, n) \<in> used B fl"
  shows "consec B c n" and "c \<noteq> 0" and "c \<notin> set fl" and "c < length h" and "n < length h" and "c < n" and "n < 0x8000" and "c \<in> B" and "n \<in> B"
    and "nb (h ! c) = n" and "pb (h ! n) = c"
proof -
  show c: "consec B c n" "c \<noteq> 0" "c \<notin> set fl" using assms(2) by (auto simp: used_def)
  show "c \<in> B" "n \<in> B" "c < n" "c < length h" "n < length h" using consecD [OF c(1)] rep_facts(2) [OF assms(1)] by auto
  show "n < 0x8000" "nb (h ! c) = n" "pb (h ! n) = c" using rep_facts(5,6,10) [OF assms(1) c(1)] c(3) by auto
qed

lemma up_spec:
  assumes r: "umm_rep h B fl" and u: "(c, n) \<in> used B fl"
  shows "\<exists>g B' fl' b. umm_assimilate_up h c = Some g \<and> umm_rep g B' fl' \<and> (c, b) \<in> used B' fl' \<and> b \<notin> set fl' \<and> n \<le> b \<and>
    used B' fl' = used B fl - {(c, n)} \<union> {(c, b)} \<and> umm_frame h g B (insert 0 (set fl)) \<and>
    (B' = B \<and> fl' = fl \<and> b = n \<or> B' = B - {n} \<and> consec B n b \<and> n \<in> set fl \<and> set fl' = set fl - {n})"
proof -
  note uf = used_facts [OF r u]
  have fr: "is_free (nb (h ! n)) \<longleftrightarrow> n \<in> set fl"
  proof (cases "n = length h - 1")
    case True
    then show ?thesis using r by (auto simp: umm_rep_def masks)
  next
    case False
    then have "n < length h - 1" using uf(5) by linarith
    then obtain b where "consec B n b" using rep_next [OF r uf(9)] by blast
    then show ?thesis using rep_facts(5,10) [OF r, of n b] masks(3,4) [of b] by auto
  qed
  show ?thesis
  proof (cases "n \<in> set fl")
    case False
    then have "umm_assimilate_up h c = Some h" using uf fr by (simp add: umm_assimilate_up_def)
    moreover have "used B fl = used B fl - {(c, n)} \<union> {(c, n)}" using u by blast
    moreover have "umm_frame h h B (insert 0 (set fl))" by (simp add: umm_frame_def)
    ultimately show ?thesis using r u False by blast
  next
    case True
    then obtain xs ys where fl: "fl = xs @ n # ys" by (meson split_list)
    obtain b where nb: "consec B n b" using rep_next [OF r uf(9)] rep_facts(3) [OF r True] by auto
    obtain h1 where h1: "umm_disconnect_from_free_list h n = Some h1" "umm_rep h1 B (xs @ ys)"
        "umm_frame h h1 B (insert 0 (set fl))" "\<And>x. pb (h1 ! x) = pb (h ! x)"
      using disconnect_spec r unfolding fl by blast
    have nn: "n \<notin> set (xs @ ys)" "c \<notin> set (xs @ ys)" "b \<notin> set fl"
      using rep_facts(8) [OF r] uf(3) rep_facts(9) [OF r nb True] by (auto simp: fl)
    have l1: "length h1 = length h" using h1(3) by (simp add: umm_frame_def)
    have b: "b < length h" "n < b" "b < 0x8000" using nb rep_facts(2,10) [OF r] by (auto dest: consecD)
    have v: "nb (h1 ! c) = n" "nb (h1 ! n) = b" using rep_facts(5) [OF h1(2) uf(1)] rep_facts(5) [OF h1(2) nb] nn by simp_all
    define g where "g = put_nb (put_pb h1 b c) c b"
    have op: "umm_assimilate_up h c = Some g"
      using uf fr True h1(1) v b l1 masks(1) [of b] by (simp add: umm_assimilate_up_def g_def)
    have r': "umm_rep g (B - {n}) (xs @ ys)"
      by (rule merge_rep [OF h1(2) _ uf(1) nb]) (use nn uf b l1 in \<open>auto simp: g_def\<close>)
    have "umm_frame h1 g B (insert 0 (set fl))"
      using uf b l1 nb by (auto simp: umm_frame_def g_def dest: consecD)
    then have f: "umm_frame h g B (insert 0 (set fl))" by (rule frame_trans [OF h1(3)]) auto
    have "used B (xs @ ys) = used B fl \<union> {(n, b)}"
      using nn(1) uf(6) consec_iff [OF nb] unfolding used_def fl by auto
    then have us: "used (B - {n}) (xs @ ys) = used B fl - {(c, n)} \<union> {(c, b)}"
      unfolding used_merge [OF uf(1) nb] using nn(2) uf(2) consec_iff [OF uf(1)] True by (auto simp: used_def)
    then have "(c, b) \<in> used (B - {n}) (xs @ ys)" by blast
    moreover have "set (xs @ ys) = set fl - {n}" using nn(1) by (auto simp: fl)
    ultimately show ?thesis
      using op r' f us nn b nb True by (intro exI [of _ g] exI [of _ "B - {n}"] exI [of _ "xs @ ys"] exI [of _ b]) (auto simp: fl)
  qed
qed

lemma is_free_iff:
  assumes "umm_rep h B fl" and "consec B a b"
  shows "is_free (nb (h ! a)) \<longleftrightarrow> a \<in> set fl" and "blockno (nb (h ! a)) = b"
  using rep_facts(5,10) [OF assms] masks(1-4) [of b] by auto

text \<open>A block is put at the head of the free list.\<close>

lemma push_rep:
  assumes r: "umm_rep h B fl" and u: "(c, b) \<in> used B fl" and pc: "consec B p c" and nf: "p \<notin> set fl" "b \<notin> set fl"
    and g: "g = put_nb (put_nf (put_pf (put_nf (put_pf h (after fl) c) c (after fl)) c 0) 0 c) c (b + 0x8000)"
  shows "umm_rep g B (c # fl)" and "umm_frame h g B (insert 0 (insert c (set fl)))" and "nf (h ! 0) = after fl" and "after fl < length h"
proof -
  note uf = used_facts [OF r u]
  have d: "distinct (0 # fl)" by (rule rep_facts(8) [OF r])
  have af: "after fl \<in> insert 0 (set fl)" using ring_sides(4) [of "[]" fl] d by simp
  show la: "after fl < length h" using af rep_facts(3) [OF r, of "after fl"] r by (auto simp: umm_rep_def)
  have l0: "0 < length h" using uf(4) by linarith
  have jo: "adj (ring fl) = {(0, after fl)} \<union> adj (fl @ [0])" using adj_ring_join [of "[]" fl] by (simp add: before_def)
  then show "nf (h ! 0) = after fl" using rep_facts(7) [OF r, of 0 "after fl"] by simp
  have ac: "after fl \<noteq> c" using af uf by auto
  have lg: "length g = length h" by (simp add: g)
  have nbg: "nb (g ! x) = (if x = c then b + 0x8000 else nb (h ! x))" for x using la l0 uf(4) by (simp add: g)
  have pbg: "pb (g ! x) = pb (h ! x)" for x using la l0 uf(4) by (simp add: g)
  have nfg: "nf (g ! x) = (if x = 0 then c else if x = c then after fl else nf (h ! x))" for x using la l0 uf(4) by (simp add: g)
  have pfg: "pf (g ! x) = (if x = c then 0 else if x = after fl then c else pf (h ! x))" for x using la l0 uf(4) by (simp add: g)
  have links: "nf (g ! x) = y \<and> pf (g ! y) = x" if "(x, y) \<in> adj (ring (c # fl))" for x y
  proof -
    from that consider "x = 0" "y = c" | "x = c" "y = after fl" | "(x, y) \<in> adj (fl @ [0])"
      using adj_ring_mid [of "[]" c fl] by (auto simp: before_def)
    then show ?thesis
    proof cases
      case 3
      have "x \<in> set fl" "y \<in> set (fl @ [0])" "y \<noteq> after fl" using ring_sides(2) [of "[]" fl x y] d 3 by simp_all
      moreover have "nf (h ! x) = y \<and> pf (h ! y) = x" using rep_facts(7) [OF r, of x y] 3 jo by simp
      ultimately show ?thesis using uf d by (auto simp: nfg pfg)
    qed (use uf ac in \<open>simp_all add: nfg pfg\<close>)
  qed
  show "umm_rep g B (c # fl)"
    unfolding umm_rep_def lg
  proof (intro conjI allI impI ballI)
    show "nb (g ! (length h - 1)) = 0" using r uf by (auto simp: nbg umm_rep_def)
    show "\<not> (x \<in> set (c # fl) \<and> y \<in> set (c # fl))" if "consec B x y" for x y
    proof -
      have "x < y" "x \<in> set fl \<longrightarrow> y \<notin> set fl" "y = c \<longrightarrow> x = p" "x = c \<longrightarrow> y = b"
        using consecD [OF that] rep_facts(9) [OF r that] consec_left [OF pc, of x] consec_right [OF uf(1), of y] that by blast+
      then show ?thesis using nf by auto
    qed
    show "case q of (x, y) \<Rightarrow> nf (g ! x) = y \<and> pf (g ! y) = x" if "q \<in> adj (ring (c # fl))" for q using links that by auto
    show "nb (g ! x) = (if x \<in> set (c # fl) then y + 0x8000 else y)" if "consec B x y" for x y
      using rep_facts(5) [OF r that] consec_iff [OF uf(1), of y] that by (auto simp: nbg)
    show "pb (g ! y) = x" if "consec B x y" for x y using rep_facts(6) [OF r that] by (simp add: pbg)
    show "set (c # fl) \<subseteq> B - {length h - 1}" using r uf by (auto simp: umm_rep_def)
  qed (use r d uf in \<open>auto simp: umm_rep_def\<close>)
  have B: "set fl \<subseteq> B" "0 \<in> B" using r unfolding umm_rep_def by blast+
  have "g ! x = h ! x" if "x \<notin> B" for x
  proof -
    have "after fl \<in> B" using B af by (cases "after fl = 0") auto
    then have "x \<noteq> 0 \<and> x \<noteq> c \<and> x \<noteq> after fl" using that B(2) uf(8) by metis
    then show ?thesis by (simp add: g put_defs)
  qed
  then show "umm_frame h g B (insert 0 (insert c (set fl)))"
    unfolding umm_frame_def using af by (auto simp: lg nfg pfg)
qed

section \<open>Free\<close>

lemma block_of_UMM_DATA: "c < 0x8000 \<Longrightarrow> block_of_ptr (UMM_DATA c) = c"
  by (simp add: block_of_ptr_def UMM_DATA_def u16_def)

lemma push_used: "used B (c # fl) = used B fl - {(x, y). x = c}"
  by (auto simp: used_def)

lemma used_once: "(c, b) \<in> used B fl \<Longrightarrow> (c, n) \<in> used B fl \<Longrightarrow> n = b"
  using consec_iff [of B c b n] by (auto simp: used_def)

lemma used_gap: "(c, b) \<in> used B fl \<Longrightarrow> c < x \<Longrightarrow> x < b \<Longrightarrow> x \<notin> B"
  by (auto simp: used_def consec_def)

text \<open>
  What \<open>umm_free\<close> does after the block above has been merged in: the block is merged into a free one below it or put
  at the head of the free list.
\<close>

lemma free_tail:
  assumes r: "umm_rep h B fl" and u: "(c, b) \<in> used B fl" and nf: "b \<notin> set fl" and up: "umm_assimilate_up h0 c = Some h"
  shows "\<exists>g B' fl'. umm_free h0 (Some (UMM_DATA c)) = Some g \<and> umm_rep g B' fl' \<and> used B' fl' = used B fl - {(c, b)} \<and>
    umm_frame h g B (insert 0 (insert c (set fl)))"
proof -
  note uf = used_facts [OF r u]
  obtain p where pc: "consec B p c" using rep_prev [OF r uf(8)] uf(2) by blast
  have p: "p < length h" "p < c" "p \<in> B" using consecD [OF pc] uf(4) by auto
  have c: "c < 0x8000" "0 < length h" using uf(4,6,7) by linarith+
  note pv = rep_facts(6) [OF r pc] is_free_iff [OF r pc]
  show ?thesis
  proof (cases "p \<in> set fl")
    case True
    define g where "g = put_pb (put_nb h p (b + 0x8000)) b p"
    have op: "umm_free h0 (Some (UMM_DATA c)) = Some g"
      using up pv p uf True c masks by (simp add: umm_free_def umm_assimilate_down_def block_of_UMM_DATA or_free_def g_def)
    have "umm_rep g (B - {c}) fl"
      by (rule merge_rep [OF r _ pc uf(1)]) (use True nf uf p rep_facts(3) [OF r True] in \<open>auto simp: g_def\<close>)
    moreover have "used (B - {c}) fl = used B fl - {(c, b)}"
      unfolding used_merge [OF pc uf(1)] using True consec_iff [OF uf(1)] by (auto simp: used_def)
    moreover have "umm_frame h g B (insert 0 (insert c (set fl)))"
      using p uf by (auto simp: umm_frame_def g_def put_defs nth_list_update)
    ultimately show ?thesis using op by blast
  next
    case False
    define g where "g = put_nb (put_nf (put_pf (put_nf (put_pf h (after fl) c) c (after fl)) c 0) 0 c) c (b + 0x8000)"
    note pr = push_rep [OF r u pc False nf g_def]
    have op: "umm_free h0 (Some (UMM_DATA c)) = Some g"
      using up pv p(1) uf(2,4,10) masks(3) [OF uf(7)] False c pr(3,4)
      by (cases "c = after fl") (simp_all add: umm_free_def block_of_UMM_DATA or_free_def g_def Let_def)
    have us: "used B (c # fl) = used B fl - {(c, b)}"
      unfolding push_used using consec_iff [OF uf(1)] by (auto simp: used_def)
    show ?thesis using op pr(1,2) us by blast
  qed
qed

lemma free_spec:
  assumes r: "umm_rep h B fl" and u: "(c, n) \<in> used B fl"
  shows "\<exists>g B' fl'. umm_free h (Some (UMM_DATA c)) = Some g \<and> umm_rep g B' fl' \<and> length g = length h \<and>
    used B' fl' = used B fl - {(c, n)} \<and> (\<forall>(x, y)\<in>used B' fl'. content g x y = content h x y)"
proof -
  obtain h1 B1 fl1 b where s: "umm_assimilate_up h c = Some h1" "umm_rep h1 B1 fl1" "(c, b) \<in> used B1 fl1" "b \<notin> set fl1"
      "used B1 fl1 = used B fl - {(c, n)} \<union> {(c, b)}" "umm_frame h h1 B (insert 0 (set fl))" "B1 = B \<and> fl1 = fl \<and> b = n \<or> B1 = B - {n} \<and> consec B n b \<and> n \<in> set fl \<and> set fl1 = set fl - {n}"
    using up_spec [OF assms] by (elim exE conjE)
  have B1: "B1 \<subseteq> B" "set fl1 \<subseteq> set fl" using s(7) by auto
  obtain g B' fl' where t: "umm_free h (Some (UMM_DATA c)) = Some g" "umm_rep g B' fl'" "used B' fl' = used B1 fl1 - {(c, b)}"
      "umm_frame h1 g B1 (insert 0 (insert c (set fl1)))"
    using free_tail [OF s(2,3,4,1)] by blast
  have f: "umm_frame h g B (insert 0 (insert c (set fl)))"
  proof (rule frame_trans)
    show "umm_frame h h1 B (insert 0 (insert c (set fl)))" using s(6) by (auto simp: umm_frame_def)
  qed (use t(4) B1 in auto)
  have us: "used B' fl' = used B fl - {(c, n)}"
    unfolding t(3) s(5) using used_once [OF u] by blast
  have "content g x y = content h x y" if "(x, y) \<in> used B' fl'" for x y
  proof (rule frame_content [OF f])
    have xy: "(x, y) \<in> used B fl" "x \<noteq> c" using that used_once [OF u] unfolding us by blast+
    then show "x \<notin> insert 0 (insert c (set fl))" by (auto simp: used_def)
    show "z \<notin> B" if "x < z" "z < y" for z by (rule used_gap [OF xy(1) that])
  qed
  moreover have "length g = length h" using f by (simp add: umm_frame_def)
  ultimately show ?thesis using t us by blast
qed

end
