(* ===== verification/UmmProps.thy ===== *)
theory UmmProps
  imports UmmRep
begin

text \<open>
  Malloc, free and realloc on a heap with the invariant of \<open>UmmRep\<close>.
\<close>

section \<open>The best fit search\<close>

definition blen :: "umm_mem \<Rightarrow> nat \<Rightarrow> nat" where "blen h c = blockno (nb (h ! c)) - c"

text \<open>The search as a function of the free list.\<close>

fun best :: "umm_mem \<Rightarrow> nat \<Rightarrow> nat list \<Rightarrow> nat \<Rightarrow> nat \<Rightarrow> nat \<Rightarrow> nat \<times> nat \<times> nat" where
  "best h k [] bb bs ls = (bb, bs, ls)"
| "best h k (c # cs) bb bs ls =
     (if k \<le> blen h c \<and> blen h c < bs then best h k cs c (blen h c) (blen h c) else best h k cs bb bs (blen h c))"

lemma best_spec:
  assumes "best h k cs bb bs ls = (b, s, l)"
  shows "(b = bb \<and> s = bs) \<or> (b \<in> set cs \<and> s = blen h b \<and> k \<le> s \<and> s < bs)"
    and "s \<le> bs" and "\<And>c. c \<in> set cs \<Longrightarrow> k \<le> blen h c \<Longrightarrow> s \<le> blen h c"
    and "l = (if cs = [] then ls else blen h (last cs))"
  using assms by (induction cs arbitrary: bb bs ls) (fastforce split: if_splits)+

lemma blen_free:
  assumes r: "umm_rep h B fl" and c: "c \<in> set fl"
  shows "c < length h" and "consec B c (c + blen h c)" and "block_size (blockno (nb (h ! c))) c = blen h c" and "0 < blen h c"
    and "blen h c < 0x7FFF" and "blockno (nb (h ! c)) = c + blen h c" and "c + blen h c < length h"
proof -
  have "c \<in> B" "c < length h - 1" using rep_facts(3) [OF r c] by auto
  then obtain b where b: "consec B c b" using rep_next [OF r] by blast
  have v: "blockno (nb (h ! c)) = b" by (rule is_free_iff(2) [OF r b])
  have l: "c < b" "b < length h" "length h \<le> 0x7FFF" using consecD [OF b] rep_facts(2,4) [OF r] by auto
  then show "c < length h" "consec B c (c + blen h c)" "0 < blen h c" "blen h c < 0x7FFF" "blockno (nb (h ! c)) = c + blen h c"
      "c + blen h c < length h"
    using b by (simp_all add: blen_def v)
  have "(int b - int c) mod 0x10000 = int (b - c)" using l by (simp add: of_nat_diff)
  then show "block_size (blockno (nb (h ! c))) c = blen h c" by (simp add: block_size_def blen_def v)
qed

lemma search_best:
  assumes "umm_rep h B (xs @ ys)"
  shows "umm_search h k (after ys) bb bs ls = Some (best h k ys bb bs ls)"
  using assms
proof (induction ys arbitrary: xs bb bs ls)
  case Nil
  then show ?case by (simp add: after_def umm_search.simps)
next
  case (Cons c cs)
  have c: "c \<in> set (xs @ c # cs)" by simp
  note b = blen_free [OF Cons.prems c]
  note a = ring_around [OF Cons.prems]
  have "umm_rep h B ((xs @ [c]) @ cs)" using Cons.prems by simp
  note IH = Cons.IH [OF this]
  show ?case using a(2,9,10) b(3) by (subst umm_search.simps) (simp add: after_def [of "c # cs"] IH Let_def)
qed

section \<open>Malloc\<close>

text \<open>The first part of a free block is taken; the rest keeps its place in the free list.\<close>

lemma take_split:
  assumes r: "umm_rep h B (xs @ c # ys)" and b: "consec B c b" and d: "c < d" "d < b"
  shows "\<exists>g. umm_take h c (b - c) (d - c) = Some g \<and> umm_rep g (insert d B) (xs @ d # ys) \<and>
    umm_frame h g (insert d B) (insert d (insert 0 (set (xs @ c # ys))))"
proof -
  note a = ring_around [OF r]
  let ?fl = "xs @ c # ys"
  have dB: "d \<notin> B" using b d by (auto simp: consec_def)
  have sub: "set ?fl \<subseteq> B" "0 \<in> B" using r unfolding umm_rep_def by blast+
  have z: "z \<in> B" if "z \<in> insert 0 (set ?fl)" for z using that sub by blast
  have dis: "distinct (0 # xs @ c # ys)" by (rule rep_facts(8) [OF r])
  have "before xs \<in> B" "after ys \<in> B" using a(7,8) z [of "before xs"] z [of "after ys"] by auto
  then have di: "d \<notin> set ?fl" "d \<noteq> 0" "d \<noteq> before xs" "d \<noteq> after ys" using dB sub by (blast, metis+)
  have l: "b < length h" "d < length h" "length h \<le> 0x7FFF" using rep_facts(2,4) [OF r] consecD [OF b] d by (auto intro: less_trans)
  have v: "nb (h ! c) = b + 0x8000" "pb (h ! b) = c" using rep_facts(5,6) [OF r b] by simp_all
  have m: "blockno (b + 0x8000) = b" "or_free b True = b + 0x8000" "u16 d = d" using l masks [of b] by (simp_all add: or_free_def u16_def)
  define h4 where "h4 = put_nb (put_pb (put_pb (put_nb h d (b + 0x8000)) d c) b d) c d"
  define g where "g = put_nf (put_pf (put_pf (put_nf h4 (before xs) d) d (before xs)) (after ys) d) d (after ys)"
  have s4: "umm_split_block h c (d - c) True = Some h4"
    using l a(9) v d m by (simp add: umm_split_block_def h4_def)
  have l4: "length h4 = length h" "nf (h4 ! c) = after ys" "pf (h4 ! c) = before xs" using a(1,2,9) l d by (simp_all add: h4_def)
  have op: "umm_take h c (b - c) (d - c) = Some g"
    using d s4 l4 a(3-6,9) l m by (simp add: umm_take_def g_def eq_diff_iff)
  have lg: "length g = length h" by (simp add: g_def l4)
  have nbg: "nb (g ! x) = (if x = c then d else if x = d then b + 0x8000 else nb (h ! x))" for x
    using a(5,6,9) l by (simp add: g_def h4_def)
  have pbg: "pb (g ! x) = (if x = d then c else if x = b then d else pb (h ! x))" for x
    using a(5,6,9) l d by (simp add: g_def h4_def)
  have nfg: "nf (g ! x) = (if x = d then after ys else if x = before xs then d else nf (h ! x))" for x
    using a(5,6,9) l by (simp add: g_def h4_def)
  have pfg: "pf (g ! x) = (if x = after ys then d else if x = d then before xs else pf (h ! x))" for x
    using a(5,6,9) l by (simp add: g_def h4_def)
  have "umm_rep g (insert d B) (xs @ d # ys)"
  proof (rule split_rep [OF r b d])
    show "nf (g ! x) = y \<and> pf (g ! y) = x" if "(x, y) \<in> adj (ring (xs @ d # ys))" for x y
      using that unfolding adj_ring_mid
    proof (elim UnE)
      assume s: "(x, y) \<in> adj (0 # xs)"
      have "distinct (0 # xs @ ys)" using dis by simp
      then have "x \<in> set (0 # xs)" "x \<noteq> before xs" "y \<in> set xs" using ring_sides(1) [OF _ s] by blast+
      moreover have "nf (h ! x) = y \<and> pf (h ! y) = x" using rep_facts(7) [OF r, of x y] s by (simp add: adj_ring_mid)
      moreover have "y \<noteq> after ys" "x \<noteq> d" "y \<noteq> d" using \<open>y \<in> set xs\<close> \<open>x \<in> set (0 # xs)\<close> a(8) dis di by auto
      ultimately show ?thesis by (simp add: nfg pfg)
    next
      assume s: "(x, y) \<in> adj (ys @ [0])"
      have "distinct (0 # xs @ ys)" using dis by simp
      then have "x \<in> set ys" "y \<noteq> after ys" "y \<in> set (ys @ [0])" using ring_sides(2) [OF _ s] by blast+
      moreover have "nf (h ! x) = y \<and> pf (h ! y) = x" using rep_facts(7) [OF r, of x y] s by (simp add: adj_ring_mid)
      moreover have "x \<noteq> before xs" "x \<noteq> d" "y \<noteq> d" using \<open>x \<in> set ys\<close> \<open>y \<in> set (ys @ [0])\<close> a(7) dis di by auto
      ultimately show ?thesis by (simp add: nfg pfg)
    qed (use di in \<open>auto simp: nfg pfg\<close>)
  qed (use dis di in \<open>auto simp: lg nbg pbg\<close>)
  moreover have "umm_frame h g (insert d B) (insert d (insert 0 (set ?fl)))"
    unfolding umm_frame_def
  proof (intro conjI allI impI)
    show "g ! x = h ! x" if "x \<notin> insert d B" for x
    proof -
      have "b \<in> B" "c \<in> B" "before xs \<in> B" "after ys \<in> B" using consecD [OF b] z a(7,8) by auto
      then have "x \<noteq> b \<and> x \<noteq> c \<and> x \<noteq> before xs \<and> x \<noteq> after ys \<and> x \<noteq> d" using that by blast
      then show ?thesis by (simp add: g_def h4_def put_defs)
    qed
  qed (use a(7,8) in \<open>auto simp: lg nfg pfg\<close>)
  ultimately show ?thesis using op by blast
qed

lemma used_split:
  assumes "consec B c b" and "c < d" and "d < b" and "c \<noteq> 0" and "c \<in> set fl" and "c \<notin> set fl'" and "set fl' - {d} = set fl - {c}"
    and "d \<in> set fl'"
  shows "used (insert d B) fl' = used B fl \<union> {(c, d)}"
proof -
  have sub: "x \<in> set fl' \<longleftrightarrow> x \<in> set fl" if "x \<noteq> c" "x \<noteq> d" for x using assms(7) that by blast
  have "d \<notin> B" using assms(1-3) by (auto simp: consec_def)
  then have "x \<noteq> d" if "consec B x y" for x y using consecD [OF that] by auto
  then show ?thesis
    using assms(2,4-6,8) sub unfolding used_def by (auto simp: consec_split [OF assms(1-3)]) metis
qed

lemma used_disconnect:
  assumes "consec B c b" and "c \<noteq> 0" and "distinct (xs @ c # ys)"
  shows "used B (xs @ ys) = used B (xs @ c # ys) \<union> {(c, b)}"
  using assms consec_iff [OF assms(1)] by (auto simp: used_def)

text \<open>A free block, whole or its first \<open>k\<close> cells.\<close>

lemma take_spec:
  assumes r: "umm_rep h B fl" and c: "c \<in> set fl" and k: "0 < k" "k \<le> blen h c"
  shows "\<exists>g B' fl'. umm_take h c (blen h c) k = Some g \<and> umm_rep g B' fl' \<and> used B' fl' = used B fl \<union> {(c, c + k)} \<and>
    length g = length h \<and> (\<forall>(x, y)\<in>used B fl. content g x y = content h x y)"
proof -
  obtain xs ys where fl: "fl = xs @ c # ys" using c by (meson split_list)
  note b = blen_free [OF r c]
  have dis: "distinct (0 # xs @ c # ys)" using rep_facts(8) [OF r] by (simp only: fl)
  have c0: "c \<noteq> 0" using dis by auto
  show ?thesis
  proof (cases "k = blen h c")
    case True
    obtain g where g: "umm_disconnect_from_free_list h c = Some g" "umm_rep g B (xs @ ys)" "umm_frame h g B (insert 0 (set fl))"
      using disconnect_spec r unfolding fl by blast
    have "used B (xs @ ys) = used B fl \<union> {(c, c + k)}" using used_disconnect [OF b(2) c0, of xs ys] dis by (simp add: True fl)
    moreover have "content g x y = content h x y" if "(x, y) \<in> used B fl" for x y
      by (rule frame_content [OF g(3)]) (use that in \<open>auto simp: used_def consec_def\<close>)
    moreover have "length g = length h" using g(3) by (simp add: umm_frame_def)
    moreover have "umm_take h c (blen h c) k = Some g" using g(1) True by (simp add: umm_take_def)
    ultimately show ?thesis using g(2) by blast
  next
    case False
    then have d: "c < c + k" "c + k < c + blen h c" using k by simp_all
    obtain g where g: "umm_take h c (blen h c) k = Some g" "umm_rep g (insert (c + k) B) (xs @ (c + k) # ys)"
        "umm_frame h g (insert (c + k) B) (insert (c + k) (insert 0 (set fl)))"
      using take_split [OF r [unfolded fl] b(2) d] by (auto simp: fl)
    have "c + k \<notin> B" using b(2) d by (auto simp: consec_def)
    then have dk: "c + k \<notin> set fl" using r by (auto simp: umm_rep_def)
    then have us: "used (insert (c + k) B) (xs @ (c + k) # ys) = used B fl \<union> {(c, c + k)}"
      by (intro used_split [OF b(2) d c0]) (use dis k in \<open>auto simp: fl\<close>)
    have "content g x y = content h x y" if xy: "(x, y) \<in> used B fl" for x y
    proof (rule frame_content [OF g(3)])
      show "x \<notin> insert (c + k) (insert 0 (set fl))" using used_facts(2,3,8) [OF r xy] \<open>c + k \<notin> B\<close> by auto
      show "z \<notin> insert (c + k) B" if "x < z" "z < y" for z by (rule used_gap [OF _ that]) (use us xy in blast)
    qed
    moreover have "length g = length h" using g(3) by (simp add: umm_frame_def)
    ultimately show ?thesis using g us by blast
  qed
qed

text \<open>The size in cells: exact below 524277 bytes, and enough for the bytes asked for.\<close>

lemma umm_blocks_pos: "sz < 524277 \<Longrightarrow> 0 < umm_blocks sz"
  by (simp add: umm_blocks_def u16_def)

lemma umm_blocks_enough: "sz < 524277 \<Longrightarrow> sz + 4 \<le> 8 * umm_blocks sz \<and> (4 < sz \<longrightarrow> 8 * umm_blocks sz < sz + 12)"
proof -
  assume "sz < 524277"
  then have "2 + (sz - 5) div 8 < 0x10000" by auto
  then show ?thesis by (auto simp: umm_blocks_def u16_def)
qed

lemma malloc_spec:
  assumes r: "umm_rep h B fl" and sz: "0 < sz" and k: "0 < umm_blocks sz"
  shows "umm_malloc N (Some h) sz = Some (h, None) \<and> (\<forall>c\<in>set fl. blen h c < umm_blocks sz) \<or>
    (\<exists>g c B' fl'. umm_malloc N (Some h) sz = Some (g, Some (UMM_DATA c)) \<and> umm_rep g B' fl' \<and> length g = length h \<and>
      c \<in> set fl \<and> umm_blocks sz \<le> blen h c \<and> (\<forall>d\<in>set fl. umm_blocks sz \<le> blen h d \<longrightarrow> blen h c \<le> blen h d) \<and>
      used B' fl' = used B fl \<union> {(c, c + umm_blocks sz)} \<and> (\<forall>(x, y)\<in>used B fl. content g x y = content h x y))"
proof -
  let ?k = "umm_blocks sz"
  have l0: "0 < length h" using r by (auto simp: umm_rep_def)
  obtain n where n: "consec B 0 n" using rep_next [OF r, of 0] r by (auto simp: umm_rep_def)
  have n0: "blockno (nb (h ! 0)) \<noteq> 0" using is_free_iff(2) [OF r n] consecD [OF n] by simp
  have first: "nf (h ! 0) = after fl"
    using rep_facts(7) [OF r, of 0 "after fl"] adj_ring_join [of "[]" fl] by (simp add: before_def)
  have se: "umm_search h ?k (after fl) (after fl) 0x7FFF 0 = Some (best h ?k fl (after fl) 0x7FFF 0)"
    by (rule search_best [of h B "[]"]) (use r in simp)
  obtain b s l where best: "best h ?k fl (after fl) 0x7FFF 0 = (b, s, l)" by (metis prod_cases3)
  note bs = best_spec [OF best]
  show ?thesis
  proof (cases "s = 0x7FFF")
    case True
    have small: "blen h c < ?k" if "c \<in> set fl" for c using bs(3) [OF that] blen_free(5) [OF r that] True by linarith
    have "l < ?k" using bs(4) small [of "last fl"] k by (auto split: if_splits)
    then have "umm_malloc N (Some h) sz = Some (h, None)"
      using sz first se best True n0 l0 by (simp add: umm_malloc_def umm_ready_def Let_def)
    then show ?thesis using small by blast
  next
    case False
    then have b: "b \<in> set fl" "s = blen h b" "?k \<le> s" using bs(1) by auto
    note bf = blen_free [OF r b(1)]
    obtain g B' fl' where g: "umm_take h b (blen h b) ?k = Some g" "umm_rep g B' fl'" "used B' fl' = used B fl \<union> {(b, b + ?k)}"
        "length g = length h" "\<forall>(x, y)\<in>used B fl. content g x y = content h x y"
      using take_spec [OF r b(1) k] b(2,3) by blast
    have nz: "blockno (nb (h ! b)) \<noteq> 0" using bf(4,6) by simp
    have op: "umm_malloc N (Some h) sz = Some (g, Some (UMM_DATA b))"
      using sz first se best False nz l0 bf(1) b(2,3) g(1) by (simp add: umm_malloc_def umm_ready_def Let_def)
    show ?thesis using op g b bs(3) by blast
  qed
qed

end
