(* ===== verification/UmmRealloc.thy ===== *)
theory UmmRealloc
  imports UmmProps
begin

text \<open>
  \<open>umm_realloc\<close> on a heap with the invariant: what is written inside of a block in use, moving a block down into a free
  one, giving back the end of a block.
\<close>

section \<open>Writing inside of a block in use\<close>

lemma consec_disjoint: "consec B x y \<Longrightarrow> consec B c b \<Longrightarrow> x \<noteq> c \<Longrightarrow> y \<le> c \<or> b \<le> x"
  unfolding consec_def by (metis linorder_neqE_nat not_le)

lemma write_rep:
  assumes r: "umm_rep h B fl" and u: "(c, b) \<in> used B fl" and lg: "length g = length h"
    and out: "\<And>x. x < length h \<Longrightarrow> x < c \<or> b \<le> x \<Longrightarrow> g ! x = h ! x" and hd: "nb (g ! c) = nb (h ! c)" "pb (g ! c) = pb (h ! c)"
  shows "umm_rep g B fl" and "\<And>x y. (x, y) \<in> used B fl \<Longrightarrow> x \<noteq> c \<Longrightarrow> content g x y = content h x y"
proof -
  note uf = used_facts [OF r u]
  have same: "g ! x = h ! x" if "x \<in> B" "x \<noteq> c" for x
    using out [of x] used_gap [OF u, of x] rep_facts(2) [OF r, of x] that by (metis linorder_neqE_nat not_le)
  then have nbs: "nb (g ! x) = nb (h ! x)" "pb (g ! x) = pb (h ! x)" if "x \<in> B" for x using that hd by (cases "x = c"; simp)+
  have fls: "g ! x = h ! x" if "x \<in> insert 0 (set fl)" for x
  proof (rule same)
    show "x \<in> B" using that r by (auto simp: umm_rep_def)
    show "x \<noteq> c" using that uf(2,3) by auto
  qed
  show "umm_rep g B fl"
    unfolding umm_rep_def lg
  proof (intro conjI allI impI ballI)
    show "nb (g ! x) = (if x \<in> set fl then y + 0x8000 else y)" "pb (g ! y) = x" if "consec B x y" for x y
      using rep_facts(5,6) [OF r that] consecD [OF that] nbs by simp_all
    show "nb (g ! (length h - 1)) = 0" using r nbs [of "length h - 1"] by (simp add: umm_rep_def)
    show "case p of (x, y) \<Rightarrow> nf (g ! x) = y \<and> pf (g ! y) = x" if "p \<in> adj (ring fl)" for p
    proof -
      obtain x y where p: "p = (x, y)" by (cases p)
      have "x \<in> insert 0 (set fl)" "y \<in> insert 0 (set fl)" using adj_in [of x y "ring fl"] that p by (auto simp: ring_def butlast_append)
      then show ?thesis using rep_facts(7) [OF r, of x y] that fls p by simp
    qed
  qed (use r in \<open>auto simp: umm_rep_def\<close>)
  show "content g x y = content h x y" if xy: "(x, y) \<in> used B fl" and "x \<noteq> c" for x y
  proof -
    have "consec B x y" using xy by (simp add: used_def)
    then have "y \<le> c \<or> b \<le> x" "x < y" "y < length h"
      using consec_disjoint [OF _ uf(1) \<open>x \<noteq> c\<close>] used_facts(5,6) [OF r xy] by auto
    then show ?thesis using out by (intro content_cong) auto
  qed
qed

text \<open>Copying the data of \<open>n\<close> cells.\<close>

lemma move_spec:
  assumes "0 < n" and "src + n \<le> length h" and "dst + n \<le> length h"
  shows "\<exists>g. umm_move h dst src n = Some g \<and> length g = length h \<and> (\<forall>x<length h. x < dst \<or> dst + n \<le> x \<longrightarrow> g ! x = h ! x) \<and>
    nb (g ! dst) = nb (h ! dst) \<and> pb (g ! dst) = pb (h ! dst) \<and> content g dst (dst + n) = content h src (src + n)"
proof -
  define h1 where "h1 = h[dst := (h ! dst)\<lparr>nf := nf (h ! src), pf := pf (h ! src)\<rparr>]"
  define cells where "cells = take (n - 1) (drop (src + 1) h)"
  have lc: "length cells = n - 1" using assms by (simp add: cells_def)
  define g where "g = take (dst + 1) h1 @ cells @ drop (dst + 1 + (n - 1)) h1"
  have op: "umm_move h dst src n = Some g"
    using assms lc by (simp add: umm_move_def rd_def wr_def rdn_def wrn_def h1_def cells_def g_def)
  have lg: "length g = length h" using assms lc by (simp add: g_def h1_def)
  have nth: "g ! x = (if dst < x \<and> x < dst + n then h ! (src + (x - dst)) else h1 ! x)" if "x < length h" for x
  proof -
    consider "x \<le> dst" | "dst < x" "x < dst + n" | "dst + n \<le> x" by linarith
    then show ?thesis
    proof cases
      case 2
      then have "g ! x = cells ! (x - (dst + 1))" using assms lc by (simp add: g_def nth_append h1_def)
      also have "\<dots> = h ! (src + 1 + (x - (dst + 1)))" using assms 2 by (simp add: cells_def)
      finally show ?thesis using 2 by (simp add: Suc_diff_Suc)
    qed (use that assms lc in \<open>auto simp: g_def nth_append h1_def\<close>)
  qed
  have "content g dst (dst + n) = content h src (src + n)"
  proof -
    have "map (\<lambda>x. [nb (g ! x), pb (g ! x), nf (g ! x), pf (g ! x)]) [dst + 1..<dst + n] =
        map (\<lambda>x. [nb (h ! x), pb (h ! x), nf (h ! x), pf (h ! x)]) [src + 1..<src + n]"
    proof (rule nth_equalityI)
      show "map (\<lambda>x. [nb (g ! x), pb (g ! x), nf (g ! x), pf (g ! x)]) [dst + 1..<dst + n] ! i =
          map (\<lambda>x. [nb (h ! x), pb (h ! x), nf (h ! x), pf (h ! x)]) [src + 1..<src + n] ! i"
        if "i < length (map (\<lambda>x. [nb (g ! x), pb (g ! x), nf (g ! x), pf (g ! x)]) [dst + 1..<dst + n])" for i
      proof -
        have "i < n - 1" using that by simp
        then have "g ! (dst + 1 + i) = h ! (src + 1 + i)" using nth [of "dst + 1 + i"] assms by simp
        then show ?thesis using that by simp
      qed
    qed simp
    moreover have "g ! dst = h1 ! dst" using nth [of dst] assms by simp
    ultimately show ?thesis using assms by (simp add: content_def h1_def)
  qed
  then show ?thesis using op lg nth assms by (auto simp: h1_def nth_list_update)
qed

lemma length_content: "c < b \<Longrightarrow> length (content h c b) = 4 * (b - c) - 2"
  by (simp add: content_def length_concat comp_def sum_list_triv)

lemma content_take:
  assumes "0 < k" and "c + k \<le> b"
  shows "content h c (c + k) = take (4 * k - 2) (content h c b)"
proof -
  have "[c + 1..<b] = [c + 1..<c + k] @ [c + k..<b]" using assms upt_add_eq_append [of "c + 1" "c + k" "b - (c + k)"] by simp
  then have "content h c b = content h c (c + k) @ concat (map (\<lambda>x. [nb (h ! x), pb (h ! x), nf (h ! x), pf (h ! x)]) [c + k..<b])"
    by (simp add: content_def)
  then show ?thesis using length_content [of c "c + k" h] assms(1) by simp
qed

section \<open>The steps of realloc\<close>

text \<open>A block is moved down into the free block below it.\<close>

lemma down_spec:
  assumes r: "umm_rep h B fl" and u: "(c, b) \<in> used B fl" and pc: "consec B p c" and p: "p \<in> set fl" and n: "0 < n" "c + n \<le> b"
  shows "\<exists>h1 h2 g B' fl'. umm_disconnect_from_free_list h p = Some h1 \<and> umm_assimilate_down h1 c False = Some (h2, p) \<and>
    umm_move h2 p c n = Some g \<and> umm_rep g B' fl' \<and> length g = length h \<and>
    used B' fl' = used B fl - {(c, b)} \<union> {(p, b)} \<and> content g p (p + n) = content h c (c + n) \<and>
    (\<forall>(x, y)\<in>used B fl - {(c, b)}. content g x y = content h x y) \<and> (b \<notin> set fl \<longrightarrow> b \<notin> set fl') \<and>
    nb (g ! p) = b \<and> B' = B - {c} \<and> set fl' = set fl - {p}"
proof -
  note uf = used_facts [OF r u]
  obtain xs ys where fl: "fl = xs @ p # ys" using p by (meson split_list)
  have pl: "p < c" "p < length h" "0 < p" using consecD [OF pc] uf(4) rep_facts(3) [OF r p] by auto
  have dis: "distinct (0 # xs @ p # ys)" using rep_facts(8) [OF r] by (simp only: fl)
  obtain h1 where h1: "umm_disconnect_from_free_list h p = Some h1" "umm_rep h1 B (xs @ ys)"
      "umm_frame h h1 B (insert 0 (set fl))" "\<And>x. pb (h1 ! x) = pb (h ! x)"
    using disconnect_spec r unfolding fl by blast
  have l1: "length h1 = length h" using h1(3) by (simp add: umm_frame_def)
  have v: "nb (h1 ! c) = b" "pb (h1 ! c) = p"
    using rep_facts(5) [OF h1(2) uf(1)] rep_facts(6) [OF h1(2) pc] uf(3) by (simp_all add: fl)
  define h2 where "h2 = put_pb (put_nb h1 p b) b p"
  have op2: "umm_assimilate_down h1 c False = Some (h2, p)"
    using v l1 pl uf by (simp add: umm_assimilate_down_def h2_def or_free_def)
  have pn: "p \<notin> set (xs @ ys)" "c \<notin> set (xs @ ys)" using dis uf(3) by (auto simp: fl)
  have r2: "umm_rep h2 (B - {c}) (xs @ ys)"
    by (rule merge_rep [OF h1(2) pl(3) pc uf(1)]) (use pn uf pl l1 in \<open>auto simp: h2_def\<close>)
  have "umm_frame h1 h2 B (insert 0 (set fl))"
    using pl uf l1 consecD [OF pc] by (auto simp: umm_frame_def h2_def put_defs nth_list_update)
  then have f2: "umm_frame h h2 B (insert 0 (set fl))" by (rule frame_trans [OF h1(3)]) auto
  have l2: "length h2 = length h" using f2 by (simp add: umm_frame_def)
  have us: "used (B - {c}) (xs @ ys) = used B fl - {(c, b)} \<union> {(p, b)}"
  proof -
    have "used B (xs @ ys) = used B fl \<union> {(p, c)}" using used_disconnect [OF pc, of xs ys] pl dis by (simp add: fl)
    then show ?thesis
      unfolding used_merge [OF pc uf(1)] using pn pl consec_iff [OF uf(1)] consec_iff [OF pc] p by (auto simp: used_def)
  qed
  obtain g where g: "umm_move h2 p c n = Some g" "length g = length h2" "\<forall>x<length h2. x < p \<or> p + n \<le> x \<longrightarrow> g ! x = h2 ! x"
      "nb (g ! p) = nb (h2 ! p)" "pb (g ! p) = pb (h2 ! p)" "content g p (p + n) = content h2 c (c + n)"
    using move_spec [OF n(1), of c h2 p] n(2) l2 uf(5) pl(1) by auto
  have pb2: "(p, b) \<in> used (B - {c}) (xs @ ys)" using us by blast
  have out: "g ! x = h2 ! x" if "x < length h2" "x < p \<or> b \<le> x" for x using g(3) that n(2) pl(1) by auto
  note w = write_rep [OF r2 pb2 g(2) out g(4,5)]
  have same: "content h2 x y = content h x y" if "(x, y) \<in> used B fl" for x y
    by (rule frame_content [OF f2]) (use that in \<open>auto simp: used_def consec_def\<close>)
  have cc: "content g p (p + n) = content h c (c + n)"
    unfolding g(6) by (rule frame_content [OF f2]) (use uf n used_gap [OF u] in auto)
  have oth: "content g x y = content h x y" if xy: "(x, y) \<in> used B fl - {(c, b)}" for x y
  proof -
    have "x \<noteq> p" using xy p by (auto simp: used_def)
    moreover have "(x, y) \<in> used (B - {c}) (xs @ ys)" unfolding us using xy by simp
    ultimately have "content g x y = content h2 x y" by (intro w(2))
    also have "\<dots> = content h x y" by (rule same) (use xy in simp)
    finally show ?thesis .
  qed
  have nbp: "nb (g ! p) = b" using g(4) pl uf l1 by (simp add: h2_def)
  have "set (xs @ ys) = set fl - {p}" using dis by (auto simp: fl)
  moreover have "b \<notin> set fl \<longrightarrow> b \<notin> set (xs @ ys)" by (auto simp: fl)
  moreover have "length g = length h" using g(2) l2 by simp
  moreover have "\<forall>(x, y)\<in>used B fl - {(c, b)}. content g x y = content h x y" using oth by blast
  ultimately show ?thesis using h1(1) op2 g(1) w(1) us cc nbp by (intro exI conjI) (assumption | rule refl)+
qed

text \<open>The end of a block is given back.\<close>

lemma shrink_spec:
  assumes r: "umm_rep h B fl" and u: "(c, b) \<in> used B fl" and d: "c < d" "d < b"
  shows "\<exists>h1 g B' fl'. umm_split_block h c (d - c) False = Some h1 \<and> umm_free h1 (Some (UMM_DATA d)) = Some g \<and>
    umm_rep g B' fl' \<and> length g = length h \<and> used B' fl' = used B fl - {(c, b)} \<union> {(c, d)} \<and>
    content g c d = content h c d \<and> (\<forall>(x, y)\<in>used B fl - {(c, b)}. content g x y = content h x y)"
proof -
  note uf = used_facts [OF r u]
  have dB: "d \<notin> B" by (rule used_gap [OF u d])
  then have dfl: "d \<notin> set fl" using r by (auto simp: umm_rep_def)
  have l: "d < length h" "d < 0x8000" using uf d by auto
  define h1 where "h1 = put_nb (put_pb (put_pb (put_nb h d b) d c) b d) c d"
  have op: "umm_split_block h c (d - c) False = Some h1"
    using uf l d masks(1) [OF uf(7)] by (simp add: umm_split_block_def h1_def or_free_def u16_def)
  have lh: "length h1 = length h" by (simp add: h1_def)
  have nfs: "nf (h1 ! x) = nf (h ! x)" "pf (h1 ! x) = pf (h ! x)" for x using uf(4,5) l by (auto simp: h1_def)
  have r1: "umm_rep h1 (insert d B) fl"
  proof (rule split_rep [OF r uf(1) d])
    show "nf (h1 ! x) = y \<and> pf (h1 ! y) = x" if "(x, y) \<in> adj (ring fl)" for x y
      using rep_facts(7) [OF r that] by (simp add: nfs)
  qed (use uf dfl rep_facts(8) [OF r] l d in \<open>auto simp: h1_def\<close>)
  have us: "used (insert d B) fl = used B fl - {(c, b)} \<union> {(c, d), (d, b)}"
    using uf dfl d consec_iff [OF uf(1)] by (auto simp: used_def consec_split [OF uf(1) d])
  have f1: "umm_frame h h1 (insert d B) {}"
  proof -
    have "h1 ! x = h ! x" if "x \<notin> insert d B" for x
    proof -
      have "x \<noteq> d \<and> x \<noteq> c \<and> x \<noteq> b" using that uf(8,9) by blast
      then show ?thesis by (simp add: h1_def put_defs)
    qed
    then show ?thesis by (simp add: umm_frame_def lh nfs)
  qed
  have db: "(d, b) \<in> used (insert d B) fl" by (simp add: us)
  obtain g B' fl' where g: "umm_free h1 (Some (UMM_DATA d)) = Some g" "umm_rep g B' fl'" "length g = length h1"
      "used B' fl' = used (insert d B) fl - {(d, b)}" "\<forall>(x, y)\<in>used B' fl'. content g x y = content h1 x y"
    using free_spec [OF r1 db] by blast
  have us': "used B' fl' = used B fl - {(c, b)} \<union> {(c, d)}"
    unfolding g(4) us using dB d used_facts(8) [OF r] by blast
  have same: "content g x y = content h x y" if xy: "(x, y) \<in> used B' fl'" for x y
  proof -
    have "(x, y) \<in> used (insert d B) fl" using xy g(4) by simp
    then have "content h1 x y = content h x y" by (intro frame_content [OF f1]) (auto dest: used_gap)
    then show ?thesis using g(5) xy by auto
  qed
  show ?thesis using op g(1-3) lh us' same by (intro exI [of _ h1] exI [of _ g] exI [of _ B'] exI [of _ fl']) auto
qed

text \<open>A block that cannot grow is copied and freed.\<close>

lemma copy_free_spec:
  assumes r: "umm_rep h B fl" and u: "(c, b) \<in> used B fl" and n: "0 < n" "c + n \<le> b" and sz: "0 < sz" "sz < 524277" "n \<le> umm_blocks sz"
  shows "(\<exists>g B' fl'. umm_malloc N (Some h) sz = Some (h, None) \<and> umm_free h (Some (UMM_DATA c)) = Some g \<and> umm_rep g B' fl' \<and>
      length g = length h \<and> used B' fl' = used B fl - {(c, b)} \<and> (\<forall>(x, y)\<in>used B' fl'. content g x y = content h x y) \<and>
      (\<forall>x\<in>set fl. blen h x < umm_blocks sz)) \<or>
    (\<exists>h1 q h2 g B' fl'. umm_malloc N (Some h) sz = Some (h1, Some (UMM_DATA q)) \<and> umm_move h1 q c n = Some h2 \<and> q \<in> set fl \<and>
      q < 0x8000 \<and> umm_free h2 (Some (UMM_DATA c)) = Some g \<and> umm_rep g B' fl' \<and> length g = length h \<and>
      used B' fl' = used B fl - {(c, b)} \<union> {(q, q + umm_blocks sz)} \<and> content g q (q + n) = content h c (c + n) \<and>
      (\<forall>(x, y)\<in>used B fl - {(c, b)}. content g x y = content h x y))"
proof -
  let ?k = "umm_blocks sz"
  note uf = used_facts [OF r u]
  consider (none) "umm_malloc N (Some h) sz = Some (h, None)" "\<forall>x\<in>set fl. blen h x < ?k"
    | (some) h1 q B1 fl1 where "umm_malloc N (Some h) sz = Some (h1, Some (UMM_DATA q))" "umm_rep h1 B1 fl1" "length h1 = length h"
        "q \<in> set fl" "used B1 fl1 = used B fl \<union> {(q, q + ?k)}" "\<forall>(x, y)\<in>used B fl. content h1 x y = content h x y"
    using malloc_spec [OF r sz(1) umm_blocks_pos [OF sz(2)], of N] by (elim disjE exE conjE) blast+
  then show ?thesis
  proof cases
    case none
    then show ?thesis using free_spec [OF r u] by blast
  next
    case some
    have qu: "(q, q + ?k) \<in> used B1 fl1" and cu: "(c, b) \<in> used B1 fl1" using some(5) u by simp_all
    have qc: "q \<noteq> c" using some(4) uf(3) by auto
    note qf = used_facts [OF some(2) qu]
    obtain h2 where h2: "umm_move h1 q c n = Some h2" "length h2 = length h1" "\<forall>x<length h1. x < q \<or> q + n \<le> x \<longrightarrow> h2 ! x = h1 ! x"
        "nb (h2 ! q) = nb (h1 ! q)" "pb (h2 ! q) = pb (h1 ! q)" "content h2 q (q + n) = content h1 c (c + n)"
      using move_spec [OF n(1), of c h1 q] n(2) uf(5) some(3) sz(3) qf(5) by auto
    have out: "h2 ! x = h1 ! x" if "x < length h1" "x < q \<or> q + ?k \<le> x" for x using h2(3) that sz(3) by auto
    note w = write_rep [OF some(2) qu h2(2) out h2(4,5)]
    obtain g B' fl' where g: "umm_free h2 (Some (UMM_DATA c)) = Some g" "umm_rep g B' fl'" "length g = length h2"
        "used B' fl' = used B1 fl1 - {(c, b)}" "\<forall>(x, y)\<in>used B' fl'. content g x y = content h2 x y"
      using free_spec [OF w(1) cu] by blast
    have us: "used B' fl' = used B fl - {(c, b)} \<union> {(q, q + ?k)}" unfolding g(4) some(5) using qc by blast
    have "content g q (q + ?k) = content h2 q (q + ?k)" using g(5) us by blast
    then have "content g q (q + n) = content h2 q (q + n)" using content_take [OF n(1), of q "q + ?k"] sz(3) by simp
    also have "\<dots> = take (4 * n - 2) (content h1 c b)" unfolding h2(6) by (rule content_take [OF n])
    also have "content h1 c b = content h c b" using some(6) u by blast
    finally have cq: "content g q (q + n) = content h c (c + n)" using content_take [OF n] by simp
    have oth: "content g x y = content h x y" if xy: "(x, y) \<in> used B fl - {(c, b)}" for x y
    proof -
      have xq: "x \<noteq> q" using xy some(4) by (auto simp: used_def)
      have "content g x y = content h2 x y" using g(5) us xy by blast
      also have "\<dots> = content h1 x y" by (rule w(2)) (use some(5) xy xq in auto)
      also have "\<dots> = content h x y" using some(6) xy by blast
      finally show ?thesis .
    qed
    have "q < 0x8000" using qf(6,7) by linarith
    moreover have "length g = length h" using g(3) h2(2) some(3) by simp
    moreover have "\<forall>(x, y)\<in>used B fl - {(c, b)}. content g x y = content h x y" using oth by blast
    ultimately show ?thesis using some(1,4) h2(1) g(1,2) us cq by (intro disjI2 exI conjI)
  qed
qed

section \<open>Realloc\<close>

lemma block_size_diff: "c < b \<Longrightarrow> b < 0x8000 \<Longrightarrow> block_size b c = b - c"
proof -
  assume "c < b" "b < 0x8000"
  then have "(int b - int c) mod 0x10000 = int (b - c)" by (simp add: of_nat_diff)
  then show ?thesis by (simp add: block_size_def)
qed

text \<open>
  What realloc promises: the other blocks \<open>U\<close> are kept, the old block is gone, and a new block of \<open>k\<close> cells, if there is
  one, begins with the first cells of the old one, which had \<open>l\<close> cells from \<open>c\<close>.
\<close>

definition realloc_post :: "umm_mem \<Rightarrow> (nat \<times> nat) set \<Rightarrow> nat \<Rightarrow> nat \<Rightarrow> nat \<Rightarrow> umm_mem \<Rightarrow> nat option \<Rightarrow> bool" where
  "realloc_post h U c l k g res = (\<exists>B fl. umm_rep g B fl \<and> length g = length h \<and> (\<forall>(x, y)\<in>U. content g x y = content h x y) \<and>
     (case res of None \<Rightarrow> used B fl = U
      | Some q \<Rightarrow> \<exists>d. q = UMM_DATA d \<and> used B fl = insert (d, d + k) U \<and> (\<forall>y. (d, y) \<notin> U) \<and>
          content g d (d + min k l) = content h c (c + min k l)))"

lemma realloc_postI:
  assumes "umm_rep g B fl" and "length g = length h" and "\<forall>(x, y)\<in>U. content g x y = content h x y" and "used B fl = U \<union> {(d, d + k)}"
    and "\<And>y. (d, y) \<notin> U" and "content g d (d + min k l) = content h c (c + min k l)"
  shows "realloc_post h U c l k g (Some (UMM_DATA d))"
proof -
  have "used B fl = insert (d, d + k) U" using assms(4) by simp
  then show ?thesis
    unfolding realloc_post_def option.case using assms by (intro exI [of _ B] exI [of _ fl] exI [of _ d] conjI allI) auto
qed

text \<open>The part of realloc behind the assimilation.\<close>

definition realloc_tail :: "nat \<Rightarrow> umm_mem \<Rightarrow> nat \<Rightarrow> nat \<Rightarrow> nat \<Rightarrow> nat \<Rightarrow> (umm_mem \<times> nat option) option" where
  "realloc_tail N h2 c2 oldSize blocks sz = do {
     n2 \<leftarrow> UMM_NBLOCK h2 c2;
     let blockSize = block_size n2 c2;
     if blockSize = blocks then Some (h2, Some (UMM_DATA c2))
     else if blocks < blockSize
     then do {
       h3 \<leftarrow> umm_split_block h2 c2 blocks False;
       h4 \<leftarrow> umm_free h3 (Some (UMM_DATA (c2 + blocks)));
       Some (h4, Some (UMM_DATA c2)) }
     else do {
       (h3, q) \<leftarrow> umm_malloc N (Some h2) sz;
       h4 \<leftarrow> (case q of None \<Rightarrow> Some h3 | Some b \<Rightarrow> umm_move h3 (block_of_ptr b) c2 oldSize);
       h5 \<leftarrow> umm_free h4 (Some (UMM_DATA c2));
       Some (h5, q) } }"

lemma used_own: "(c, b) \<in> used B fl \<Longrightarrow> (c, y) \<notin> used B fl - {(c, b)}"
  using used_once by fastforce

lemma realloc_tail_spec:
  assumes r: "umm_rep h B fl" and u: "(c, b) \<in> used B fl" and l: "0 < l" "c + l \<le> b" and sz: "0 < sz" "sz < 524277"
  shows "\<exists>g res. realloc_tail N h c l (umm_blocks sz) sz = Some (g, res) \<and>
    realloc_post h (used B fl - {(c, b)}) c l (umm_blocks sz) g res \<and>
    (res = None \<longrightarrow> b - c < umm_blocks sz \<and> (\<forall>x\<in>set fl. blen h x < umm_blocks sz))"
proof -
  let ?k = "umm_blocks sz" and ?U = "used B fl - {(c, b)}"
  note uf = used_facts [OF r u]
  have k: "0 < ?k" by (rule umm_blocks_pos [OF sz(2)])
  have n2: "UMM_NBLOCK h c = Some b" "block_size b c = b - c" using uf block_size_diff [OF uf(6,7)] by simp_all
  consider "b = c + ?k" | "c + ?k < b" | "b - c < ?k" using uf(6) by linarith
  then show ?thesis
  proof cases
    case 1
    then have "realloc_tail N h c l ?k sz = Some (h, Some (UMM_DATA c))" using n2 by (simp add: realloc_tail_def)
    moreover have "used B fl = ?U \<union> {(c, c + ?k)}" using u 1 by blast
    then have "realloc_post h ?U c l ?k h (Some (UMM_DATA c))" by (intro realloc_postI [OF r] used_own [OF u]) auto
    ultimately show ?thesis by blast
  next
    case 2
    then obtain h1 g B' fl' where g: "umm_split_block h c ?k False = Some h1" "umm_free h1 (Some (UMM_DATA (c + ?k))) = Some g"
        "umm_rep g B' fl'" "length g = length h" "used B' fl' = ?U \<union> {(c, c + ?k)}"
        "content g c (c + ?k) = content h c (c + ?k)" "\<forall>(x, y)\<in>?U. content g x y = content h x y"
      using shrink_spec [OF r u, of "c + ?k"] k by auto
    have "realloc_tail N h c l ?k sz = Some (g, Some (UMM_DATA c))" using n2 2 g(1,2) by (auto simp: realloc_tail_def Let_def)
    moreover have "content g c (c + min ?k l) = content h c (c + min ?k l)"
      using g(6) content_take [of "min ?k l" c "c + ?k"] k l by simp
    then have "realloc_post h ?U c l ?k g (Some (UMM_DATA c))" by (intro realloc_postI [OF g(3,4,7,5)] used_own [OF u])
    ultimately show ?thesis by blast
  next
    case 3
    then have nk: "\<not> ?k \<le> b - c" "l \<le> ?k" using l by linarith+
    from copy_free_spec [OF r u l sz nk(2), of N] show ?thesis
    proof (elim disjE exE conjE, goal_cases)
      case (1 g B' fl')
      then have "realloc_tail N h c l ?k sz = Some (g, None)" using n2 nk by (auto simp: realloc_tail_def Let_def)
      moreover have "realloc_post h ?U c l ?k g None" unfolding realloc_post_def using 1 by auto
      ultimately show ?thesis using 1 3 by blast
    next
      case (2 h1 q h2 g B' fl')
      then have "realloc_tail N h c l ?k sz = Some (g, Some (UMM_DATA q))"
        using n2 nk by (auto simp: realloc_tail_def block_of_UMM_DATA Let_def)
      moreover have "realloc_post h ?U c l ?k g (Some (UMM_DATA q))"
        by (rule realloc_postI [OF 2(6,7,10,8)]) (use 2(3,9) nk in \<open>auto simp: used_def min_def\<close>)
      ultimately show ?thesis by blast
    qed
  qed
qed

lemma realloc_post_trans:
  assumes "realloc_post h2 U c2 l k g res" and "length h2 = length h" and "\<forall>(x, y)\<in>U. content h2 x y = content h x y"
    and "content h2 c2 (c2 + l) = content h c (c + l)" and "0 < l" "0 < k"
  shows "realloc_post h U c l k g res"
proof -
  have "content h2 c2 (c2 + min k l) = content h c (c + min k l)"
    using assms(4-6) content_take [of "min k l" c2 "c2 + l" h2] content_take [of "min k l" c "c + l" h] by simp
  moreover have "(\<forall>(x, y)\<in>U. content g x y = content h2 x y) \<longleftrightarrow> (\<forall>(x, y)\<in>U. content g x y = content h x y)"
    using assms(3) by fastforce
  ultimately show ?thesis using assms(1,2) unfolding realloc_post_def by (cases res) simp_all
qed

lemma blen_up:
  assumes r: "umm_rep h B fl" and u: "(c, n) \<in> used B fl" and r1: "umm_rep h1 B1 fl1" and x: "x \<in> set fl"
    and s: "B1 = B \<and> fl1 = fl \<and> b = n \<or> B1 = B - {n} \<and> consec B n b \<and> n \<in> set fl \<and> set fl1 = set fl - {n}"
  shows "x \<in> set fl1 \<and> blen h1 x = blen h x \<or> x = n \<and> blen h x = b - n"
proof -
  note uf = used_facts [OF r u]
  note bx = blen_free(2) [OF r x]
  consider "B1 = B" "fl1 = fl" | "B1 = B - {n}" "consec B n b" "n \<in> set fl" "set fl1 = set fl - {n}" using s by blast
  then show ?thesis
  proof cases
    case 1
    then show ?thesis using x blen_free(2) [OF r1, of x] consec_right [OF bx, of "x + blen h1 x"] by simp
  next
    case 2
    show ?thesis
    proof (cases "x = n")
      case True
      then show ?thesis using consec_right [OF bx, of b] 2(2) by auto
    next
      case False
      then have x1: "x \<in> set fl1" using x 2(4) by simp
      have "consec B1 x (x + blen h x)" using consec_merge [OF uf(1) 2(2)] bx False x uf(3) 2(1) by auto
      then show ?thesis using x1 consec_right [OF blen_free(2) [OF r1 x1], of "x + blen h x"] by simp
    qed
  qed
qed

lemma realloc_spec:
  assumes r: "umm_rep h B fl" and u: "(c, n) \<in> used B fl" and sz: "0 < sz" "sz < 524277"
  shows "\<exists>g res. umm_realloc N (Some h) (Some (UMM_DATA c)) sz = Some (g, res) \<and>
    realloc_post h (used B fl - {(c, n)}) c (n - c) (umm_blocks sz) g res \<and> (res = None \<longrightarrow> (\<forall>x\<in>set fl. blen h x < umm_blocks sz))"
proof -
  let ?k = "umm_blocks sz" and ?U = "used B fl - {(c, n)}" and ?l = "n - c"
  note uf = used_facts [OF r u]
  have k: "0 < ?k" by (rule umm_blocks_pos [OF sz(2)])
  have cl: "c + ?l = n" "0 < ?l" "c < 0x8000" using uf(6,7) by linarith+
  have old: "UMM_NBLOCK h c = Some n" "block_size n c = ?l" using uf block_size_diff [OF uf(6,7)] by simp_all
  show ?thesis
  proof (cases "?l = ?k")
    case True
    have "umm_realloc N (Some h) (Some (UMM_DATA c)) sz = Some (h, Some (UMM_DATA c))"
      using old True sz cl by (simp add: umm_realloc_def umm_ready_def block_of_UMM_DATA Let_def)
    moreover have "used B fl = ?U \<union> {(c, c + ?k)}" using u True cl(1) by auto
    then have "realloc_post h ?U c ?l ?k h (Some (UMM_DATA c))" by (intro realloc_postI [OF r] used_own [OF u]) auto
    ultimately show ?thesis by blast
  next
    case False
    obtain h1 B1 fl1 b where s: "umm_assimilate_up h c = Some h1" "umm_rep h1 B1 fl1" "(c, b) \<in> used B1 fl1" "b \<notin> set fl1" "n \<le> b"
        "used B1 fl1 = ?U \<union> {(c, b)}" "umm_frame h h1 B (insert 0 (set fl))"
        "B1 = B \<and> fl1 = fl \<and> b = n \<or> B1 = B - {n} \<and> consec B n b \<and> n \<in> set fl \<and> set fl1 = set fl - {n}"
      using up_spec [OF r u] by (elim exE conjE)
    have l1: "length h1 = length h" using s(7) by (simp add: umm_frame_def)
    have c1: "content h1 x y = content h x y" if "(x, y) \<in> used B fl" for x y
      by (rule frame_content [OF s(7)]) (use that in \<open>auto simp: used_def consec_def\<close>)
    have U1: "used B1 fl1 - {(c, b)} = ?U" using s(6) used_own [OF u] by blast
    note uf1 = used_facts [OF s(2,3)]
    obtain p where p: "consec B1 p c" using rep_prev [OF s(2) uf1(8)] uf1(2) by blast
    have pv: "UMM_PBLOCK h1 c = Some p" "UMM_NBLOCK h1 p = Some (nb (h1 ! p))" "is_free (nb (h1 ! p)) \<longleftrightarrow> p \<in> set fl1" "UMM_NBLOCK h1 c = Some b"
      using rep_facts(6) [OF s(2) p] is_free_iff(1) [OF s(2) p] uf1 consecD [OF p] by simp_all
    have cont: "content h1 c (c + ?l) = content h c (c + ?l)" using c1 [OF u] cl(1) by simp
    have oth: "\<forall>(x, y)\<in>?U. content h1 x y = content h x y" using c1 by blast
    have lb: "c + ?l \<le> b" using s(5) cl(1) by simp
    show ?thesis
    proof (cases "p \<in> set fl1 \<and> ?k \<le> b - p")
      case True
      then have pf: "p \<in> set fl1" and ik: "int ?k \<le> int b - int p" using consecD [OF p] uf1(6) by auto
      obtain h2 h3 g B2 fl2 where d: "umm_disconnect_from_free_list h1 p = Some h2" "umm_assimilate_down h2 c False = Some (h3, p)"
          "umm_move h3 p c ?l = Some g" "umm_rep g B2 fl2" "length g = length h1" "used B2 fl2 = used B1 fl1 - {(c, b)} \<union> {(p, b)}"
          "content g p (p + ?l) = content h1 c (c + ?l)" "\<forall>(x, y)\<in>used B1 fl1 - {(c, b)}. content g x y = content h1 x y"
        using down_spec [OF s(2,3) p pf cl(2) lb] by (elim exE conjE)
      have pb: "(p, b) \<in> used B2 fl2" "p + ?l \<le> b" using d(6) lb consecD [OF p] by auto
      obtain g' res where t: "realloc_tail N g p ?l ?k sz = Some (g', res)" "realloc_post g (used B2 fl2 - {(p, b)}) p ?l ?k g' res"
          "res = None \<longrightarrow> b - p < ?k \<and> (\<forall>x\<in>set fl2. blen g x < ?k)"
        using realloc_tail_spec [OF d(4) pb(1) cl(2) pb(2) sz, of N] by (elim exE conjE)
      have "(p, b) \<notin> used B1 fl1" using True by (auto simp: used_def)
      then have U2: "used B2 fl2 - {(p, b)} = ?U" unfolding d(6) U1 using s(6) by blast
      have op: "umm_realloc N (Some h) (Some (UMM_DATA c)) sz = realloc_tail N g p ?l ?k sz"
        using sz(1) False ik
        by (simp add: umm_realloc_def umm_ready_def block_of_UMM_DATA Let_def realloc_tail_def old cl(3) s(1) pv pf d(1-3) cong: if_cong option.case_cong)
      have cg: "content g x y = content h x y" if xy: "(x, y) \<in> ?U" for x y
      proof -
        have "content g x y = content h1 x y" using d(8) xy unfolding U1 by blast
        then show ?thesis using c1 [of x y] xy by simp
      qed
      have "realloc_post h ?U c ?l ?k g' res"
      proof (rule realloc_post_trans [OF t(2) [unfolded U2]])
        show "\<forall>(x, y)\<in>?U. content g x y = content h x y"
          using cg by blast
      qed (use d(5,7) l1 cont cl(2) k in simp_all)
      then show ?thesis using op t True by auto
    next
      case no: False
      obtain g res where t: "realloc_tail N h1 c ?l ?k sz = Some (g, res)" "realloc_post h1 ?U c ?l ?k g res"
          "res = None \<longrightarrow> b - c < ?k \<and> (\<forall>x\<in>set fl1. blen h1 x < ?k)"
        using realloc_tail_spec [OF s(2,3) cl(2) lb sz, of N] unfolding U1 by (elim exE conjE)
      have nb: "\<not> (p \<in> set fl1 \<and> int ?k \<le> int b - int p)" using no by auto
      have "umm_realloc N (Some h) (Some (UMM_DATA c)) sz = realloc_tail N h1 c ?l ?k sz"
        using sz(1) False
        by (simp add: umm_realloc_def umm_ready_def block_of_UMM_DATA Let_def realloc_tail_def old cl(3) s(1) pv nb cong: if_cong option.case_cong)
      moreover have "realloc_post h ?U c ?l ?k g res" by (rule realloc_post_trans [OF t(2) l1 oth cont cl(2) k])
      moreover have "blen h x < ?k" if "res = None" "x \<in> set fl" for x
        using blen_up [OF r u s(2) that(2) s(8)] t(3) that(1) uf(6) by auto
      ultimately show ?thesis using t(1) by auto
    qed
  qed
qed

end
