(* ===== verification/UmmHeap.thy ===== *)
theory UmmHeap
  imports UmmRealloc
begin

text \<open>
  What the heap promises its clients. The abstract state is a map from the pointers in use to the 16-bit words stored
  behind them; \<open>umm_spec\<close> says which results a call may have on it, and \<open>umm_exec_refines\<close> that the heap
  implements this.
\<close>

section \<open>The abstract heap\<close>

type_synonym umm_map = "nat \<rightharpoonup> nat list"

definition umm_holds :: "umm_mem \<Rightarrow> nat set \<Rightarrow> nat list \<Rightarrow> umm_map \<Rightarrow> bool" where
  "umm_holds h B fl M \<longleftrightarrow> (\<forall>p cs. M p = Some cs \<longleftrightarrow> (\<exists>c b. (c, b) \<in> used B fl \<and> p = UMM_DATA c \<and> cs = content h c b))"

definition umm_heap :: "umm_mem \<Rightarrow> umm_map \<Rightarrow> bool" where
  "umm_heap h M \<longleftrightarrow> (\<exists>B fl. umm_rep h B fl \<and> umm_holds h B fl M)"

text \<open>A run of \<open>k\<close> cells between the first and the last one that no block in use touches.\<close>

definition umm_gap :: "nat \<Rightarrow> umm_map \<Rightarrow> nat \<Rightarrow> bool" where
  "umm_gap n M k \<longleftrightarrow> (\<exists>a. 0 < a \<and> a + k < n \<and>
     (\<forall>p cs. M p = Some cs \<longrightarrow> p div 8 + (length cs + 2) div 4 \<le> a \<or> a + k \<le> p div 8))"

text \<open>The bytes of a block, low byte first.\<close>

definition byte_of :: "nat list \<Rightarrow> nat \<Rightarrow> nat" where
  "byte_of cs i = (if even i then cs ! (i div 2) mod 256 else cs ! (i div 2) div 256)"

datatype umm_call = Malloc nat | Calloc nat nat | Free "nat option" | Realloc "nat option" nat | Store nat nat nat

text \<open>What a client may ask for: sizes that the 16-bit block count can express, and pointers in use.\<close>

fun umm_allowed :: "umm_map \<Rightarrow> umm_call \<Rightarrow> bool" where
  "umm_allowed M (Malloc sz) = (sz < 524277)"
| "umm_allowed M (Calloc num sz) = (num * sz < 524277)"
| "umm_allowed M (Free q) = (case q of None \<Rightarrow> True | Some p \<Rightarrow> p \<in> dom M)"
| "umm_allowed M (Realloc q sz) = (sz < 524277 \<and> (case q of None \<Rightarrow> True | Some p \<Rightarrow> p \<in> dom M))"
| "umm_allowed M (Store p i v) = (case M p of None \<Rightarrow> False | Some cs \<Rightarrow> i < length cs)"

inductive umm_spec :: "nat \<Rightarrow> umm_map \<Rightarrow> umm_call \<Rightarrow> nat option \<Rightarrow> umm_map \<Rightarrow> bool" for n where
  malloc: "0 < sz \<Longrightarrow> umm_gap n M (umm_blocks sz) \<Longrightarrow> M p = None \<Longrightarrow> sz \<le> 2 * length cs \<Longrightarrow>
    umm_spec n M (Malloc sz) (Some p) (M(p \<mapsto> cs))"
| malloc_none: "sz = 0 \<or> \<not> umm_gap n M (umm_blocks sz) \<Longrightarrow> umm_spec n M (Malloc sz) None M"
| calloc: "umm_spec n M (Malloc (num * sz)) (Some p) (M(p \<mapsto> cs)) \<Longrightarrow> \<forall>i<num * sz. byte_of cs i = 0 \<Longrightarrow>
    umm_spec n M (Calloc num sz) (Some p) (M(p \<mapsto> cs))"
| calloc_none: "umm_spec n M (Malloc (num * sz)) None M \<Longrightarrow> umm_spec n M (Calloc num sz) None M"
| free_null: "umm_spec n M (Free None) None M"
| free: "M p = Some cs \<Longrightarrow> umm_spec n M (Free (Some p)) None (M(p := None))"
| realloc_null: "umm_spec n M (Malloc sz) r M' \<Longrightarrow> umm_spec n M (Realloc None sz) r M'"
| realloc_zero: "M p = Some cs \<Longrightarrow> umm_spec n M (Realloc (Some p) 0) None (M(p := None))"
| realloc: "0 < sz \<Longrightarrow> M p = Some cs \<Longrightarrow> (M(p := None)) q = None \<Longrightarrow> sz \<le> 2 * length ds \<Longrightarrow>
    take (min (length ds) (length cs)) ds = take (min (length ds) (length cs)) cs \<Longrightarrow>
    umm_spec n M (Realloc (Some p) sz) (Some q) (M(p := None, q \<mapsto> ds))"
| realloc_none: "0 < sz \<Longrightarrow> M p = Some cs \<Longrightarrow> \<not> umm_gap n M (umm_blocks sz) \<Longrightarrow>
    umm_spec n M (Realloc (Some p) sz) None (M(p := None))"
| store: "M p = Some cs \<Longrightarrow> umm_spec n M (Store p i v) None (M(p \<mapsto> cs[i := v]))"

text \<open>The calls on the heap; \<open>Store\<close> is the client writing a word of a block.\<close>

fun umm_exec :: "nat \<Rightarrow> umm_mem \<Rightarrow> umm_call \<Rightarrow> (umm_mem \<times> nat option) option" where
  "umm_exec N h (Malloc sz) = umm_malloc N (Some h) sz"
| "umm_exec N h (Calloc num sz) = umm_calloc N (Some h) num sz"
| "umm_exec N h (Free q) = do { g \<leftarrow> umm_free h q; Some (g, None) }"
| "umm_exec N h (Realloc q sz) = umm_realloc N (Some h) q sz"
| "umm_exec N h (Store p i v) = do { g \<leftarrow> set_half h (p div 2 + i) v; Some (g, None) }"

section \<open>The map behind the invariant\<close>

lemma UMM_DATA_eq [simp]: "UMM_DATA a = UMM_DATA b \<longleftrightarrow> a = b"
  by (simp add: UMM_DATA_def)

lemma UMM_DATA_div [simp]: "UMM_DATA c div 8 = c" "UMM_DATA c div 2 = 4 * c + 2"
  by (simp_all add: UMM_DATA_def)

lemma holds_get:
  assumes "umm_holds h B fl M" and "M p = Some cs"
  obtains c b where "(c, b) \<in> used B fl" and "p = UMM_DATA c" and "cs = content h c b"
  using assms unfolding umm_holds_def by blast

lemma holds_at: "umm_holds h B fl M \<Longrightarrow> (c, b) \<in> used B fl \<Longrightarrow> M (UMM_DATA c) = Some (content h c b)"
  unfolding umm_holds_def by blast

lemma holds_None: "umm_holds h B fl M \<Longrightarrow> M (UMM_DATA c) = None \<longleftrightarrow> (\<forall>b. (c, b) \<notin> used B fl)"
  unfolding umm_holds_def by (metis UMM_DATA_eq not_None_eq)

text \<open>The map after a block has gone, come, or been rewritten.\<close>

lemma holds_free:
  assumes "umm_holds h B fl M" and "(c, n) \<in> used B fl" and "used B' fl' = used B fl - {(c, n)}"
    and "\<forall>(x, y)\<in>used B' fl'. content g x y = content h x y"
  shows "umm_holds g B' fl' (M(UMM_DATA c := None))"
  unfolding umm_holds_def
proof (intro allI)
  fix p cs
  have "(M(UMM_DATA c := None)) p = Some cs \<longleftrightarrow> p \<noteq> UMM_DATA c \<and> (\<exists>x y. (x, y) \<in> used B fl \<and> p = UMM_DATA x \<and> cs = content h x y)"
    using assms(1) by (auto simp: umm_holds_def)
  also have "\<dots> \<longleftrightarrow> (\<exists>x y. (x, y) \<in> used B' fl' \<and> p = UMM_DATA x \<and> cs = content g x y)"
  proof
    assume "p \<noteq> UMM_DATA c \<and> (\<exists>x y. (x, y) \<in> used B fl \<and> p = UMM_DATA x \<and> cs = content h x y)"
    then obtain x y where xy: "(x, y) \<in> used B fl" "p = UMM_DATA x" "cs = content h x y" "x \<noteq> c" by auto
    then have u: "(x, y) \<in> used B' fl'" using assms(3) by simp
    then have "cs = content g x y" using xy(3) bspec [OF assms(4) u] by simp
    then show "\<exists>x y. (x, y) \<in> used B' fl' \<and> p = UMM_DATA x \<and> cs = content g x y" using xy(2) u by blast
  next
    assume "\<exists>x y. (x, y) \<in> used B' fl' \<and> p = UMM_DATA x \<and> cs = content g x y"
    then obtain x y where xy: "(x, y) \<in> used B' fl'" "p = UMM_DATA x" "cs = content g x y" by blast
    have "x \<noteq> c" using xy(1) used_own [OF assms(2)] unfolding assms(3) by blast
    moreover have "(x, y) \<in> used B fl" "content g x y = content h x y" using xy(1) assms(3,4) by auto
    ultimately show "p \<noteq> UMM_DATA c \<and> (\<exists>x y. (x, y) \<in> used B fl \<and> p = UMM_DATA x \<and> cs = content h x y)" using xy by auto
  qed
  finally show "(M(UMM_DATA c := None)) p = Some cs \<longleftrightarrow> (\<exists>x y. (x, y) \<in> used B' fl' \<and> p = UMM_DATA x \<and> cs = content g x y)" .
qed

lemma holds_new:
  assumes "umm_holds g0 B0 fl0 M" and U: "used B0 fl0 = U" and "used B' fl' = insert (d, e) U" and new: "\<And>y. (d, y) \<notin> U"
    and same: "\<forall>(x, y)\<in>U. content g x y = content g0 x y"
  shows "umm_holds g B' fl' (M(UMM_DATA d \<mapsto> content g d e))"
proof -
  have sm: "content g x y = content g0 x y" if "(x, y) \<in> U" for x y using bspec [OF same that] by simp
  have "(\<exists>x y. (x, y) \<in> U \<and> p = UMM_DATA x \<and> cs = content g0 x y) \<longleftrightarrow> (\<exists>x y. (x, y) \<in> U \<and> p = UMM_DATA x \<and> cs = content g x y)" for p cs
    by (simp add: sm cong: conj_cong)
  then have M: "M p = Some cs \<longleftrightarrow> (\<exists>x y. (x, y) \<in> U \<and> p = UMM_DATA x \<and> cs = content g x y)" for p cs
    using assms(1) unfolding umm_holds_def U by simp
  show ?thesis
    unfolding umm_holds_def assms(3)
  proof (intro allI)
    fix p cs
    show "(M(UMM_DATA d \<mapsto> content g d e)) p = Some cs \<longleftrightarrow> (\<exists>x y. (x, y) \<in> insert (d, e) U \<and> p = UMM_DATA x \<and> cs = content g x y)"
      using M [of p cs] new by (cases "p = UMM_DATA d") auto
  qed
qed

lemma holds_write:
  assumes h: "umm_holds h B fl M" and u: "(c, b) \<in> used B fl"
    and same: "\<And>x y. (x, y) \<in> used B fl \<Longrightarrow> x \<noteq> c \<Longrightarrow> content g x y = content h x y"
  shows "umm_holds g B fl (M(UMM_DATA c \<mapsto> content g c b))"
  unfolding umm_holds_def
proof (intro allI)
  fix p cs
  show "(M(UMM_DATA c \<mapsto> content g c b)) p = Some cs \<longleftrightarrow> (\<exists>x y. (x, y) \<in> used B fl \<and> p = UMM_DATA x \<and> cs = content g x y)"
  proof (cases "p = UMM_DATA c")
    case True
    have "(c, y) \<in> used B fl \<longleftrightarrow> y = b" for y using u used_once [OF u, of y] by blast
    then show ?thesis by (auto simp: True)
  next
    case False
    then have "(\<exists>x y. (x, y) \<in> used B fl \<and> p = UMM_DATA x \<and> cs = content g x y) \<longleftrightarrow>
        (\<exists>x y. (x, y) \<in> used B fl \<and> p = UMM_DATA x \<and> cs = content h x y)"
      by (metis same)
    then show ?thesis using False h unfolding umm_holds_def by simp
  qed
qed

section \<open>Gaps are free blocks\<close>

lemma rep_cover:
  assumes r: "umm_rep h B fl" and a: "a < length h - 1"
  shows "\<exists>c b. consec B c b \<and> c \<le> a \<and> a < b"
proof -
  define m where "m = Max {x \<in> B. x \<le> a}"
  have fin: "finite {x \<in> B. x \<le> a}" using rep_facts(1) [OF r] by simp
  have "0 \<in> {x \<in> B. x \<le> a}" using r by (simp add: umm_rep_def)
  then have m: "m \<in> B" "m \<le> a" using Max_in [OF fin] unfolding m_def by blast+
  obtain b where b: "consec B m b" using rep_next [OF r m(1)] m(2) a by auto
  have "a < b"
  proof (rule ccontr)
    assume "\<not> a < b"
    then have "b \<in> {x \<in> B. x \<le> a}" using consecD [OF b] by simp
    then have "b \<le> m" unfolding m_def by (rule Max_ge [OF fin])
    then show False using consecD [OF b] by simp
  qed
  then show ?thesis using b m(2) by blast
qed

lemma holds_extent:
  assumes r: "umm_rep h B fl" and h: "umm_holds h B fl M"
  shows "(\<forall>p cs. M p = Some cs \<longrightarrow> p div 8 + (length cs + 2) div 4 \<le> a \<or> a + k \<le> p div 8) \<longleftrightarrow>
    (\<forall>(c, b)\<in>used B fl. b \<le> a \<or> a + k \<le> c)"
proof -
  have e: "UMM_DATA c div 8 + (length (content h c b) + 2) div 4 = b" if "(c, b) \<in> used B fl" for c b
    using used_facts(6) [OF r that] by (simp add: length_content)
  show ?thesis
  proof (intro iffI ballI allI impI)
    fix q
    assume a: "\<forall>p cs. M p = Some cs \<longrightarrow> p div 8 + (length cs + 2) div 4 \<le> a \<or> a + k \<le> p div 8" and q: "q \<in> used B fl"
    obtain c b where cb: "q = (c, b)" by (cases q)
    then show "case q of (c, b) \<Rightarrow> b \<le> a \<or> a + k \<le> c"
      using a [rule_format, OF holds_at [OF h, of c b]] e [of c b] q by simp
  next
    fix p cs
    assume a: "\<forall>(c, b)\<in>used B fl. b \<le> a \<or> a + k \<le> c" and p: "M p = Some cs"
    obtain c b where cb: "(c, b) \<in> used B fl" "p = UMM_DATA c" "cs = content h c b" by (rule holds_get [OF h p])
    then show "p div 8 + (length cs + 2) div 4 \<le> a \<or> a + k \<le> p div 8" using bspec [OF a cb(1)] e [OF cb(1)] by simp
  qed
qed

lemma gap_free:
  assumes r: "umm_rep h B fl" and h: "umm_holds h B fl M" and k: "0 < k"
  shows "umm_gap (length h) M k \<longleftrightarrow> (\<exists>c\<in>set fl. k \<le> blen h c)"
  unfolding umm_gap_def holds_extent [OF r h]
proof
  assume "\<exists>a>0. a + k < length h \<and> (\<forall>(c, b)\<in>used B fl. b \<le> a \<or> a + k \<le> c)"
  then obtain a where a: "0 < a" "a + k < length h" "\<And>c b. (c, b) \<in> used B fl \<Longrightarrow> b \<le> a \<or> a + k \<le> c" by blast
  have "a < length h - 1" using a(2) k by linarith
  then obtain c b where cb: "consec B c b" "c \<le> a" "a < b" using rep_cover [OF r] by blast
  have c0: "c \<noteq> 0" using cb a(1) r unfolding consec_def umm_rep_def by (metis less_one not_less not_gr_zero nat_neq_iff)
  have c: "c \<in> set fl" using a(3) [of c b] cb c0 k by (auto simp: used_def)
  have bl: "c + blen h c = b" using consec_right [OF blen_free(2) [OF r c] cb(1)] .
  have "a + k \<le> b"
  proof (rule ccontr)
    assume nb: "\<not> a + k \<le> b"
    then have "b < length h - 1" using a(2) by linarith
    then obtain e where e: "consec B b e" using rep_next [OF r] consecD [OF cb(1)] by blast
    have "b \<notin> set fl" using rep_facts(9) [OF r cb(1) c] .
    then have "(b, e) \<in> used B fl" using e consecD [OF cb(1)] by (simp add: used_def)
    then show False using a(3) nb cb(3) consecD [OF e] by fastforce
  qed
  then show "\<exists>c\<in>set fl. k \<le> blen h c" using c bl cb(2) by (intro bexI [OF _ c]) linarith
next
  assume "\<exists>c\<in>set fl. k \<le> blen h c"
  then obtain c where c: "c \<in> set fl" "k \<le> blen h c" by blast
  note bf = blen_free [OF r c(1)]
  have "y \<le> c \<or> c + k \<le> x" if u: "(x, y) \<in> used B fl" for x y
  proof -
    have "consec B x y" "x \<noteq> c" using u c(1) by (auto simp: used_def)
    then show ?thesis using consec_disjoint [OF _ bf(2)] c(2) by fastforce
  qed
  moreover have "0 < c" "c + k < length h" using rep_facts(3) [OF r c(1)] bf(7) c(2) by auto
  ultimately show "\<exists>a>0. a + k < length h \<and> (\<forall>(c, b)\<in>used B fl. b \<le> a \<or> a + k \<le> c)" by (intro exI [of _ c]) auto
qed

section \<open>Each call implements its specification\<close>

lemma heap_malloc:
  assumes r: "umm_rep h B fl" and h: "umm_holds h B fl M" and sz: "sz < 524277"
  shows "\<exists>g res M'. umm_malloc N (Some h) sz = Some (g, res) \<and> umm_spec (length h) M (Malloc sz) res M' \<and> umm_heap g M' \<and>
    length g = length h \<and> (case res of None \<Rightarrow> M' = M | Some p \<Rightarrow> \<exists>cs. M' = M(p \<mapsto> cs))"
proof (cases "sz = 0")
  case True
  then have "umm_malloc N (Some h) sz = Some (h, None)" by (simp add: umm_malloc_def umm_ready_def)
  moreover have "umm_spec (length h) M (Malloc sz) None M" by (rule umm_spec.malloc_none) (simp add: True)
  ultimately show ?thesis using r h unfolding umm_heap_def by fastforce
next
  case False
  let ?k = "umm_blocks sz"
  have k: "0 < ?k" by (rule umm_blocks_pos [OF sz])
  note gf = gap_free [OF r h k]
  from False have "0 < sz" by simp
  from malloc_spec [OF r this k, of N] show ?thesis
  proof (elim disjE exE conjE, goal_cases)
    case 1
    then have "\<not> umm_gap (length h) M ?k" unfolding gf by (auto simp: not_le)
    then have "umm_spec (length h) M (Malloc sz) None M" by (intro umm_spec.malloc_none) simp
    then show ?case using 1 r h unfolding umm_heap_def by fastforce
  next
    case (2 g c B' fl')
    have new: "(c, y) \<notin> used B fl" for y using 2(4) by (auto simp: used_def)
    have u: "used B' fl' = insert (c, c + ?k) (used B fl)" using 2(7) by simp
    have hn: "umm_holds g B' fl' (M(UMM_DATA c \<mapsto> content g c (c + ?k)))" by (rule holds_new [OF h refl u new 2(8)])
    have "umm_gap (length h) M ?k" unfolding gf using 2(4,5) by blast
    moreover have "length (content g c (c + ?k)) = 4 * ?k - 2" using k by (simp add: length_content)
    then have "sz \<le> 2 * length (content g c (c + ?k))" using umm_blocks_enough [OF sz] by linarith
    moreover have "M (UMM_DATA c) = None" using holds_None [OF h] new by blast
    ultimately have "umm_spec (length h) M (Malloc sz) (Some (UMM_DATA c)) (M(UMM_DATA c \<mapsto> content g c (c + ?k)))"
      using False by (intro umm_spec.malloc) simp_all
    then show ?case using 2(1-3) hn unfolding umm_heap_def by fastforce
  qed
qed

lemma heap_free:
  assumes r: "umm_rep h B fl" and h: "umm_holds h B fl M" and p: "M p = Some cs"
  shows "\<exists>g. umm_free h (Some p) = Some g \<and> umm_heap g (M(p := None)) \<and> length g = length h"
proof -
  obtain c b where cb: "(c, b) \<in> used B fl" "p = UMM_DATA c" by (rule holds_get [OF h p])
  obtain g B' fl' where g: "umm_free h (Some p) = Some g" "umm_rep g B' fl'" "length g = length h" "used B' fl' = used B fl - {(c, b)}"
      "\<forall>(x, y)\<in>used B' fl'. content g x y = content h x y"
    using free_spec [OF r cb(1)] unfolding cb(2) by (elim exE conjE)
  have "umm_holds g B' fl' (M(p := None))" unfolding cb(2) by (rule holds_free [OF h cb(1) g(4,5)])
  then show ?thesis using g(1-3) unfolding umm_heap_def by blast
qed

lemma heap_realloc:
  assumes r: "umm_rep h B fl" and h: "umm_holds h B fl M" and p: "M p = Some cs" and sz: "0 < sz" "sz < 524277"
  shows "\<exists>g res M'. umm_realloc N (Some h) (Some p) sz = Some (g, res) \<and> umm_spec (length h) M (Realloc (Some p) sz) res M' \<and>
    umm_heap g M' \<and> length g = length h"
proof -
  let ?k = "umm_blocks sz"
  have k: "0 < ?k" by (rule umm_blocks_pos [OF sz(2)])
  obtain c b where cb: "(c, b) \<in> used B fl" "p = UMM_DATA c" "cs = content h c b" by (rule holds_get [OF h p])
  let ?U = "used B fl - {(c, b)}" and ?l = "b - c"
  note uf = used_facts [OF r cb(1)]
  obtain g res where g: "umm_realloc N (Some h) (Some p) sz = Some (g, res)" "realloc_post h ?U c ?l ?k g res"
      "res = None \<longrightarrow> (\<forall>x\<in>set fl. blen h x < ?k)"
    using realloc_spec [OF r cb(1) sz, of N] unfolding cb(2) by (elim exE conjE)
  obtain B' fl' where g': "umm_rep g B' fl'" "length g = length h" "\<forall>(x, y)\<in>?U. content g x y = content h x y"
      "case res of None \<Rightarrow> used B' fl' = ?U
       | Some q \<Rightarrow> \<exists>d. q = UMM_DATA d \<and> used B' fl' = insert (d, d + ?k) ?U \<and> (\<forall>y. (d, y) \<notin> ?U) \<and>
          content g d (d + min ?k ?l) = content h c (c + min ?k ?l)"
    using g(2) unfolding realloc_post_def by (elim exE conjE)
  show ?thesis
  proof (cases res)
    case None
    then have "umm_holds g B' fl' (M(p := None))" unfolding cb(2) using g'(3,4) by (intro holds_free [OF h cb(1)]) simp_all
    moreover have "\<not> umm_gap (length h) M ?k" unfolding gap_free [OF r h k] using g(3) None by (auto simp: not_le)
    then have "umm_spec (length h) M (Realloc (Some p) sz) None (M(p := None))" using sz(1) p by (intro umm_spec.realloc_none)
    ultimately show ?thesis using g(1) g'(1,2) None unfolding umm_heap_def by blast
  next
    case (Some q)
    then obtain d where d: "q = UMM_DATA d" "used B' fl' = insert (d, d + ?k) ?U" "\<forall>y. (d, y) \<notin> ?U"
        "content g d (d + min ?k ?l) = content h c (c + min ?k ?l)"
      using g'(4) by auto
    let ?ds = "content g d (d + ?k)"
    have hn: "umm_holds g B' fl' (M(p := None, q \<mapsto> ?ds))"
    proof -
      obtain g0 B0 fl0 where g0: "umm_free h (Some (UMM_DATA c)) = Some g0" "umm_rep g0 B0 fl0" "length g0 = length h"
          "used B0 fl0 = ?U" "\<forall>(x, y)\<in>used B0 fl0. content g0 x y = content h x y"
        using free_spec [OF r cb(1)] by (elim exE conjE)
      have same: "\<forall>(x, y)\<in>?U. content g x y = content g0 x y" using g0(5) g'(3) unfolding g0(4) by (simp add: split_beta)
      show ?thesis unfolding cb(2) d(1)
        by (rule holds_new [OF holds_free [OF h cb(1) g0(4,5)] g0(4) d(2) _ same]) (use d(3) in blast)
    qed
    have lens: "length ?ds = 4 * ?k - 2" "length cs = 4 * ?l - 2" using k uf(6) by (simp_all add: cb(3) length_content)
    have "take (4 * min ?k ?l - 2) ?ds = take (4 * min ?k ?l - 2) cs"
      using d(4) content_take [of "min ?k ?l" d "d + ?k" g] content_take [of "min ?k ?l" c b h] k uf(6) by (simp add: cb(3))
    moreover have "min (length ?ds) (length cs) = 4 * min ?k ?l - 2" unfolding lens by (simp add: min_def)
    ultimately have pre: "take (min (length ?ds) (length cs)) ?ds = take (min (length ?ds) (length cs)) cs" by simp
    have en: "sz \<le> 2 * length ?ds" using umm_blocks_enough [OF sz(2)] k unfolding lens by linarith
    have nq: "(M(p := None)) q = None" using holds_None [OF h, of d] d(3) by (auto simp: cb(2) d(1))
    have "umm_spec (length h) M (Realloc (Some p) sz) (Some q) (M(p := None, q \<mapsto> ?ds))" using sz(1) p nq en pre by (intro umm_spec.realloc)
    then show ?thesis using g(1) g'(1,2) hn Some unfolding umm_heap_def by blast
  qed
qed

text \<open>A block as a list of the 16-bit words of the heap.\<close>

definition half :: "umm_mem \<Rightarrow> nat \<Rightarrow> nat" where
  "half h j = (let c = h ! (j div 4) in if j mod 4 = 0 then nb c else if j mod 4 = 1 then pb c else if j mod 4 = 2 then nf c else pf c)"

lemma half_simps: "half h (4 * x) = nb (h ! x)" "half h (4 * x + 1) = pb (h ! x)" "half h (4 * x + 2) = nf (h ! x)" "half h (4 * x + 3) = pf (h ! x)"
proof -
  have "(4 * x + 1) div 4 = x" "(4 * x + 2) div 4 = x" "(4 * x + 3) div 4 = x"
      "(4 * x + 1) mod 4 = 1" "(4 * x + 2) mod 4 = 2" "(4 * x + 3) mod 4 = 3"
    by presburger+
  then show "half h (4 * x) = nb (h ! x)" "half h (4 * x + 1) = pb (h ! x)" "half h (4 * x + 2) = nf (h ! x)" "half h (4 * x + 3) = pf (h ! x)"
    unfolding half_def Let_def by simp_all
qed

lemma content_half: "c < b \<Longrightarrow> content h c b = map (half h) [4 * c + 2..<4 * b]"
proof (induction b)
  case (Suc b)
  show ?case
  proof (cases "c = b")
    case True
    have "[4 * b + 2..<4 * Suc b] = [4 * b + 2, 4 * b + 3]" by (simp add: upt_conv_Cons)
    then show ?thesis using half_simps(3,4) [of h b] by (simp add: True content_def)
  next
    case False
    have "[4 * c + 2..<4 * Suc b] = [4 * c + 2..<4 * b] @ [4 * b, 4 * b + 1, 4 * b + 2, 4 * b + 3]"
    proof -
      have "[4 * c + 2..<4 * Suc b] = [4 * c + 2..<4 * b] @ [4 * b..<4 * b + 4]"
        using Suc.prems False upt_add_eq_append [of "4 * c + 2" "4 * b" 4] by (simp add: add.commute)
      also have "[4 * b..<4 * b + 4] = [4 * b, 4 * b + 1, 4 * b + 2, 4 * b + 3]" by (simp add: upt_conv_Cons)
      finally show ?thesis .
    qed
    moreover have "content h c (Suc b) = content h c b @ [nb (h ! b), pb (h ! b), nf (h ! b), pf (h ! b)]"
      using Suc.prems False by (simp add: content_def)
    ultimately show ?thesis using Suc False half_simps [of h b] by simp
  qed
qed simp

lemma set_half_spec:
  assumes "j div 4 < length h"
  shows "\<exists>g. set_half h j v = Some g \<and> length g = length h \<and> (\<forall>x. x \<noteq> j div 4 \<longrightarrow> g ! x = h ! x) \<and>
    (\<forall>i. half g i = (if i = j then v else half h i))"
proof -
  have "i = j \<longleftrightarrow> i div 4 = j div 4 \<and> i mod 4 = j mod 4" for i by (metis mult_div_mod_eq)
  moreover have "j mod 4 = 0 \<or> j mod 4 = 1 \<or> j mod 4 = 2 \<or> j mod 4 = 3" by presburger
  moreover have "i mod 4 = 0 \<or> i mod 4 = 1 \<or> i mod 4 = 2 \<or> i mod 4 = 3" for i :: nat by presburger
  ultimately show ?thesis
    using assms by (elim disjE) (auto simp: set_half_def half_def Let_def)
qed

lemma heap_store:
  assumes "umm_heap h M" and p: "M p = Some cs" and i: "i < length cs"
  shows "\<exists>g. set_half h (p div 2 + i) v = Some g \<and> umm_heap g (M(p \<mapsto> cs[i := v])) \<and> length g = length h \<and>
    get_half h (p div 2 + i) = Some (cs ! i)"
proof -
  obtain B fl where r: "umm_rep h B fl" and h: "umm_holds h B fl M" using assms(1) unfolding umm_heap_def by blast
  obtain c b where cb: "(c, b) \<in> used B fl" "p = UMM_DATA c" "cs = content h c b" by (rule holds_get [OF h p])
  note uf = used_facts [OF r cb(1)]
  let ?j = "4 * c + 2 + i"
  have j: "p div 2 + i = ?j" "?j < 4 * b" using i uf(6) by (simp_all add: cb length_content)
  have x: "c \<le> ?j div 4" "?j div 4 < b" using j(2) by presburger+
  obtain g where g: "set_half h ?j v = Some g" "length g = length h" "\<forall>x. x \<noteq> ?j div 4 \<longrightarrow> g ! x = h ! x"
      "\<forall>i. half g i = (if i = ?j then v else half h i)"
    using set_half_spec [of ?j h v] x uf(5) by auto
  have "half g (4 * c) = half h (4 * c)" "half g (4 * c + 1) = half h (4 * c + 1)" using g(4) by simp_all
  then have hd: "nb (g ! c) = nb (h ! c)" "pb (g ! c) = pb (h ! c)" unfolding half_simps by simp_all
  have out: "g ! y = h ! y" if "y < length h" "y < c \<or> b \<le> y" for y using g(3) x that by (metis le_less_trans not_le)
  note w = write_rep [OF r cb(1) g(2) out hd]
  have con: "content g c b = cs[i := v]"
  proof (rule nth_equalityI)
    show "content g c b ! k = cs[i := v] ! k" if "k < length (content g c b)" for k
      using that g(4) uf(6) by (simp add: cb(3) content_half nth_list_update)
  qed (use uf(6) in \<open>simp add: cb(3) length_content\<close>)
  have gh: "get_half h ?j = Some (cs ! i)"
    using i x uf(5,6) by (simp add: get_half_def rd_def cb(3) content_half) (simp add: half_def Let_def)
  have "umm_holds g B fl (M(p \<mapsto> cs[i := v]))" unfolding cb(2) con [symmetric] by (rule holds_write [OF h cb(1) w(2)])
  then show ?thesis using g(1,2) w(1) gh j(1) unfolding umm_heap_def by auto
qed

section \<open>Clearing a block\<close>

lemma heap_set_byte:
  assumes h: "umm_heap h M" and p: "M p = Some cs" and i: "i < 2 * length cs" and v: "v < 256"
  shows "\<exists>g ds. set_byte h (p + i) v = Some g \<and> umm_heap g (M(p \<mapsto> ds)) \<and> length g = length h \<and> length ds = length cs \<and>
    (\<forall>j<2 * length cs. byte_of ds j = (if j = i then v else byte_of cs j))"
proof -
  let ?x = "cs ! (i div 2)"
  let ?w = "if even i then ?x - ?x mod 256 + v else ?x mod 256 + 256 * v"
  have ev: "even p"
  proof -
    obtain B fl where "umm_holds h B fl M" using h unfolding umm_heap_def by blast
    then show ?thesis using p by (auto elim: holds_get simp: UMM_DATA_def)
  qed
  then have d: "(p + i) div 2 = p div 2 + i div 2" "even (p + i) = even i" by auto
  have l: "i div 2 < length cs" using i by auto
  obtain g where g: "set_half h (p div 2 + i div 2) ?w = Some g" "umm_heap g (M(p \<mapsto> cs[i div 2 := ?w]))" "length g = length h"
      "get_half h (p div 2 + i div 2) = Some ?x"
    using heap_store [OF h p l, of ?w] by (elim exE conjE)
  have "set_byte h (p + i) v = Some g" using g(1,4) d by (simp add: set_byte_def)
  moreover have "byte_of (cs[i div 2 := ?w]) j = (if j = i then v else byte_of cs j)" if j: "j < 2 * length cs" for j
  proof (cases "j div 2 = i div 2")
    case True
    have m: "(?x - ?x mod 256 + v) mod 256 = v" "(?x - ?x mod 256 + v) div 256 = ?x div 256"
        "(?x mod 256 + 256 * v) mod 256 = ?x mod 256" "(?x mod 256 + 256 * v) div 256 = v"
      using v by (simp_all add: minus_mod_eq_mult_div)
    have "j = i \<longleftrightarrow> even j = even i" using True by presburger
    then show ?thesis using l m True by (auto simp: byte_of_def)
  next
    case False
    then show ?thesis by (auto simp: byte_of_def)
  qed
  ultimately show ?thesis using g(2,3) by (intro exI [of _ g] exI [of _ "cs[i div 2 := ?w]"]) auto
qed

lemma heap_memset:
  assumes "umm_heap h M" and "M p = Some cs" and "i + n \<le> 2 * length cs" and "v < 256"
  shows "\<exists>g ds. umm_memset h (p + i) v n = Some g \<and> umm_heap g (M(p \<mapsto> ds)) \<and> length g = length h \<and> length ds = length cs \<and>
    (\<forall>j<2 * length cs. byte_of ds j = (if i \<le> j \<and> j < i + n then v else byte_of cs j))"
  using assms
proof (induction n arbitrary: h M cs i)
  case 0
  have "M(p \<mapsto> cs) = M" using 0(2) by auto
  then show ?case using 0(1) by (intro exI [of _ h] exI [of _ cs]) auto
next
  case (Suc n)
  have i: "i < 2 * length cs" using Suc.prems(3) by simp
  obtain h1 ds where h1: "set_byte h (p + i) v = Some h1" "umm_heap h1 (M(p \<mapsto> ds))" "length h1 = length h" "length ds = length cs"
      "\<forall>j<2 * length cs. byte_of ds j = (if j = i then v else byte_of cs j)"
    using heap_set_byte [OF Suc.prems(1,2) i Suc.prems(4)] by (elim exE conjE)
  have p1: "(M(p \<mapsto> ds)) p = Some ds" and i1: "i + 1 + n \<le> 2 * length ds" using Suc.prems(3) h1(4) by simp_all
  obtain g es where g: "umm_memset h1 (p + (i + 1)) v n = Some g" "umm_heap g ((M(p \<mapsto> ds))(p \<mapsto> es))" "length g = length h1"
      "length es = length ds" "\<forall>j<2 * length ds. byte_of es j = (if i + 1 \<le> j \<and> j < i + 1 + n then v else byte_of ds j)"
    using Suc.IH [OF h1(2) p1 i1 Suc.prems(4)] by (elim exE conjE)
  have "byte_of es j = (if i \<le> j \<and> j < i + Suc n then v else byte_of cs j)" if "j < 2 * length cs" for j
    using g(5) h1(4,5) that by auto
  moreover have "umm_memset h (p + i) v (Suc n) = Some g" using h1(1) g(1) by (simp add: add.assoc)
  moreover have "umm_heap g (M(p \<mapsto> es))" using g(2) by simp
  moreover have "length g = length h" "length es = length cs" using h1(3,4) g(3,4) by simp_all
  ultimately show ?case by blast
qed

lemma heap_calloc:
  assumes r: "umm_rep h B fl" and h: "umm_holds h B fl M" and sz: "num * sz < 524277"
  shows "\<exists>g res M'. umm_calloc N (Some h) num sz = Some (g, res) \<and> umm_spec (length h) M (Calloc num sz) res M' \<and> umm_heap g M' \<and>
    length g = length h"
proof -
  let ?n = "num * sz"
  have u: "u32 (sz * num) = ?n" using sz by (simp add: u32_def mult.commute)
  obtain g res M' where g: "umm_malloc N (Some h) ?n = Some (g, res)" "umm_spec (length h) M (Malloc ?n) res M'" "umm_heap g M'"
      "length g = length h" "case res of None \<Rightarrow> M' = M | Some p \<Rightarrow> \<exists>cs. M' = M(p \<mapsto> cs)"
    using heap_malloc [OF r h sz, of N] by (elim exE conjE)
  show ?thesis
  proof (cases res)
    case None
    then have "umm_calloc N (Some h) num sz = Some (g, None)" using g(1) by (simp add: umm_calloc_def u)
    moreover have "umm_spec (length h) M (Calloc num sz) None M" using g(2,5) None by (intro umm_spec.calloc_none) simp
    ultimately show ?thesis using g(3-5) None by auto
  next
    case (Some p)
    then obtain cs where M': "M' = M(p \<mapsto> cs)" using g(5) by auto
    from g(2) have new: "0 < ?n" "umm_gap (length h) M (umm_blocks ?n)" "M p = None" "?n \<le> 2 * length cs"
      unfolding Some M' by (auto elim!: umm_spec.cases dest: fun_upd_eqD)
    obtain k ds where k: "umm_memset g (p + 0) 0 ?n = Some k" "umm_heap k ((M(p \<mapsto> cs))(p \<mapsto> ds))" "length k = length g"
        "length ds = length cs" "\<forall>j<2 * length cs. byte_of ds j = (if 0 \<le> j \<and> j < 0 + ?n then 0 else byte_of cs j)"
      using heap_memset [OF g(3) [unfolded M'], of p cs 0 ?n 0] new(4) by (auto simp del: fun_upd_upd)
    have "umm_calloc N (Some h) num sz = Some (k, Some p)" using g(1) k(1) Some by (simp add: umm_calloc_def u)
    moreover have "umm_spec (length h) M (Malloc ?n) (Some p) (M(p \<mapsto> ds))" using new k(4) by (intro umm_spec.malloc) simp_all
    then have "umm_spec (length h) M (Calloc num sz) (Some p) (M(p \<mapsto> ds))" using k(5) new(4) by (intro umm_spec.calloc) auto
    ultimately show ?thesis using k(2,3) g(4) by auto
  qed
qed

section \<open>A fresh heap\<close>

lemma consec_fresh: "Suc 0 < m \<Longrightarrow> consec {0, Suc 0, m} a b \<longleftrightarrow> a = 0 \<and> b = Suc 0 \<or> a = Suc 0 \<and> b = m"
  by (auto simp: consec_def)

lemma init_heap:
  assumes "3 \<le> n" and "n \<le> 0x7FFF"
  shows "\<exists>h. umm_init n = Some h \<and> umm_heap h Map.empty \<and> length h = n"
proof -
  define m where "m = n - 1"
  have m: "Suc 0 < m" "m < n" "m \<noteq> 0" "m < 0x8000" "0 < n" "1 < n" "n = Suc m" using assms unfolding m_def by linarith+
  define h0 where "h0 = replicate n \<lparr>nb = 0, pb = 0, nf = 0, pf = 0\<rparr>"
  define h where "h = put_pb (put_nb (put_pf (put_pb (put_nf (put_nb (put_pf (put_nf (put_nb h0 0 1) 0 1) 0 1) 1 (m + 0x8000)) 1 0) 1 0) 1 0) m 0) m 1"
  have l0: "length h0 = n" by (simp add: h0_def)
  have op: "umm_init n = Some h"
    unfolding umm_init_def Let_def m_def [symmetric] h0_def [symmetric]
    using m(1-6) l0 masks(3) [OF m(4)] by (simp add: h_def or_free_def)
  have lh: "length h = n" using l0 by (simp add: h_def)
  have v: "nb (h ! 0) = 1" "nb (h ! 1) = m + 0x8000" "nb (h ! m) = 0" "pb (h ! 1) = 0" "pb (h ! m) = 1"
      "nf (h ! 0) = 1" "pf (h ! 0) = 1" "nf (h ! 1) = 0" "pf (h ! 1) = 0"
    using m l0 by (simp_all add: h_def)
  have lm: "length h - 1 = m" using lh m(7) by simp
  have "umm_rep h {0, 1, m} [1]"
    unfolding umm_rep_def lm unfolding lh using m assms v by (auto simp: consec_fresh [OF m(1)] ring_def)
  moreover have "used {0, 1, m} [1] = {}" using m by (auto simp: used_def consec_fresh)
  then have "umm_holds h {0, 1, m} [1] Map.empty" by (simp add: umm_holds_def)
  ultimately show ?thesis using op lh unfolding umm_heap_def by blast
qed

section \<open>Properties\<close>

text \<open>C38: The heap implements its specification. On a heap that holds the blocks \<open>M\<close>, every call a client may make returns,
  with a result and a new map that \<open>umm_spec\<close> allows: malloc gives a pointer not in use to a block large enough, and
  fails only if no run of free cells is long enough, so free blocks are always merged; calloc clears the bytes;
  free removes the block; realloc keeps the words up to the smaller size, and frees the block when it fails; a word
  stored in one block is stored there and every other block keeps its words.
\<close>

theorem umm_exec_refines:
  assumes "umm_heap h M" and "umm_allowed M call"
  shows "\<exists>g res M'. umm_exec N h call = Some (g, res) \<and> umm_spec (length h) M call res M' \<and> umm_heap g M' \<and> length g = length h"
proof -
  obtain B fl where r: "umm_rep h B fl" and h: "umm_holds h B fl M" using assms(1) unfolding umm_heap_def by blast
  show ?thesis
  proof (cases call)
    case (Malloc sz)
    then show ?thesis using heap_malloc [OF r h, of sz N] assms(2) by auto
  next
    case (Calloc num sz)
    then show ?thesis using heap_calloc [OF r h, of num sz N] assms(2) by auto
  next
    case (Free q)
    show ?thesis
    proof (cases q)
      case None
      then show ?thesis using Free assms(1) umm_spec.free_null [of "length h" M] by (auto simp: umm_free_def)
    next
      case (Some p)
      then obtain cs where p: "M p = Some cs" using Free assms(2) by auto
      show ?thesis using heap_free [OF r h p] umm_spec.free [of M p cs "length h"] p Free Some by auto
    qed
  next
    case (Realloc q sz)
    show ?thesis
    proof (cases q)
      case None
      obtain g res M' where "umm_malloc N (Some h) sz = Some (g, res)" "umm_spec (length h) M (Malloc sz) res M'" "umm_heap g M'" "length g = length h"
        using heap_malloc [OF r h, of sz N] assms(2) Realloc by auto
      then show ?thesis using Realloc None umm_spec.realloc_null by (fastforce simp: umm_realloc_def umm_ready_def)
    next
      case (Some p)
      then obtain cs where p: "M p = Some cs" and sz: "sz < 524277" using Realloc assms(2) by auto
      show ?thesis
      proof (cases "sz = 0")
        case True
        then show ?thesis
          using heap_free [OF r h p] umm_spec.realloc_zero [of M p cs "length h"] p Realloc Some by (auto simp: umm_realloc_def umm_ready_def)
      next
        case False
        then show ?thesis using heap_realloc [OF r h p _ sz, of N] Realloc Some by auto
      qed
    qed
  next
    case (Store p i v)
    then obtain cs where p: "M p = Some cs" "i < length cs" using assms(2) by (auto split: option.splits)
    show ?thesis using heap_store [OF assms(1) p, of v] umm_spec.store [of M p cs "length h" i v] p(1) Store by auto
  qed
qed

theorem umm_exec_refines_witness:
  "\<exists>h. umm_init 20 = Some h \<and> umm_heap h Map.empty \<and> umm_allowed Map.empty (Malloc 10) \<and>
    (\<exists>g res M'. umm_exec 20 h (Malloc 10) = Some (g, res) \<and> umm_spec 20 Map.empty (Malloc 10) res M' \<and> umm_heap g M' \<and> length g = 20)"
proof -
  obtain h where h: "umm_init 20 = Some h" "umm_heap h Map.empty" "length h = 20" using init_heap [of 20] by auto
  have a: "umm_allowed Map.empty (Malloc 10)" by simp
  show ?thesis using umm_exec_refines [OF h(2) a, of 20] h a by auto
qed

text \<open>C39: Free memory does not stay fragmented: when no block is in use, every request that fits between the first and the
  last cell of the heap is granted.
\<close>

theorem umm_empty_heap_grants:
  assumes "umm_heap h Map.empty" and "0 < sz" and "sz < 524277" and "umm_blocks sz + 1 < length h"
  shows "\<exists>g p cs. umm_malloc N (Some h) sz = Some (g, Some p) \<and> umm_heap g [p \<mapsto> cs] \<and> sz \<le> 2 * length cs"
proof -
  obtain B fl where r: "umm_rep h B fl" and h: "umm_holds h B fl Map.empty" using assms(1) unfolding umm_heap_def by blast
  have "umm_gap (length h) Map.empty (umm_blocks sz)" unfolding umm_gap_def using assms(4) by (intro exI [of _ 1]) simp
  moreover obtain g res M' where g: "umm_malloc N (Some h) sz = Some (g, res)" "umm_spec (length h) Map.empty (Malloc sz) res M'" "umm_heap g M'"
    using heap_malloc [OF r h assms(3), of N] by blast
  ultimately show ?thesis using g(1,3) assms(2) by (cases rule: umm_spec.cases [OF g(2)]) auto
qed

theorem umm_empty_heap_grants_witness:
  "\<exists>h g p cs. umm_init 20 = Some h \<and> umm_heap h Map.empty \<and> umm_blocks 140 + 1 < length h \<and>
    umm_malloc 20 (Some h) 140 = Some (g, Some p) \<and> umm_heap g [p \<mapsto> cs] \<and> 140 \<le> 2 * length cs"
proof -
  obtain h where h: "umm_init 20 = Some h" "umm_heap h Map.empty" "length h = 20" using init_heap [of 20] by auto
  have b: "umm_blocks 140 + 1 < length h" by (simp add: h(3) umm_blocks_def u16_def)
  show ?thesis using umm_empty_heap_grants [OF h(2) _ _ b, of 20] h b by auto
qed

text \<open>C40: The number of cells is computed in 16 bits: a request for all of memory, \<open>0xFFFFFFFF\<close> bytes, is granted with a
  block of four bytes whenever a single cell is free.
\<close>

theorem umm_malloc_wraps:
  assumes "umm_heap h M" and "umm_gap (length h) M 1"
  shows "\<exists>g p cs. umm_malloc N (Some h) 0xFFFFFFFF = Some (g, Some p) \<and> M p = None \<and> umm_heap g (M(p \<mapsto> cs)) \<and> length cs = 2"
proof -
  obtain B fl where r: "umm_rep h B fl" and h: "umm_holds h B fl M" using assms(1) unfolding umm_heap_def by blast
  have k: "umm_blocks 0xFFFFFFFF = 1" by (simp add: umm_blocks_def u16_def)
  have fr: "\<exists>c\<in>set fl. 1 \<le> blen h c" using gap_free [OF r h, of 1] assms(2) by simp
  have z: "(0::nat) < 0xFFFFFFFF" "0 < umm_blocks 0xFFFFFFFF" by (simp_all add: k)
  from malloc_spec [OF r z, of N] show ?thesis unfolding k
  proof (elim disjE exE conjE, goal_cases)
    case 1
    then show ?case using fr by auto
  next
    case (2 g c B' fl')
    have new: "(c, y) \<notin> used B fl" for y using 2(4) by (auto simp: used_def)
    have "umm_holds g B' fl' (M(UMM_DATA c \<mapsto> content g c (c + 1)))"
      by (rule holds_new [OF h refl _ new 2(8)]) (use 2(7) in simp)
    moreover have "M (UMM_DATA c) = None" using holds_None [OF h] new by blast
    moreover have "length (content g c (c + 1)) = 2" by (simp add: length_content)
    ultimately show ?case using 2(1,2) unfolding umm_heap_def by blast
  qed
qed

theorem umm_malloc_wraps_witness:
  "\<exists>h g p cs. umm_init 20 = Some h \<and> umm_heap h Map.empty \<and> umm_gap 20 Map.empty 1 \<and>
    umm_malloc 20 (Some h) 0xFFFFFFFF = Some (g, Some p) \<and> umm_heap g [p \<mapsto> cs] \<and> length cs = 2"
proof -
  obtain h where h: "umm_init 20 = Some h" "umm_heap h Map.empty" "length h = 20" using init_heap [of 20] by auto
  have g: "umm_gap (length h) Map.empty 1" unfolding umm_gap_def h(3) by (intro exI [of _ 1]) simp
  show ?thesis using umm_malloc_wraps [OF h(2) g, of 20] h g by auto
qed

end
