(* ===== verification/Spec2Isabelle.thy ===== *)
theory Spec2Isabelle
  imports WStringOps WVectorProps WHashMapProps FifoProps CircularBufferProps SerialBufferProps UartSystemProps DateTimeText
    Base64Props EscapeProps Sha1Props WebsocketProps UmmHeap
begin

text \<open>
  Sming is a C++ framework for applications on the ESP8266. This development models the parts of it that
  every application runs through: the number conversions and the \<open>String\<close> class, the containers, the
  ring buffers and the UART driver built on them, formatted output, calendar time, the encodings of
  the web services, websockets, and the heap. Each part is a theory of definitions, translated function by function, and a theory of
  lemmas about them.

  \<^bold>\<open>How the code is represented.\<close> A class is a record, an enumeration a datatype, a method a function from the
  object to the new object and its result. An allocated block is the list of its elements; every load and
  store goes through \<open>rd\<close>, \<open>wr\<close>, \<open>rdn\<close> and \<open>wrn\<close> of \<open>Prelude\<close>, which are \<open>None\<close> outside of the block. A
  definition of option type is therefore \<open>None\<close> exactly where the code would leave a block, fail an
  assertion or (where noted) not return; a theorem that a call gives \<open>Some\<close> is a statement of memory safety.
  A null pointer is \<open>None\<close> inside of a value. Machine integers are \<open>nat\<close> or \<open>int\<close> with the truncation of the
  source written as \<open>u8\<close>, \<open>u16\<close>, \<open>u32\<close>, \<open>s8\<close>, \<open>s16\<close>, \<open>s32\<close>; the bytes of a serial line and the registers are
  words. \<open>malloc\<close> and \<open>realloc\<close> are a parameter (\<open>alloc_env\<close>) that says which requests succeed and what a
  fresh block contains. Functions of the C library that the source uses (\<open>memchr\<close>, \<open>memmem\<close>, \<open>strcmp\<close>, \<open>strtol\<close>,
  character classes) are defined in \<open>CLib\<close>.

  \<^bold>\<open>The parts.\<close>

  \<^item> \<open>StringConversion\<close> models \<open>system/stringconversion.cpp\<close> and \<open>system/stringutil.cpp\<close>: \<open>ltoa\<close>, \<open>ultoa\<close>, the
    padded forms, \<open>hexchar\<close>, \<open>unhex\<close>, \<open>strstri\<close>. The lemmas relate the digits to the number.
  \<^item> \<open>WString\<close> models \<open>Wiring/WString.cpp\<close>: the buffer with its capacity and 16-bit length, and the methods over it.
    \<open>WStringProps\<close> and \<open>WStringText\<close> give each method its meaning on the text; \<open>WStringOps\<close> shows that every sequence
    of modifying calls stays in its block and computes the text operations, that numbers survive the way to text
    and back, and when \<open>replace\<close> is and is not the replacement of all occurrences.
  \<^item> \<open>WVector\<close> and \<open>WHashMap\<close> model \<open>Wiring/WVector.h\<close> and \<open>Wiring/WHashMap.h\<close>. They refine lists and finite maps;
    the sort is a sorted permutation. Clients of the map rely on the interface \<open>assoc_store\<close>.
  \<^item> \<open>Fifo\<close>, \<open>CircularBuffer\<close> and \<open>SerialBuffer\<close> model \<open>Wiring/FIFO.h\<close>, \<open>Wiring/FILO.h\<close>, \<open>Data/CircularBuffer.cpp\<close> and
    \<open>system/include/SerialBuffer.h\<close>. \<open>RingBuffer\<close> holds what they share: the contents of a ring, and the interface
    \<open>bounded_queue\<close>, in which delivery in order over every interleaving is proved once and which the three buffers
    provide.
  \<^item> \<open>Uart\<close> and \<open>UartSystem\<close> model \<open>system/uart.cpp\<close>: one port with its hardware FIFOs, interrupt handler and buffers, and
    the table of ports with initialisation and pin selection. \<open>UartProps\<close> shows that bytes are neither lost nor
    reordered in both directions, over any interleaving of the hardware, the interrupt handler and the
    application, and that a waiting write ends. What the hardware does between two polls of a waiting loop is a
    parameter; the loop has as fuel the number of polls, and the theorem says how many are enough.
  \<^item> \<open>Printf\<close> models \<open>system/m_printf.cpp\<close>. \<open>PrintfProps\<close> shows truncation with a terminator inside of the buffer.
  \<^item> \<open>DateTime\<close> models \<open>SmingCore/DateTime.cpp\<close>. \<open>DateTimeProps\<close> shows that calendar fields and 32-bit times convert into
    each other; \<open>DateTimeText\<close> that the HTTP date is read back. \<open>format\<close> calls itself for the composed directives; its
    depth is bounded by 3, since a composed directive expands to at most one further level.
  \<^item> \<open>Base64\<close> models \<open>Services/libb64\<close> and \<open>WebHelpers/base64.cpp\<close>, \<open>Escape\<close> models \<open>WebHelpers/escape.cpp\<close>: round trips, the
    equality of encoding in pieces and in one call, and of unescaping in place and into a separate block.

  \<^item> \<open>Sha1\<close> models \<open>WebHelpers/aw-sha1.cpp\<close>. \<open>Sha1Props\<close> shows that it is the digest of the standard, and for which lengths.
  \<^item> \<open>WsParser\<close> models \<open>third-party/ws_parser\<close>, \<open>Websocket\<close> the connection of \<open>Network/Http/Websocket\<close> that drives it. The
    callbacks of the parser are functions on the state behind its user pointer. \<open>WsParserProps\<close> shows that the way the
    input is cut does not matter, \<open>WebsocketProps\<close> that messages sent arrive whole and in order.
  \<^item> \<open>Umm\<close> models \<open>third-party/umm_malloc\<close>, the heap behind \<open>malloc\<close>, in the configuration of \<open>umm_malloc_cfg.h\<close>. The heap
    is the array of its cells and pointers are offsets in it. \<open>UmmRep\<close> has the invariant of the block list and the free
    list and shows that merging, splitting and freeing keep it; \<open>UmmProps\<close> and \<open>UmmRealloc\<close> do so for malloc and
    realloc; \<open>UmmHeap\<close> shows that the calls refine a finite map from pointers to contents. The loops over the lists
    are partial functions, and their return on a heap with the invariant is part of what is proved.

  \<^bold>\<open>Not modelled.\<close> Floating point (\<open>dtostrf\<close>, the \<open>float\<close> overloads) is left out, since its text depends on the rounding
  of the soft-float library. The peripherals other than the UART, the timers and the WiFi platform classes are
  calls into the SDK, and the TCP, UDP, DNS and TLS layers calls into lwip and axtls, of which the repository has
  headers and patches only. The HTTP, MQTT, FTP and SMTP classes are built on those layers. Of the libraries under
  \<open>third-party\<close>, \<open>http-parser\<close>, \<open>mqtt-codec\<close>, \<open>rboot\<close>, \<open>spiffs\<close>, \<open>pwm\<close> and \<open>esp-gdbstub\<close>, like the FAT file system under
  \<open>Services\<close>, are in the repository and are not covered; neither are the device drivers under \<open>Libraries\<close>.
\<close>

end
